(* ===== verification/Flash_Prelude.thy ===== *)
theory Flash_Prelude
  imports Main "HOL-Library.Word"
begin

text \<open>
  Shared vocabulary of the development: the C integer types as words, the kernel's
  error numbers, little-endian object representation of 32-bit fields, and the
  lemmas on words, lists and tables that the component theories use.
\<close>

unbundle bit_operations_syntax

section \<open>Machine types and error numbers\<close>

type_synonym u8 = "8 word"
type_synonym u16 = "16 word"
type_synonym u32 = "32 word"
type_synonym u64 = "64 word"
type_synonym bytes = "u8 list"

abbreviation (input) EIO :: int where "EIO \<equiv> 5"
abbreviation (input) ENOMEM :: int where "ENOMEM \<equiv> 12"
abbreviation (input) ENODEV :: int where "ENODEV \<equiv> 19"
abbreviation (input) EINVAL :: int where "EINVAL \<equiv> 22"
abbreviation (input) ENOSPC :: int where "ENOSPC \<equiv> 28"
abbreviation (input) EBADMSG :: int where "EBADMSG \<equiv> 74"
abbreviation (input) EUCLEAN :: int where "EUCLEAN \<equiv> 117"

named_theorems word_nat \<open>transfer of word arithmetic to nat, overflow excluded\<close>
named_theorems le_codec \<open>little-endian encoding and decoding\<close>

section \<open>Words as bounded naturals\<close>

lemma word_less_unat [word_nat]: "(a :: 'a::len word) < b \<longleftrightarrow> unat a < unat b"
  by (rule word_less_nat_alt)

lemma word_le_unat [word_nat]: "(a :: 'a::len word) \<le> b \<longleftrightarrow> unat a \<le> unat b"
  by (rule word_le_nat_alt)

lemma unat_less_2p: "unat (a :: 'a::len word) < 2 ^ LENGTH('a)"
  by (rule unsigned_less)

lemma unat_inc [simp]: "(a :: 'a::len word) < b \<Longrightarrow> unat (a + 1) = Suc (unat a)"
proof -
  assume "a < b"
  then have "Suc (unat a) \<le> unat b"
    by (simp add: word_less_unat)
  then have "unat a + 1 < 2 ^ LENGTH('a)"
    using unat_less_2p [of b] by (simp only: Suc_eq_plus1)
  then show ?thesis by (simp add: unat_word_ariths unat_1)
qed

lemma unat_dec [simp]: "(b :: 'a::len word) < a \<Longrightarrow> unat (a - 1) = unat a - 1"
proof -
  assume "b < a"
  then have "a \<noteq> 0" by auto
  then show ?thesis by (rule unat_minus_one)
qed

lemma unat_sub_le: "(b :: 'a::len word) \<le> a \<Longrightarrow> unat (a - b) = unat a - unat b"
  by (rule unat_sub)

lemma word_inc_le: "(a :: 'a::len word) < b \<Longrightarrow> a + 1 \<le> b"
  by (simp add: word_le_unat) (simp add: word_less_unat)

lemma unat_ucast_small: "unat (x :: 'a::len word) < 2 ^ LENGTH('b) \<Longrightarrow> unat (ucast x :: 'b::len word) = unat x"
  by (simp add: unsigned_ucast_eq take_bit_nat_eq_self)

lemma unat_u32_u64 [simp]: "unat (ucast (x :: u32) :: u64) = unat x"
  using unat_less_2p [of x] by (intro unat_ucast_small) simp

lemma unat_u16_u64 [simp]: "unat (ucast (x :: u16) :: u64) = unat x"
  using unat_less_2p [of x] by (intro unat_ucast_small) simp

lemma unat_u16_u32 [simp]: "unat (ucast (x :: u16) :: u32) = unat x"
  using unat_less_2p [of x] by (intro unat_ucast_small) simp

lemma unat_of_nat_small: "n < 2 ^ LENGTH('a) \<Longrightarrow> unat (of_nat n :: 'a::len word) = n"
  by (simp add: unat_of_nat)

lemma sint_small: "uint (w :: u32) < 2 ^ 31 \<Longrightarrow> sint w = uint w"
proof -
  assume "uint w < 2 ^ 31"
  moreover have "- (2 ^ 31) \<le> uint w"
    by (rule order_trans [OF _ uint_ge_0]) simp
  ultimately show ?thesis
    by (simp only: sint_uint) (simp add: signed_take_bit_int_eq_self_iff)
qed

lemma div_mod_within:
  fixes x :: nat
  assumes "x mod d + i < d"
  shows "(x + i) div d = x div d" "(x + i) mod d = x mod d + i"
proof -
  have d: "(y + d * q) div d = q" "(y + d * q) mod d = y" if "y < d" for y q
    using that by simp_all
  have e: "x + i = (x mod d + i) + d * (x div d)"
    using mod_mult_div_eq [of x d] by linarith
  show "(x + i) div d = x div d" using d(1) [OF assms, of "x div d"] by (simp only: e [symmetric])
  show "(x + i) mod d = x mod d + i" using d(2) [OF assms, of "x div d"] by (simp only: e [symmetric])
qed

section \<open>Bit fields\<close>

lemma bit_three [simp]: "bit (3 :: int) m \<longleftrightarrow> m < 2"
proof -
  have "(3 :: int) = mask 2" by (simp add: mask_eq_exp_minus_1)
  then show ?thesis by (simp only: bit_mask_iff) simp
qed

lemma word_and_neq_0_iff: "(a :: 'a::len word) AND m \<noteq> 0 \<longleftrightarrow> (\<exists>n. bit a n \<and> bit m n)"
  by (auto simp: bit_eq_iff bit_and_iff dest: bit_imp_le_length)

lemma bit_three_word [simp]: "bit (3 :: 'a::len word) m \<longleftrightarrow> m < 2 \<and> m < LENGTH('a)"
proof -
  have "(3 :: 'a word) = mask 2" by (simp add: mask_eq_exp_minus_1)
  then show ?thesis by (simp only: bit_mask_iff) auto
qed

section \<open>Tables of states indexed by block number\<close>

text \<open>
  The interface that the two bitmaps of the drivers (\<open>bbt_buf\<close> and \<open>block_state\<close>) provide:
  reading after writing. What follows from it is shared: taking a block out of the set of
  blocks in some state makes that set strictly smaller.
\<close>

definition in_state :: "('t \<Rightarrow> 'b \<Rightarrow> 's) \<Rightarrow> 's \<Rightarrow> 't \<Rightarrow> 'b set" where
  "in_state get s t = {x. get t x = s}"

locale state_table =
  fixes get :: "'t \<Rightarrow> 'b \<Rightarrow> 's" and put :: "'t \<Rightarrow> 'b \<Rightarrow> 's \<Rightarrow> 't" and inb :: "'t \<Rightarrow> 'b \<Rightarrow> bool"
    and valid :: "'s \<Rightarrow> bool"
  assumes get_put: "inb t x \<Longrightarrow> valid s \<Longrightarrow> get (put t x s) y = (if y = x then s else get t y)"
    and inb_put: "inb (put t x s) y = inb t y"
    and finite_blocks: "finite (UNIV :: 'b set)"
begin

lemma put_same: "inb t x \<Longrightarrow> valid s \<Longrightarrow> get (put t x s) x = s"
  by (simp add: get_put)

lemma put_put: "inb t x \<Longrightarrow> valid s \<Longrightarrow> valid s' \<Longrightarrow> get (put (put t x s) x s') y = get (put t x s') y"
  by (simp add: get_put inb_put)

lemma put_commute:
  "inb t x \<Longrightarrow> inb t y \<Longrightarrow> valid s \<Longrightarrow> valid s' \<Longrightarrow> x \<noteq> y \<Longrightarrow>
    get (put (put t x s) y s') z = get (put (put t y s') x s) z"
  by (simp add: get_put inb_put)

lemma in_state_put_other:
  "inb t x \<Longrightarrow> valid s' \<Longrightarrow> s' \<noteq> s \<Longrightarrow> in_state get s (put t x s') = in_state get s t - {x}"
  by (auto simp: in_state_def get_put)

lemma in_state_shrinks:
  assumes "inb t x" "valid s'" "s' \<noteq> s" "get t x = s"
  shows "in_state get s (put t x s') \<subset> in_state get s t"
  unfolding in_state_put_other [OF assms(1-3)] using assms(4) by (auto simp: in_state_def)

lemma card_in_state_less:
  assumes "inb t x" "valid s'" "s' \<noteq> s" "get t x = s"
  shows "card (in_state get s (put t x s')) < card (in_state get s t)"
  using in_state_shrinks [OF assms] finite_subset [OF subset_UNIV finite_blocks] by (intro psubset_card_mono) auto

end

section \<open>Little-endian object representation\<close>

text \<open>
  The on-flash structures are C structs of little-endian 32-bit (and one 64-bit) fields;
  \<open>le32\<close>/\<open>le64\<close> are their object representation and \<open>rd32\<close>/\<open>rd64\<close> the field reads
  at a byte offset. Offsets outside the buffer read as 0; the component theories prove
  that no operation uses one.
\<close>

definition rd8 :: "bytes \<Rightarrow> nat \<Rightarrow> u8" where
  "rd8 bs k = (if k < length bs then bs ! k else 0)"

definition le32 :: "u32 \<Rightarrow> bytes" where
  "le32 w = [ucast w, ucast (drop_bit 8 w), ucast (drop_bit 16 w), ucast (drop_bit 24 w)]"

definition rd32 :: "bytes \<Rightarrow> nat \<Rightarrow> u32" where
  "rd32 bs k = ucast (rd8 bs k) OR push_bit 8 (ucast (rd8 bs (k + 1)))
     OR push_bit 16 (ucast (rd8 bs (k + 2))) OR push_bit 24 (ucast (rd8 bs (k + 3)))"

definition le64 :: "u64 \<Rightarrow> bytes" where
  "le64 w = le32 (ucast w) @ le32 (ucast (drop_bit 32 w))"

definition rd64 :: "bytes \<Rightarrow> nat \<Rightarrow> u64" where
  "rd64 bs k = ucast (rd32 bs k) OR push_bit 32 (ucast (rd32 bs (k + 4)))"

lemma length_le32 [simp]: "length (le32 w) = 4"
  by (simp add: le32_def)

lemma length_le64 [simp]: "length (le64 w) = 8"
  by (simp add: le64_def)

lemma rd8_append: "rd8 (xs @ ys) k = (if k < length xs then rd8 xs k else rd8 ys (k - length xs))"
  by (auto simp: rd8_def nth_append)

lemma rd8_take: "k < n \<Longrightarrow> rd8 (take n xs) k = rd8 xs k"
  by (auto simp: rd8_def)

lemma rd8_drop: "rd8 (drop n xs) k = rd8 xs (n + k)"
  by (auto simp: rd8_def add.commute less_diff_conv)

lemma rd32_append_left [le_codec]: "k + 4 \<le> length xs \<Longrightarrow> rd32 (xs @ ys) k = rd32 xs k"
  by (simp add: rd32_def rd8_append)

lemma rd32_append_right [le_codec]: "length xs \<le> k \<Longrightarrow> rd32 (xs @ ys) k = rd32 ys (k - length xs)"
  by (auto simp: rd32_def rd8_append le_iff_add)

lemma rd32_take: "k + 4 \<le> n \<Longrightarrow> rd32 (take n xs) k = rd32 xs k"
  by (simp add: rd32_def rd8_take)

lemma rd32_drop: "rd32 (drop n xs) k = rd32 xs (n + k)"
  by (simp add: rd32_def rd8_drop add.assoc)

lemma u32_from_bytes:
  "ucast (ucast w :: u8) OR push_bit 8 (ucast (ucast (drop_bit 8 w) :: u8))
     OR push_bit 16 (ucast (ucast (drop_bit 16 w) :: u8))
     OR push_bit 24 (ucast (ucast (drop_bit 24 w) :: u8)) = (w :: u32)"
proof (rule bit_word_eqI)
  fix n
  assume "n < LENGTH(32)"
  then consider "n < 8" | "8 \<le> n" "n < 16" | "16 \<le> n" "n < 24" | "24 \<le> n" "n < 32"
    by fastforce
  then show "bit (ucast (ucast w :: u8) OR push_bit 8 (ucast (ucast (drop_bit 8 w) :: u8))
     OR push_bit 16 (ucast (ucast (drop_bit 16 w) :: u8))
     OR push_bit 24 (ucast (ucast (drop_bit 24 w) :: u8)) :: u32) n = bit w n"
    by cases (auto simp: bit_simps)
qed

lemma rd32_le32 [simp, le_codec]: "rd32 (le32 w) 0 = w"
  by (simp add: rd32_def rd8_def le32_def u32_from_bytes)

lemma byte_of_u32:
  fixes a b c e :: u8
  defines "w \<equiv> (ucast a OR push_bit 8 (ucast b) OR push_bit 16 (ucast c) OR push_bit 24 (ucast e) :: u32)"
  shows "ucast w = a" "ucast (drop_bit 8 w) = b" "ucast (drop_bit 16 w) = c" "ucast (drop_bit 24 w) = e"
  unfolding w_def by (rule bit_word_eqI; auto simp: bit_simps dest: bit_imp_le_length)+

lemma le32_rd32:
  assumes "k + 4 \<le> length bs"
  shows "le32 (rd32 bs k) = take 4 (drop k bs)"
proof -
  have "take 4 (drop k bs) = [bs ! k, bs ! (k + 1), bs ! (k + 2), bs ! (k + 3)]"
    using assms by (auto intro!: nth_equalityI simp: less_Suc_eq numeral_eq_Suc)
  moreover have "rd8 bs k = bs ! k" "rd8 bs (k + 1) = bs ! (k + 1)" "rd8 bs (k + 2) = bs ! (k + 2)"
      "rd8 bs (k + 3) = bs ! (k + 3)"
    using assms by (simp_all add: rd8_def)
  ultimately show ?thesis
    unfolding le32_def rd32_def byte_of_u32 by simp
qed

lemma u64_from_halves:
  "ucast (ucast w :: u32) OR push_bit 32 (ucast (ucast (drop_bit 32 w) :: u32)) = (w :: u64)"
proof (rule bit_word_eqI)
  fix n
  assume "n < LENGTH(64)"
  then consider "n < 32" | "32 \<le> n" "n < 64"
    by fastforce
  then show "bit (ucast (ucast w :: u32) OR push_bit 32 (ucast (ucast (drop_bit 32 w) :: u32)) :: u64) n
      = bit w n"
    by cases (auto simp: bit_simps)
qed

lemma rd64_le64 [simp]: "rd64 (le64 w) 0 = w"
  by (simp add: rd64_def le64_def le_codec u64_from_halves)

text \<open>A table of 32-bit words copied byte by byte, and read back.\<close>

definition le32s :: "u32 list \<Rightarrow> bytes" where
  "le32s ws = concat (map le32 ws)"

definition rd32s :: "nat \<Rightarrow> bytes \<Rightarrow> nat \<Rightarrow> u32 list" where
  "rd32s n bs k = map (\<lambda>i. rd32 bs (k + 4 * i)) [0..<n]"

lemma length_le32s [simp]: "length (le32s ws) = 4 * length ws"
  by (induction ws) (auto simp: le32s_def)

lemma length_rd32s [simp]: "length (rd32s n bs k) = n"
  by (simp add: rd32s_def)

lemma rd32_le32s: "i < length ws \<Longrightarrow> rd32 (le32s ws) (4 * i) = ws ! i"
proof (induction ws arbitrary: i)
  case Nil
  then show ?case by simp
next
  case (Cons w ws)
  have split: "le32s (w # ws) = le32 w @ le32s ws"
    by (simp add: le32s_def)
  show ?case
  proof (cases i)
    case 0
    then show ?thesis by (simp add: split le_codec)
  next
    case (Suc j)
    with Cons show ?thesis by (simp add: split le_codec)
  qed
qed

lemma rd32s_le32s: "rd32s (length ws) (le32s ws) 0 = ws"
  by (rule nth_equalityI) (simp_all add: rd32s_def rd32_le32s)

end
