(* ===== verification/Nand_Lower.thy ===== *)
theory Nand_Lower
  imports Flash_Prelude
begin

text \<open>
  The lower NAND device as the bad-block layer sees it (\<open>mtk_bmt.h\<close> and the wrappers at
  the head of \<open>mtk_bmt.c\<close>). The five function pointers that \<open>mtk_bmt_replace_ops\<close> saves
  from the MTD core are code outside this repository: they are fields of the record
  \<open>bmt_desc\<close> over an arbitrary type \<open>'d\<close> of device states. A device call takes the state
  and returns the new one, so a device may fail, wear out or recover between two calls.
  The tables of the three back ends are kept in records of their own, in the theories
  that model them; \<open>bmt_desc\<close> holds what is constant once the driver is attached.
\<close>

section \<open>struct mtd\_oob\_ops and struct bmt\_desc\<close>

record mtd_oob_ops =
  oo_len :: u64
  oo_retlen :: u64
  oo_ooblen :: u64
  oo_oobretlen :: u64
  oo_ooboffs :: u64
  oo_datbuf :: bytes
  oo_oobbuf :: bytes

record 'd bmt_desc =
  mtd_size :: u64
  mtd_erasesize :: u32
  mtd_erasesize_mask :: u32
  mtd_oobsize :: u32
  mtd_bitflip_threshold :: u32
  mtd_ecc_strength :: u32
  lo_read_oob :: "'d \<Rightarrow> u64 \<Rightarrow> mtd_oob_ops \<Rightarrow> int \<times> mtd_oob_ops \<times> 'd"
  lo_write_oob :: "'d \<Rightarrow> u64 \<Rightarrow> mtd_oob_ops \<Rightarrow> int \<times> mtd_oob_ops \<times> 'd"
  lo_erase :: "'d \<Rightarrow> u64 \<Rightarrow> u64 \<Rightarrow> int \<times> 'd"
  lo_block_isbad :: "'d \<Rightarrow> u64 \<Rightarrow> int"
  lo_block_markbad :: "'d \<Rightarrow> u64 \<Rightarrow> int \<times> 'd"
  table_size :: u32
  pg_size :: u32
  blk_size :: u32
  pg_shift :: u16
  blk_shift :: u16
  pool_lba :: u16
  bb_max :: u16
  total_blks :: u16
  bmt_pgs :: u32
  remap_range :: "(u32 \<times> u32) list"
  oob_offset :: u8

abbreviation mtd_is_bitflip :: "int \<Rightarrow> bool" where
  "mtd_is_bitflip ret \<equiv> ret = - EUCLEAN"

definition shl64 :: "u64 \<Rightarrow> u16 \<Rightarrow> u64" where
  "shl64 x n = push_bit (unat n) x"

definition shr64 :: "u64 \<Rightarrow> u16 \<Rightarrow> u64" where
  "shr64 x n = drop_bit (unat n) x"

section \<open>The inline helpers of mtk\_bmt.h\<close>

definition blk_pg :: "'d bmt_desc \<Rightarrow> u16 \<Rightarrow> u32" where
  "blk_pg b block = push_bit (unat (blk_shift b) - unat (pg_shift b)) (ucast block)"

definition bbt_nand_read ::
    "'d bmt_desc \<Rightarrow> 'd \<Rightarrow> u32 \<Rightarrow> u64 \<Rightarrow> u64 \<Rightarrow> int \<times> bytes \<times> bytes \<times> 'd" where
  "bbt_nand_read b d page dat_len fdm_len =
     (let ops = \<lparr>oo_len = dat_len, oo_retlen = 0, oo_ooblen = fdm_len, oo_oobretlen = 0,
                 oo_ooboffs = ucast (oob_offset b), oo_datbuf = [], oo_oobbuf = []\<rparr>;
          (ret, ops', d') = lo_read_oob b d (ucast (push_bit (unat (pg_shift b)) page)) ops
      in (if ret < 0 then ret else 0, oo_datbuf ops', oo_oobbuf ops', d'))"

definition bbt_nand_erase :: "'d bmt_desc \<Rightarrow> 'd \<Rightarrow> u16 \<Rightarrow> int \<times> 'd" where
  "bbt_nand_erase b d block = lo_erase b d (shl64 (ucast block) (blk_shift b)) (ucast (blk_size b))"

definition write_bmt :: "'d bmt_desc \<Rightarrow> bytes \<Rightarrow> 'd \<Rightarrow> u16 \<Rightarrow> bytes \<Rightarrow> int \<times> 'd" where
  "write_bmt b sig d block dat =
     (let ops = \<lparr>oo_len = ucast (push_bit (unat (pg_shift b)) (bmt_pgs b)), oo_retlen = 0,
                 oo_ooblen = of_nat (length sig), oo_oobretlen = 0,
                 oo_ooboffs = 1 + ucast (oob_offset b), oo_datbuf = dat, oo_oobbuf = sig\<rparr>;
          (ret, ops', d') = lo_write_oob b d (shl64 (ucast block) (blk_shift b)) ops
      in (ret, d'))"

section \<open>bbt\_nand\_copy\<close>

text \<open>
  One iteration of the copy loop per unit of \<open>n\<close>, the pages left. The OOB length of the
  write request is never set: the assignment to \<open>wr_ops.ooblen\<close> follows the write, on a
  request that is rebuilt in the next iteration.
\<close>

definition copy_rd_ops :: "'d bmt_desc \<Rightarrow> mtd_oob_ops" where
  "copy_rd_ops b =
     (let pages = drop_bit (unat (pg_shift b)) (blk_size b)
      in \<lparr>oo_len = ucast (pg_size b), oo_retlen = 0,
          oo_ooblen = ucast (min (mtd_oobsize b div pages) 64), oo_oobretlen = 0,
          oo_ooboffs = 0, oo_datbuf = [], oo_oobbuf = []\<rparr>)"

definition copy_wr_ops :: "'d bmt_desc \<Rightarrow> bytes \<Rightarrow> bytes \<Rightarrow> mtd_oob_ops" where
  "copy_wr_ops b dat oob =
     \<lparr>oo_len = ucast (pg_size b), oo_retlen = 0, oo_ooblen = 0, oo_oobretlen = 0,
      oo_ooboffs = 0, oo_datbuf = dat, oo_oobbuf = oob\<rparr>"

fun bbt_nand_copy_loop ::
    "nat \<Rightarrow> 'd bmt_desc \<Rightarrow> 'd \<Rightarrow> u64 \<Rightarrow> u64 \<Rightarrow> int \<Rightarrow> u64 \<Rightarrow> int \<times> 'd" where
  "bbt_nand_copy_loop 0 b d dest src max_offset offset = (0, d)"
| "bbt_nand_copy_loop (Suc n) b d dest src max_offset offset =
     (if sint offset \<ge> max_offset then (0, d)
      else
        let (ret, rd, d1) = lo_read_oob b d (src + offset) (copy_rd_ops b)
        in if ret < 0 \<and> \<not> mtd_is_bitflip ret then (ret, d1)
           else if oo_retlen rd = 0 then (0, d1)
           else
             let (ret2, wr, d2) = lo_write_oob b d1 (dest + offset)
                                    (copy_wr_ops b (oo_datbuf rd) (oo_oobbuf rd))
             in if ret2 < 0 then (ret2, d2)
                else bbt_nand_copy_loop n b d2 dest src max_offset (offset + oo_retlen rd))"

definition bbt_nand_copy :: "'d bmt_desc \<Rightarrow> 'd \<Rightarrow> u16 \<Rightarrow> u16 \<Rightarrow> int \<Rightarrow> int \<times> 'd" where
  "bbt_nand_copy b d dest_blk src_blk max_offset =
     bbt_nand_copy_loop (unat (drop_bit (unat (pg_shift b)) (blk_size b))) b d
       (shl64 (ucast dest_blk) (blk_shift b)) (shl64 (ucast src_blk) (blk_shift b)) max_offset 0"

section \<open>mapping\_block\_in\_range\<close>

fun range_search :: "u32 \<Rightarrow> (u32 \<times> u32) list \<Rightarrow> (int \<times> int) option" where
  "range_search addr [] = None"
| "range_search addr ((lo, hi) # rs) =
     (if addr < lo \<or> addr \<ge> hi then range_search addr rs else Some (sint lo, sint hi))"

definition mapping_block_in_range :: "'d bmt_desc \<Rightarrow> int \<Rightarrow> (int \<times> int) option" where
  "mapping_block_in_range b block =
     (let addr = push_bit (unat (blk_shift b)) (word_of_int block :: u32)
      in if remap_range b = [] then Some (0, uint (total_blks b))
         else range_search addr (remap_range b))"

end
