(* ===== verification/Bmt_Core.thy ===== *)
theory Bmt_Core
  imports Nand_Lower
begin

text \<open>
  The bad-block translation layer of \<open>mtk_bmt.c\<close>: the MTD entry points that replace the
  device's own, each of which translates a logical block through the back end's
  \<open>get_mapping_block\<close>, runs the device operation on the physical block and asks the back
  end to remap the block when the device reports a failure. The back end is a record of
  operations over its own table type \<open>'t\<close> and the device \<open>'d\<close>, as \<open>struct mtk_bmt_ops\<close> is.
\<close>

section \<open>struct mtk\_bmt\_ops and the request state\<close>

record ('t, 'd) mtk_bmt_ops =
  remap_block :: "'d bmt_desc \<Rightarrow> u16 \<Rightarrow> u16 \<Rightarrow> int \<Rightarrow> 't \<Rightarrow> 'd \<Rightarrow> bool \<times> 't \<times> 'd"
  unmap_block :: "'d bmt_desc \<Rightarrow> u16 \<Rightarrow> 't \<Rightarrow> 'd \<Rightarrow> 't \<times> 'd"
  get_mapping_block :: "'d bmt_desc \<Rightarrow> int \<Rightarrow> 't \<Rightarrow> int"

text \<open>
  The locals of the read and write loops. \<open>io_retlen\<close> and \<open>io_oobretlen\<close> are the caller's
  \<open>ops->retlen\<close> and \<open>ops->oobretlen\<close>; \<open>io_ooboffs\<close> and \<open>io_ooblen\<close> are those of \<open>cur_ops\<close>;
  \<open>io_dat\<close> and \<open>io_oob\<close> are the bytes transferred so far (read), or those still to be
  written (write), which the code tracks by advancing the buffer pointers.
\<close>

record bmt_io =
  io_retlen :: u64
  io_oobretlen :: u64
  io_ooboffs :: u64
  io_ooblen :: u64
  io_dat :: bytes
  io_oob :: bytes
  io_addr :: u64
  io_retry :: int
  io_ret :: int
  io_maxbf :: int

definition mtk_bmt_remap_block ::
    "'d bmt_desc \<Rightarrow> ('t, 'd) mtk_bmt_ops \<Rightarrow> u32 \<Rightarrow> u32 \<Rightarrow> int \<Rightarrow> 't \<Rightarrow> 'd \<Rightarrow> bool \<times> 't \<times> 'd" where
  "mtk_bmt_remap_block b ops block mapped_block copy_len t d =
     (case mapping_block_in_range b (sint block) of
        None \<Rightarrow> (False, t, d)
      | Some _ \<Rightarrow> remap_block ops b (ucast block) (ucast mapped_block) copy_len t d)"

section \<open>mtk\_bmt\_read\<close>

definition io_offset :: "'d bmt_desc \<Rightarrow> u64 \<Rightarrow> u32" where
  "io_offset b addr = ucast (addr AND ucast (blk_size b - 1))"

definition io_block :: "'d bmt_desc \<Rightarrow> u64 \<Rightarrow> u32" where
  "io_block b addr = ucast (shr64 addr (blk_shift b))"

definition phys_addr :: "'d bmt_desc \<Rightarrow> int \<Rightarrow> u32 \<Rightarrow> u64" where
  "phys_addr b cur_block offset = shl64 (word_of_int cur_block) (blk_shift b) + ucast offset"

definition io_chunk :: "u32 \<Rightarrow> u64 \<Rightarrow> u64 \<Rightarrow> u64" where
  "io_chunk room len retlen = ucast (min room (ucast (len - retlen) :: u32))"

definition rd_cur_ops :: "'d bmt_desc \<Rightarrow> u64 \<Rightarrow> bmt_io \<Rightarrow> mtd_oob_ops" where
  "rd_cur_ops b len st =
     \<lparr>oo_len = io_chunk (mtd_erasesize b - io_offset b (io_addr st)) len (io_retlen st),
      oo_retlen = 0, oo_ooblen = io_ooblen st, oo_oobretlen = 0,
      oo_ooboffs = io_ooboffs st, oo_datbuf = [], oo_oobbuf = []\<rparr>"

text \<open>The bookkeeping after a successful transfer, shared by the read and write loops.\<close>

definition io_advance :: "'d bmt_desc \<Rightarrow> mtd_oob_ops \<Rightarrow> bmt_io \<Rightarrow> bmt_io" where
  "io_advance b cur st =
     (let len' = (if oo_len cur = 0 then ucast (mtd_erasesize b - io_offset b (io_addr st)) else oo_len cur)
      in st\<lparr>io_retlen := io_retlen st + oo_retlen cur,
            io_oobretlen := io_oobretlen st + oo_oobretlen cur,
            io_ooboffs := 0,
            io_ooblen := oo_ooblen cur - oo_oobretlen cur,
            io_addr := io_addr st + len',
            io_retry := 0\<rparr>)"

definition rd_finish :: "bmt_io \<Rightarrow> int" where
  "rd_finish st = (if io_ret st < 0 then io_ret st else io_maxbf st)"

partial_function (option) mtk_bmt_read_loop ::
    "'d bmt_desc \<Rightarrow> ('t, 'd) mtk_bmt_ops \<Rightarrow> u64 \<Rightarrow> u64 \<Rightarrow> bmt_io \<Rightarrow> 't \<Rightarrow> 'd
       \<Rightarrow> (int \<times> bmt_io \<times> 't \<times> 'd) option" where
  "mtk_bmt_read_loop b ops len ooblen st t d =
     (if \<not> (io_retlen st < len \<or> io_oobretlen st < ooblen) then Some (rd_finish st, st, t, d)
      else
        let block = io_block b (io_addr st);
            offset = io_offset b (io_addr st);
            cur_block = get_mapping_block ops b (sint block) t
        in if cur_block < 0 then Some (- EIO, st, t, d)
           else
             let (cur_ret, cur, d1) =
                   lo_read_oob b d (phys_addr b cur_block offset) (rd_cur_ops b len st);
                 st1 = (if cur_ret < 0 then st\<lparr>io_ret := cur_ret\<rparr>
                        else st\<lparr>io_maxbf := max (io_maxbf st) cur_ret\<rparr>)
             in if cur_ret < 0 \<and> \<not> mtd_is_bitflip cur_ret then
                  (let (ok, t2, d2) = mtk_bmt_remap_block b ops block (word_of_int cur_block)
                                        (sint (mtd_erasesize b)) t d1
                   in if ok then
                        (if io_retry st1 < 10
                         then mtk_bmt_read_loop b ops len ooblen
                                (st1\<lparr>io_retry := io_retry st1 + 1\<rparr>) t2 d2
                         else Some (rd_finish st1, st1, t2, d2))
                      else Some (rd_finish st1, st1, t2, d2))
                else
                  let (t2, d2) =
                        (if mtd_bitflip_threshold b \<noteq> 0 \<and>
                            (word_of_int cur_ret :: u32) \<ge> mtd_bitflip_threshold b
                         then snd (mtk_bmt_remap_block b ops block (word_of_int cur_block)
                                     (sint (mtd_erasesize b)) t d1)
                         else (t, d1));
                      st2 = (io_advance b cur st1)
                              \<lparr>io_dat := io_dat st1 @ take (unat (oo_retlen cur)) (oo_datbuf cur),
                               io_oob := io_oob st1 @ take (unat (oo_oobretlen cur)) (oo_oobbuf cur)\<rparr>
                  in mtk_bmt_read_loop b ops len ooblen st2 t2 d2)"

declare mtk_bmt_read_loop.simps [code]

definition rd_init :: "u64 \<Rightarrow> mtd_oob_ops \<Rightarrow> bmt_io" where
  "rd_init from req =
     \<lparr>io_retlen = 0, io_oobretlen = 0, io_ooboffs = oo_ooboffs req, io_ooblen = oo_ooblen req,
      io_dat = [], io_oob = [], io_addr = from, io_retry = 0, io_ret = 0, io_maxbf = 0\<rparr>"

definition mtk_bmt_read ::
    "'d bmt_desc \<Rightarrow> ('t, 'd) mtk_bmt_ops \<Rightarrow> u64 \<Rightarrow> mtd_oob_ops \<Rightarrow> 't \<Rightarrow> 'd
       \<Rightarrow> (int \<times> bmt_io \<times> 't \<times> 'd) option" where
  "mtk_bmt_read b ops from req t d =
     mtk_bmt_read_loop b ops (oo_len req) (oo_ooblen req) (rd_init from req) t d"

section \<open>mtk\_bmt\_write\<close>

definition wr_cur_ops :: "'d bmt_desc \<Rightarrow> u64 \<Rightarrow> bmt_io \<Rightarrow> mtd_oob_ops" where
  "wr_cur_ops b len st =
     \<lparr>oo_len = io_chunk (blk_size b - io_offset b (io_addr st)) len (io_retlen st),
      oo_retlen = 0, oo_ooblen = io_ooblen st, oo_oobretlen = 0,
      oo_ooboffs = io_ooboffs st, oo_datbuf = io_dat st, oo_oobbuf = io_oob st\<rparr>"

partial_function (option) mtk_bmt_write_loop ::
    "'d bmt_desc \<Rightarrow> ('t, 'd) mtk_bmt_ops \<Rightarrow> u64 \<Rightarrow> u64 \<Rightarrow> bmt_io \<Rightarrow> 't \<Rightarrow> 'd
       \<Rightarrow> (int \<times> bmt_io \<times> 't \<times> 'd) option" where
  "mtk_bmt_write_loop b ops len ooblen st t d =
     (if \<not> (io_retlen st < len \<or> io_oobretlen st < ooblen) then Some (0, st, t, d)
      else
        let block = io_block b (io_addr st);
            offset = io_offset b (io_addr st);
            cur_block = get_mapping_block ops b (sint block) t
        in if cur_block < 0 then Some (- EIO, st, t, d)
           else
             let (ret, cur, d1) =
                   lo_write_oob b d (phys_addr b cur_block offset) (wr_cur_ops b len st)
             in if ret < 0 then
                  (let (ok, t2, d2) = mtk_bmt_remap_block b ops block (word_of_int cur_block)
                                        (sint offset) t d1
                   in if ok then
                        (if io_retry st < 10
                         then mtk_bmt_write_loop b ops len ooblen
                                (st\<lparr>io_retry := io_retry st + 1\<rparr>) t2 d2
                         else Some (ret, st, t2, d2))
                      else Some (ret, st, t2, d2))
                else mtk_bmt_write_loop b ops len ooblen
                       ((io_advance b cur st)
                          \<lparr>io_dat := drop (unat (oo_retlen cur)) (io_dat st),
                           io_oob := drop (unat (oo_oobretlen cur)) (io_oob st)\<rparr>) t d1)"

declare mtk_bmt_write_loop.simps [code]

definition wr_init :: "u64 \<Rightarrow> mtd_oob_ops \<Rightarrow> bmt_io" where
  "wr_init to req =
     \<lparr>io_retlen = 0, io_oobretlen = 0, io_ooboffs = oo_ooboffs req, io_ooblen = oo_ooblen req,
      io_dat = oo_datbuf req, io_oob = oo_oobbuf req, io_addr = to, io_retry = 0, io_ret = 0,
      io_maxbf = 0\<rparr>"

definition mtk_bmt_write ::
    "'d bmt_desc \<Rightarrow> ('t, 'd) mtk_bmt_ops \<Rightarrow> u64 \<Rightarrow> mtd_oob_ops \<Rightarrow> 't \<Rightarrow> 'd
       \<Rightarrow> (int \<times> bmt_io \<times> 't \<times> 'd) option" where
  "mtk_bmt_write b ops to req t d =
     mtk_bmt_write_loop b ops (oo_len req) (oo_ooblen req) (wr_init to req) t d"

section \<open>mtk\_bmt\_mtd\_erase\<close>

text \<open>
  \<open>ret\<close> is the C local of that name, which has no initial value: its content before the
  first device call is the parameter \<open>ret\<close> of the first call of the loop. The result
  carries the failing address where \<open>instr->fail_addr\<close> is set.
\<close>

partial_function (option) mtk_bmt_erase_loop ::
    "'d bmt_desc \<Rightarrow> ('t, 'd) mtk_bmt_ops \<Rightarrow> u64 \<Rightarrow> u64 \<Rightarrow> int \<Rightarrow> int \<Rightarrow> 't \<Rightarrow> 'd
       \<Rightarrow> (int \<times> u64 option \<times> 't \<times> 'd) option" where
  "mtk_bmt_erase_loop b ops start_addr end_addr retry ret t d =
     (if \<not> start_addr < end_addr then Some (ret, None, t, d)
      else
        let orig_block = (ucast (shr64 start_addr (blk_shift b)) :: u16);
            block = get_mapping_block ops b (uint orig_block) t
        in if block < 0 then Some (- EIO, None, t, d)
           else
             let (ret1, d1) = lo_erase b d (shl64 (word_of_int block) (blk_shift b)) (ucast (blk_size b))
             in if ret1 \<noteq> 0 then
                  (let (ok, t2, d2) = mtk_bmt_remap_block b ops (ucast orig_block) (word_of_int block) 0 t d1
                   in if ok then
                        (if retry < 10
                         then mtk_bmt_erase_loop b ops start_addr end_addr (retry + 1) ret1 t2 d2
                         else Some (ret1, Some start_addr, t2, d2))
                      else Some (ret1, Some start_addr, t2, d2))
                else mtk_bmt_erase_loop b ops (start_addr + ucast (mtd_erasesize b)) end_addr 0 ret1 t d1)"

declare mtk_bmt_erase_loop.simps [code]

definition mtk_bmt_mtd_erase ::
    "'d bmt_desc \<Rightarrow> ('t, 'd) mtk_bmt_ops \<Rightarrow> int \<Rightarrow> u64 \<Rightarrow> u64 \<Rightarrow> 't \<Rightarrow> 'd
       \<Rightarrow> (int \<times> u64 option \<times> 't \<times> 'd) option" where
  "mtk_bmt_mtd_erase b ops uninit addr len t d =
     mtk_bmt_erase_loop b ops (addr AND ucast (NOT (mtd_erasesize_mask b))) (addr + len) 0 uninit t d"

section \<open>mtk\_bmt\_block\_isbad, mtk\_bmt\_block\_markbad and the debugfs handlers\<close>

text \<open>The \<open>retry\<close> label runs while \<open>retry_count++ < 10\<close>: \<open>n\<close> is 10 minus \<open>retry_count\<close>.\<close>

fun mtk_bmt_isbad_retry ::
    "nat \<Rightarrow> 'd bmt_desc \<Rightarrow> ('t, 'd) mtk_bmt_ops \<Rightarrow> u16 \<Rightarrow> 't \<Rightarrow> 'd \<Rightarrow> int \<times> 't \<times> 'd" where
  "mtk_bmt_isbad_retry n b ops orig_block t d =
     (let block = (word_of_int (get_mapping_block ops b (uint orig_block) t) :: u16);
          ret = lo_block_isbad b d (shl64 (ucast block) (blk_shift b))
      in if ret \<noteq> 0 then
           (let (ok, t2, d2) = mtk_bmt_remap_block b ops (ucast orig_block) (ucast block)
                                 (sint (blk_size b)) t d
            in if ok then
                 (case n of 0 \<Rightarrow> (ret, t2, d2) | Suc m \<Rightarrow> mtk_bmt_isbad_retry m b ops orig_block t2 d2)
               else (ret, t2, d2))
         else (ret, t, d))"

declare mtk_bmt_isbad_retry.simps [simp del]

definition mtk_bmt_block_isbad ::
    "'d bmt_desc \<Rightarrow> ('t, 'd) mtk_bmt_ops \<Rightarrow> u64 \<Rightarrow> 't \<Rightarrow> 'd \<Rightarrow> int \<times> 't \<times> 'd" where
  "mtk_bmt_block_isbad b ops ofs t d =
     mtk_bmt_isbad_retry 10 b ops (ucast (shr64 ofs (blk_shift b))) t d"

definition mtk_bmt_block_markbad ::
    "'d bmt_desc \<Rightarrow> ('t, 'd) mtk_bmt_ops \<Rightarrow> u64 \<Rightarrow> 't \<Rightarrow> 'd \<Rightarrow> int \<times> 't \<times> 'd" where
  "mtk_bmt_block_markbad b ops ofs t d =
     (let orig_block = (ucast (shr64 ofs (blk_shift b)) :: u16);
          block = get_mapping_block ops b (uint orig_block) t
      in if block < 0 then (- EIO, t, d)
         else
           let (_, t1, d1) = mtk_bmt_remap_block b ops (ucast orig_block) (word_of_int block)
                               (sint (blk_size b)) t d;
               (ret, d2) = lo_block_markbad b d1 (shl64 (word_of_int block) (blk_shift b))
           in (ret, t1, d2))"

definition mtk_bmt_debug_repair ::
    "'d bmt_desc \<Rightarrow> ('t, 'd) mtk_bmt_ops \<Rightarrow> u64 \<Rightarrow> 't \<Rightarrow> 'd \<Rightarrow> int \<times> 't \<times> 'd" where
  "mtk_bmt_debug_repair b ops val t d =
     (let block = sint (ucast (shr64 val (blk_shift b)) :: u32);
          prev_block = get_mapping_block ops b block t
      in if prev_block < 0 then (- EIO, t, d)
         else
           let (t1, d1) = unmap_block ops b (word_of_int block) t d;
               new_block = get_mapping_block ops b block t1
           in if new_block < 0 then (- EIO, t1, d1)
              else if prev_block = new_block then (0, t1, d1)
              else
                let (_, d2) = bbt_nand_erase b d1 (word_of_int new_block);
                    (_, d3) = bbt_nand_copy b d2 (word_of_int new_block) (word_of_int prev_block)
                                (uint (blk_size b))
                in (0, t1, d3))"

definition mtk_bmt_debug_mark_good ::
    "'d bmt_desc \<Rightarrow> ('t, 'd) mtk_bmt_ops \<Rightarrow> u64 \<Rightarrow> 't \<Rightarrow> 'd \<Rightarrow> int \<times> 't \<times> 'd" where
  "mtk_bmt_debug_mark_good b ops val t d =
     (let (t1, d1) = unmap_block ops b (ucast (shr64 val (blk_shift b))) t d in (0, t1, d1))"

definition mtk_bmt_debug_mark_bad ::
    "'d bmt_desc \<Rightarrow> ('t, 'd) mtk_bmt_ops \<Rightarrow> u64 \<Rightarrow> 't \<Rightarrow> 'd \<Rightarrow> int \<times> 't \<times> 'd" where
  "mtk_bmt_debug_mark_bad b ops val t d =
     (let block = (ucast (shr64 val (blk_shift b)) :: u32);
          cur_block = get_mapping_block ops b (sint block) t
      in if cur_block < 0 then (- EIO, t, d)
         else
           let (_, t1, d1) = mtk_bmt_remap_block b ops block (word_of_int cur_block)
                               (sint (blk_size b)) t d
           in (0, t1, d1))"

end
