(* ===== verification/Bmt_Io.thy ===== *)
theory Bmt_Io
  imports Bmt_Core
begin

text \<open>
  The request loops of \<open>mtk_bmt.c\<close> over an arbitrary back end. The locales state what the
  driver relies on: a remap leaves a consistent table, whatever the device answers, and in a
  consistent table every block of the data area translates to a physical block of the device.
  From these laws follow the properties that every back end inherits: the read, write and
  erase loops end on a device that may fail at any call, with at most ten retries between two
  chunks, and sequences of requests keep the table consistent.
\<close>

section \<open>Geometry\<close>

text \<open>Blocks of \<open>2 ^ k\<close> bytes, which the driver and the MTD core agree on.\<close>

definition block_geom :: "'d bmt_desc \<Rightarrow> nat \<Rightarrow> bool" where
  "block_geom b k \<longleftrightarrow> k < 32 \<and> blk_size b = 2 ^ k \<and> unat (blk_shift b) = k \<and> mtd_erasesize b = blk_size b"

section \<open>What a back end promises\<close>

text \<open>
  \<open>inv\<close> is what the back end keeps of its table, whatever the device does. \<open>blk_ok\<close> are the blocks
  it may be asked to remap, \<open>data_ok\<close> those that translate to a block below \<open>limit\<close>. A back end
  that can lose its table says so by \<open>lost\<close>; the translation is promised for the others.
\<close>

locale bmt_remapper =
  fixes b :: "'d bmt_desc" and ops :: "('t, 'd) mtk_bmt_ops"
    and inv :: "'t \<Rightarrow> bool" and blk_ok :: "u16 \<Rightarrow> bool"
  assumes remap_ok: "inv t \<Longrightarrow> blk_ok k \<Longrightarrow> remap_block ops b k mapped copy_len t d = (ok, t', d') \<Longrightarrow> inv t'"
begin

lemma remap_keeps:
  assumes "inv t" "blk_ok k" "mtk_bmt_remap_block b ops (ucast k) m c t d = (ok, t', d')"
  shows "inv t'"
proof (cases "mapping_block_in_range b (sint (ucast k :: u32))")
  case None
  with assms show ?thesis by (simp add: mtk_bmt_remap_block_def)
next
  case (Some r)
  have "ucast (ucast k :: u32) = k" by (rule bit_word_eqI) (simp add: bit_simps)
  with Some assms show ?thesis
    by (intro remap_ok [of t k "ucast m" c d ok t' d']) (simp_all add: mtk_bmt_remap_block_def)
qed

lemma isbad_keeps:
  "inv t \<Longrightarrow> blk_ok k \<Longrightarrow> mtk_bmt_isbad_retry n b ops k t d = (r, t', d') \<Longrightarrow> inv t'"
proof (induction n arbitrary: t d)
  case 0
  then show ?case
    by (subst (asm) mtk_bmt_isbad_retry.simps)
      (auto simp: Let_def split: if_splits prod.splits dest: remap_keeps)
next
  case (Suc n)
  then show ?case
    by (subst (asm) (2) mtk_bmt_isbad_retry.simps)
      (auto simp: Let_def split: if_splits prod.splits dest: remap_keeps)
qed

lemma block_isbad_keeps:
  "inv t \<Longrightarrow> blk_ok (ucast (shr64 ofs (blk_shift b))) \<Longrightarrow> mtk_bmt_block_isbad b ops ofs t d = (r, t', d') \<Longrightarrow> inv t'"
  unfolding mtk_bmt_block_isbad_def by (rule isbad_keeps)

lemma block_markbad_keeps:
  "inv t \<Longrightarrow> blk_ok (ucast (shr64 ofs (blk_shift b))) \<Longrightarrow> mtk_bmt_block_markbad b ops ofs t d = (r, t', d') \<Longrightarrow> inv t'"
  unfolding mtk_bmt_block_markbad_def
  by (auto simp: Let_def split: if_splits prod.splits dest: remap_keeps)

lemma erase_loop_ok:
  assumes es: "mtd_erasesize b \<noteq> 0" "unat fin + unat (mtd_erasesize b) < 2 ^ 64"
    and "inv t" "0 \<le> retry" "retry \<le> 10"
    and "\<And>a. start \<le> a \<Longrightarrow> a < fin \<Longrightarrow> blk_ok (ucast (shr64 a (blk_shift b)))"
  shows "\<exists>r fa t' d'. mtk_bmt_erase_loop b ops start fin retry ret t d = Some (r, fa, t', d') \<and> inv t' \<and>
    (case fa of None \<Rightarrow> start < fin \<longrightarrow> r = 0 \<or> r = - EIO | Some a \<Rightarrow> start \<le> a \<and> a < fin \<and> r \<noteq> 0)"
  using assms(3-6)
proof (induction "(unat fin - unat start) * 11 + nat (10 - retry)" arbitrary: start retry ret t d rule: less_induct)
  case less
  let ?k = "ucast (shr64 start (blk_shift b)) :: u16" and ?n = "start + ucast (mtd_erasesize b)"
  show ?case
  proof (cases "start < fin")
    case False
    with less.prems show ?thesis by (subst mtk_bmt_erase_loop.simps) auto
  next
    case lt: True
    define blk where "blk = get_mapping_block ops b (uint ?k) t"
    have k: "blk_ok ?k" using less.prems(4) [of start] lt by simp
    show ?thesis
    proof (cases "blk < 0")
      case True
      with lt have "mtk_bmt_erase_loop b ops start fin retry ret t d = Some (- EIO, None, t, d)"
        by (subst mtk_bmt_erase_loop.simps) (simp add: Let_def blk_def)
      with less.prems(1) show ?thesis by simp
    next
    case blk: False
    obtain ret1 d1 where er: "lo_erase b d (shl64 (word_of_int blk) (blk_shift b)) (ucast (blk_size b)) = (ret1, d1)"
      by fastforce
    have un: "unat ?n = unat start + unat (mtd_erasesize b)" "0 < unat (mtd_erasesize b)"
      using lt es by (simp_all add: unat_word_ariths word_less_unat unat_gt_0)
    show ?thesis
    proof (cases "ret1 = 0")
      case True
      have step: "mtk_bmt_erase_loop b ops start fin retry ret t d = mtk_bmt_erase_loop b ops ?n fin 0 ret1 t d1"
        using lt blk er True by (subst mtk_bmt_erase_loop.simps) (simp add: Let_def blk_def)
      have "(unat fin - unat ?n) * 11 + nat (10 - 0) < (unat fin - unat start) * 11 + nat (10 - retry)"
        using lt un less.prems(2,3) by (simp add: word_less_unat)
      moreover have "blk_ok (ucast (shr64 a (blk_shift b)))" if "?n \<le> a" "a < fin" for a
        using less.prems(4) [of a] that un by (simp add: word_le_unat)
      ultimately obtain r fa t' d' where ih: "mtk_bmt_erase_loop b ops ?n fin 0 ret1 t d1 = Some (r, fa, t', d')" "inv t'"
        "case fa of None \<Rightarrow> ?n < fin \<longrightarrow> r = 0 \<or> r = - EIO | Some a \<Rightarrow> ?n \<le> a \<and> a < fin \<and> r \<noteq> 0"
        using less.hyps [of ?n 0 t ret1 d1] less.prems(1) by auto
      have "fa = None \<Longrightarrow> r = 0 \<or> r = - EIO"
      proof (cases "?n < fin")
        case False
        with ih(1) True show ?thesis by (subst (asm) mtk_bmt_erase_loop.simps) simp
      qed (use ih(3) in simp)
      moreover have "start \<le> a" if "?n \<le> a" for a
        using that un by (simp add: word_le_unat)
      ultimately show ?thesis
        using ih step by (auto split: option.splits)
    next
      case False
      obtain ok t2 d2 where rm: "mtk_bmt_remap_block b ops (ucast ?k) (word_of_int blk) 0 t d1 = (ok, t2, d2)"
        by (rule prod_cases3)
      have i2: "inv t2" by (rule remap_keeps [OF less.prems(1) k rm])
      show ?thesis
      proof (cases "ok \<and> retry < 10")
        case True
        have step: "mtk_bmt_erase_loop b ops start fin retry ret t d = mtk_bmt_erase_loop b ops start fin (retry + 1) ret1 t2 d2"
          using lt blk er rm False True by (subst mtk_bmt_erase_loop.simps) (simp add: Let_def blk_def)
        have "nat (10 - (retry + 1)) < nat (10 - retry)" using True by linarith
        then show ?thesis
          unfolding step using less.prems True i2 by (intro less.hyps) auto
      next
        case stop: False
        then have "mtk_bmt_erase_loop b ops start fin retry ret t d = Some (ret1, Some start, t2, d2)"
          using lt blk er rm False by (subst mtk_bmt_erase_loop.simps) (auto simp: Let_def blk_def)
        with i2 lt False show ?thesis by simp
      qed
    qed
    qed
  qed
qed

end

section \<open>Offsets and chunks\<close>

lemma unat_io_offset:
  assumes "block_geom b k"
  shows "unat (io_offset b a) = unat a mod 2 ^ k"
proof -
  have m: "(ucast (blk_size b - 1 :: u32) :: u64) = mask k"
  proof (rule bit_word_eqI)
    fix n
    have "blk_size b - 1 = (mask k :: u32)" using assms by (simp add: block_geom_def mask_eq_exp_minus_1)
    then show "bit (ucast (blk_size b - 1) :: u64) n = bit (mask k :: u64) n"
      if "n < LENGTH(64)" using that assms by (auto simp: bit_simps block_geom_def)
  qed
  have "unat (take_bit k a) = unat a mod 2 ^ k"
    by (subst unsigned_take_bit_eq) (simp add: take_bit_eq_mod)
  moreover have "unat a mod 2 ^ k < 2 ^ 32"
    by (rule order_less_le_trans [of _ "2 ^ k"], simp, rule power_increasing) (use assms in \<open>simp_all add: block_geom_def\<close>)
  ultimately show ?thesis
    unfolding io_offset_def m by (simp add: take_bit_eq_mask [symmetric] unat_ucast_small)
qed

lemma unat_io_chunk:
  assumes "block_geom b k" "r < unat len" "unat len < 2 ^ 32"
  shows "unat (io_chunk (mtd_erasesize b - io_offset b a) len (of_nat r)) = min (2 ^ k - unat a mod 2 ^ k) (unat len - r)"
proof -
  have k: "k < 32" "mtd_erasesize b = 2 ^ k" using assms(1) by (simp_all add: block_geom_def)
  have "mtd_erasesize b = of_nat (2 ^ k)" using k by simp
  moreover have "(2 ^ k :: nat) < 2 ^ 32" using k(1) by (intro power_strict_increasing) simp_all
  ultimately have e: "unat (mtd_erasesize b) = 2 ^ k"
    using unat_of_nat_small [of "2 ^ k", where ?'a = 32] by simp
  have o: "unat (io_offset b a) = unat a mod 2 ^ k" by (rule unat_io_offset [OF assms(1)])
  have "unat a mod 2 ^ k < 2 ^ k" by simp
  then have "io_offset b a \<le> mtd_erasesize b" unfolding word_le_unat e o by simp
  then have s1: "unat (mtd_erasesize b - io_offset b a) = 2 ^ k - unat a mod 2 ^ k"
    by (simp add: unat_sub e o)
  have r: "unat (of_nat r :: u64) = r" using assms(2,3) by (intro unat_of_nat_small) simp
  then have "unat (len - of_nat r) = unat len - r"
    using assms(2) by (simp add: unat_sub word_le_unat)
  then have s2: "unat (ucast (len - of_nat r) :: u32) = unat len - r"
    using assms(3) by (subst unat_ucast_small) simp_all
  show ?thesis
    unfolding io_chunk_def using s1 s2 by (simp add: min_def word_le_unat)
qed

lemma io_advance_fields [simp]:
  "io_retlen (io_advance b cur st) = io_retlen st + oo_retlen cur"
  "io_oobretlen (io_advance b cur st) = io_oobretlen st + oo_oobretlen cur"
  "io_ooblen (io_advance b cur st) = oo_ooblen cur - oo_oobretlen cur"
  "oo_len cur \<noteq> 0 \<Longrightarrow> io_addr (io_advance b cur st) = io_addr st + oo_len cur"
  "io_ret (io_advance b cur st) = io_ret st"
  "io_maxbf (io_advance b cur st) = io_maxbf st"
  "io_retry (io_advance b cur st) = 0"
  by (simp_all add: io_advance_def Let_def)

section \<open>The erase request\<close>

lemma block_below:
  assumes "block_geom b k" "unat a < n * 2 ^ k" "n \<le> 2 ^ 16"
  shows "unat (shr64 a (blk_shift b)) < n" "unat (ucast (shr64 a (blk_shift b)) :: u16) < n"
proof -
  have "unat a div 2 ^ k < n" using assms(2) by (simp add: less_mult_imp_div_less)
  moreover have "unat (shr64 a (blk_shift b)) = unat a div 2 ^ k"
    using assms(1) unfolding shr64_def block_geom_def unat_drop_bit_eq by (simp only: drop_bit_eq_div)
  ultimately show s: "unat (shr64 a (blk_shift b)) < n" by simp
  show "unat (ucast (shr64 a (blk_shift b)) :: u16) < n"
    using s assms(3) by (subst unat_ucast_small) simp_all
qed

lemma area_small:
  assumes "k < 32" "n \<le> 2 ^ 16"
  shows "n * 2 ^ k \<le> (2 :: nat) ^ 47"
proof -
  have "(2 :: nat) ^ k \<le> 2 ^ 31" using assms(1) by (intro power_increasing) simp_all
  with assms(2) have "n * 2 ^ k \<le> 2 ^ 16 * 2 ^ 31" by (rule mult_le_mono)
  then show ?thesis by simp
qed

text \<open>
  The loop starts at the address less its offset in the block; \<open>erasesize_mask\<close> is a 32-bit field,
  so from 4 GiB on it starts further below. It stays inside the area either way.
\<close>

context bmt_remapper
begin

lemma erase_request:
  assumes geom: "block_geom b k"
    and addr: "unat addr + unat len \<le> n * 2 ^ k" "n \<le> 2 ^ 16"
    and blocks: "\<And>j. unat j < n \<Longrightarrow> blk_ok j" and "inv t"
  shows "\<exists>r fa t' d'. mtk_bmt_mtd_erase b ops uninit addr len t d = Some (r, fa, t', d') \<and> inv t'"
proof -
  have k: "k < 32" using geom by (simp add: block_geom_def)
  have lt: "unat addr + unat len \<le> 2 ^ 47" using addr(1) area_small [OF k addr(2)] by linarith
  then have fin: "unat (addr + len) = unat addr + unat len"
    by (simp add: unat_word_ariths)
  have es: "mtd_erasesize b \<noteq> 0" using geom by (simp add: block_geom_def)
  have bound: "unat (addr + len) + unat (mtd_erasesize b) < 2 ^ 64"
    using fin lt unat_less_2p [of "mtd_erasesize b"] by simp
  have "blk_ok (ucast (shr64 a (blk_shift b)))" if "a < addr + len" for a
    using that addr(1) fin by (intro blocks block_below(2) [OF geom _ addr(2)]) (simp add: word_less_unat)
  then show ?thesis
    using erase_loop_ok [OF es bound \<open>inv t\<close>, of 0] unfolding mtk_bmt_mtd_erase_def by fastforce
qed

end

section \<open>Requests on a device that may fail\<close>

text \<open>
  What the MTD core documents of a successful transfer: all the data bytes of the request have
  been moved, and of the OOB bytes as many as belong to the pages of the data, all of them when
  there is no data. A transfer may fail at any time, with any error.
\<close>

definition moved_all :: "mtd_oob_ops \<Rightarrow> mtd_oob_ops \<Rightarrow> bool" where
  "moved_all rq cur \<longleftrightarrow> oo_len cur = oo_len rq \<and> oo_retlen cur = oo_len rq \<and> oo_ooblen cur = oo_ooblen rq \<and>
     oo_oobretlen cur \<le> oo_ooblen rq \<and> (oo_len rq = 0 \<longrightarrow> oo_oobretlen cur = oo_ooblen rq)"

definition full_reads :: "'d bmt_desc \<Rightarrow> bool" where
  "full_reads b \<longleftrightarrow> (\<forall>d a rq. case lo_read_oob b d a rq of (ret, cur, d') \<Rightarrow>
     ret \<ge> 0 \<or> mtd_is_bitflip ret \<longrightarrow> moved_all rq cur)"

definition full_writes :: "'d bmt_desc \<Rightarrow> bool" where
  "full_writes b \<longleftrightarrow> (\<forall>d a rq. case lo_write_oob b d a rq of (ret, cur, d') \<Rightarrow> ret \<ge> 0 \<longrightarrow> moved_all rq cur)"

text \<open>
  A request for \<open>len\<close> bytes inside the first \<open>n\<close> blocks, and the state of its loop after \<open>r\<close> bytes
  when there is no OOB data.
\<close>

definition req_within :: "'d bmt_desc \<Rightarrow> nat \<Rightarrow> nat \<Rightarrow> u64 \<Rightarrow> u64 \<Rightarrow> bool" where
  "req_within b k n from len \<longleftrightarrow> block_geom b k \<and> n \<le> 2 ^ 16 \<and> unat from + unat len \<le> n * 2 ^ k \<and> unat len < 2 ^ 32"

definition io_at :: "u64 \<Rightarrow> nat \<Rightarrow> bmt_io \<Rightarrow> bool" where
  "io_at from r st \<longleftrightarrow> io_retlen st = of_nat r \<and> io_addr st = from + of_nat r \<and> io_oobretlen st = 0 \<and> io_ooblen st = 0"

lemma req_within_small:
  assumes "req_within b k n from len"
  shows "unat from + unat len < 2 ^ 64"
proof -
  have "k < 32" "n \<le> 2 ^ 16" "unat from + unat len \<le> n * 2 ^ k"
    using assms by (simp_all add: req_within_def block_geom_def)
  then have "unat from + unat len \<le> 2 ^ 47" using area_small order_trans by blast
  then show ?thesis by simp
qed

lemma io_block_below:
  assumes geom: "block_geom b k" and lt: "unat a < n * 2 ^ k" and n: "n \<le> 2 ^ 16"
  shows "unat (ucast (io_block b a) :: u16) < n"
    "sint (io_block b a) = uint (ucast (io_block b a) :: u16)"
    "(ucast (ucast (io_block b a) :: u16) :: u32) = io_block b a"
proof -
  note s = block_below(1) [OF assms]
  then have b: "unat (io_block b a) < n"
    unfolding io_block_def using n by (subst unat_ucast_small) simp_all
  then have c: "unat (ucast (io_block b a) :: u16) = unat (io_block b a)"
    using n by (subst unat_ucast_small) simp_all
  then show "unat (ucast (io_block b a) :: u16) < n" using b by simp
  show u: "(ucast (ucast (io_block b a) :: u16) :: u32) = io_block b a"
    by (simp add: word_unat_eq_iff c)
  have "unat (io_block b a) < 2 ^ 31" using b n by simp
  then have "int (unat (io_block b a)) < int (2 ^ 31)" by (simp only: of_nat_less_iff)
  then have "uint (io_block b a) < 2 ^ 31" by (simp only: uint_nat of_nat_power of_nat_numeral)
  then have "sint (io_block b a) = uint (io_block b a)" by (rule sint_small)
  then show "sint (io_block b a) = uint (ucast (io_block b a) :: u16)"
    by (simp only: uint_nat c)
qed

lemma unat_io_addr:
  assumes "req_within b k n from len" "r \<le> unat len"
  shows "unat (from + of_nat r) = unat from + r"
  using assms(2) req_within_small [OF assms(1)] by (simp add: unat_word_ariths unat_of_nat_small)

lemma io_block_within:
  assumes req: "req_within b k n from len" and r: "r < unat len"
  shows "unat (ucast (io_block b (from + of_nat r)) :: u16) < n"
    "sint (io_block b (from + of_nat r)) = uint (ucast (io_block b (from + of_nat r)) :: u16)"
    "(ucast (ucast (io_block b (from + of_nat r)) :: u16) :: u32) = io_block b (from + of_nat r)"
proof -
  have "unat (from + of_nat r) < n * 2 ^ k"
    using req r unat_io_addr [OF req, of r] by (simp add: req_within_def)
  moreover have "block_geom b k" "n \<le> 2 ^ 16" using req by (simp_all add: req_within_def)
  ultimately show "unat (ucast (io_block b (from + of_nat r)) :: u16) < n"
    "sint (io_block b (from + of_nat r)) = uint (ucast (io_block b (from + of_nat r)) :: u16)"
    "(ucast (ucast (io_block b (from + of_nat r)) :: u16) :: u32) = io_block b (from + of_nat r)"
    using io_block_below by blast+
qed

text \<open>The next chunk, up to the end of the block or of the request.\<close>

lemma io_chunk_within:
  assumes "req_within b k n from len" "r < unat len"
  obtains c where "0 < c" "r + c \<le> unat len"
    "io_chunk (mtd_erasesize b - io_offset b (from + of_nat r)) len (of_nat r) = of_nat c"
    "(of_nat c :: u64) \<noteq> 0"
proof -
  let ?a = "from + of_nat r"
  define c where "c = unat (io_chunk (mtd_erasesize b - io_offset b ?a) len (of_nat r))"
  have "c = min (2 ^ k - unat ?a mod 2 ^ k) (unat len - r)"
    unfolding c_def using assms by (intro unat_io_chunk) (simp_all add: req_within_def)
  moreover have "unat ?a mod 2 ^ k < 2 ^ k" by simp
  ultimately have "0 < c" "r + c \<le> unat len" using assms(2) by simp_all
  moreover have e: "io_chunk (mtd_erasesize b - io_offset b ?a) len (of_nat r) = of_nat c"
    unfolding c_def by simp
  moreover have "(of_nat c :: u64) \<noteq> 0"
    using \<open>0 < c\<close> unfolding c_def by (simp add: unat_gt_0)
  ultimately show thesis by (rule that)
qed

lemma io_at_advance:
  assumes "io_at from r st" "oo_len cur = of_nat c" "oo_retlen cur = of_nat c" "oo_ooblen cur = 0"
    "oo_oobretlen cur = 0" "(of_nat c :: u64) \<noteq> 0"
  shows "io_at from (r + c) ((io_advance b cur st)\<lparr>io_dat := x, io_oob := y\<rparr>)"
  using assms by (simp add: io_at_def add.assoc)

lemma io_at_upd [simp]:
  "io_at from r (st\<lparr>io_ret := x\<rparr>) = io_at from r st" "io_at from r (st\<lparr>io_maxbf := y\<rparr>) = io_at from r st"
  "io_at from r (st\<lparr>io_retry := z\<rparr>) = io_at from r st"
  by (simp_all add: io_at_def)


text \<open>
  A request with its OOB data: where data and OOB bytes are left to be moved, the block of the
  next byte is inside the area. When OOB bytes are left behind the data, the next transfer is at
  the address behind the data.
\<close>

definition oob_req_within :: "'d bmt_desc \<Rightarrow> nat \<Rightarrow> nat \<Rightarrow> u64 \<Rightarrow> mtd_oob_ops \<Rightarrow> bool" where
  "oob_req_within b k n from rq \<longleftrightarrow> req_within b k n from (oo_len rq) \<and>
     (0 < oo_ooblen rq \<longrightarrow> unat from + unat (oo_len rq) < n * 2 ^ k)"

text \<open>
  The state of a request loop with \<open>m\<close> steps left at most: one for each data byte and one for OOB
  bytes that the data transfers do not move.
\<close>

definition io_left :: "u64 \<Rightarrow> mtd_oob_ops \<Rightarrow> nat \<Rightarrow> bmt_io \<Rightarrow> bool" where
  "io_left from rq m st \<longleftrightarrow> (\<exists>r q. r \<le> unat (oo_len rq) \<and> q \<le> unat (oo_ooblen rq) \<and>
     m = (unat (oo_len rq) - r) + (if q < unat (oo_ooblen rq) then 1 else 0) \<and>
     io_retlen st = of_nat r \<and> io_oobretlen st = of_nat q \<and> io_ooblen st = of_nat (unat (oo_ooblen rq) - q) \<and>
     (0 < m \<longrightarrow> io_addr st = from + of_nat r))"

lemma io_left_upd [simp]:
  "io_left from rq m (st\<lparr>io_ret := x\<rparr>) = io_left from rq m st" "io_left from rq m (st\<lparr>io_maxbf := y\<rparr>) = io_left from rq m st"
  "io_left from rq m (st\<lparr>io_retry := z\<rparr>) = io_left from rq m st"
  by (simp_all add: io_left_def)

lemma unat_of_nat_le: "n \<le> unat (w :: u64) \<Longrightarrow> unat (of_nat n :: u64) = n"
  using unat_less_2p [of w] by (intro unat_of_nat_small) simp

lemma io_left_go:
  assumes "io_left from rq m st"
  shows "io_retlen st < oo_len rq \<or> io_oobretlen st < oo_ooblen rq \<longleftrightarrow> 0 < m"
proof -
  obtain r q where "r \<le> unat (oo_len rq)" "q \<le> unat (oo_ooblen rq)" "io_retlen st = of_nat r" "io_oobretlen st = of_nat q"
    "m = (unat (oo_len rq) - r) + (if q < unat (oo_ooblen rq) then 1 else 0)"
    using assms unfolding io_left_def by blast
  then show ?thesis
    by (simp add: word_less_unat unat_of_nat_le [of r "oo_len rq"] unat_of_nat_le [of q "oo_ooblen rq"])
qed

text \<open>The address of a round lies inside the area, and its chunk reaches to the end of the block or of the data.\<close>

lemma io_left_round:
  assumes req: "oob_req_within b k n from rq" and left: "io_left from rq m st" and m: "0 < m"
  shows "unat (ucast (io_block b (io_addr st)) :: u16) < n"
    "(ucast (ucast (io_block b (io_addr st)) :: u16) :: u32) = io_block b (io_addr st)"
    "\<And>cur x y. moved_all \<lparr>oo_len = io_chunk (mtd_erasesize b - io_offset b (io_addr st)) (oo_len rq) (io_retlen st), oo_retlen = rl,
        oo_ooblen = io_ooblen st, oo_oobretlen = orl, oo_ooboffs = oo, oo_datbuf = db, oo_oobbuf = ob\<rparr> cur \<Longrightarrow>
      \<exists>m' < m. io_left from rq m' ((io_advance b cur st)\<lparr>io_dat := x, io_oob := y\<rparr>)"
proof -
  let ?N = "unat (oo_len rq)" and ?O = "unat (oo_ooblen rq)"
  obtain r q where rq: "r \<le> ?N" "q \<le> ?O" "m = (?N - r) + (if q < ?O then 1 else 0)" "io_retlen st = of_nat r"
      "io_oobretlen st = of_nat q" "io_ooblen st = of_nat (?O - q)" "io_addr st = from + of_nat r"
    using left m unfolding io_left_def by blast
  have rw: "req_within b k n from (oo_len rq)" using req by (simp add: oob_req_within_def)
  have "unat from + r < n * 2 ^ k"
  proof (cases "r < ?N")
    case True
    then show ?thesis using rw by (simp add: req_within_def)
  next
    case False
    then have "r = ?N" "0 < ?O" using rq(1,3) m by (simp_all split: if_splits)
    then show ?thesis using req by (simp add: oob_req_within_def word_less_unat)
  qed
  then have a: "unat (io_addr st) < n * 2 ^ k" unfolding rq(7) unat_io_addr [OF rw rq(1)] .
  have g: "block_geom b k" "n \<le> 2 ^ 16" using rw by (simp_all add: req_within_def)
  show "unat (ucast (io_block b (io_addr st)) :: u16) < n"
    "(ucast (ucast (io_block b (io_addr st)) :: u16) :: u32) = io_block b (io_addr st)"
    using io_block_below [OF g(1) a g(2)] by simp_all
  fix cur :: mtd_oob_ops and x y
  let ?st = "(io_advance b cur st)\<lparr>io_dat := x, io_oob := y\<rparr>"
  assume "moved_all \<lparr>oo_len = io_chunk (mtd_erasesize b - io_offset b (io_addr st)) (oo_len rq) (io_retlen st), oo_retlen = rl,
        oo_ooblen = io_ooblen st, oo_oobretlen = orl, oo_ooboffs = oo, oo_datbuf = db, oo_oobbuf = ob\<rparr> cur"
  then have mv: "oo_len cur = io_chunk (mtd_erasesize b - io_offset b (io_addr st)) (oo_len rq) (of_nat r)" "oo_retlen cur = oo_len cur"
      "oo_ooblen cur = of_nat (?O - q)" "oo_oobretlen cur \<le> of_nat (?O - q)" "oo_len cur = 0 \<longrightarrow> oo_oobretlen cur = of_nat (?O - q)"
    by (auto simp: moved_all_def rq(4,6))
  define z where "z = unat (oo_oobretlen cur)"
  have z: "z \<le> ?O - q" "oo_oobretlen cur = of_nat z"
    using mv(4) unat_of_nat_le [of "?O - q" "oo_ooblen rq"] by (simp_all add: z_def word_le_unat)
  have oob: "io_oobretlen ?st = of_nat (q + z)" "io_ooblen ?st = of_nat (?O - (q + z))"
    using z rq(5) mv(3) by (simp_all flip: diff_diff_left add: of_nat_diff)
  show "\<exists>m' < m. io_left from rq m' ?st"
  proof (cases "r < ?N")
    case True
    obtain c where c: "0 < c" "r + c \<le> ?N" "oo_len cur = of_nat c" "(of_nat c :: u64) \<noteq> 0"
      by (rule io_chunk_within [OF rw True]) (simp add: mv(1) rq(7))
    define m' where "m' = (?N - (r + c)) + (if q + z < ?O then 1 else 0)"
    have "m' < m" using c(1,2) unfolding m'_def rq(3) by auto
    moreover have "io_left from rq m' ?st"
      unfolding io_left_def using c z(1) rq(2,4,7) oob mv(2)
      by (intro exI [of _ "r + c"] exI [of _ "q + z"]) (simp add: m'_def add.assoc)
    ultimately show ?thesis by blast
  next
    case False
    then have r: "r = ?N" "q < ?O" using rq(1,3) m by (simp_all split: if_splits)
    have "oo_len cur = 0" by (simp add: mv(1) r(1) io_chunk_def)
    then have "z = ?O - q" using mv(5) unat_of_nat_le [of "?O - q" "oo_ooblen rq"] by (simp add: z_def)
    then have "io_left from rq 0 ?st"
      unfolding io_left_def using rq(1,2,4) oob mv(2) \<open>oo_len cur = 0\<close> r
      by (intro exI [of _ r] exI [of _ ?O]) simp
    then show ?thesis using m by blast
  qed
qed

text \<open>
  One round of a request loop: a retry after a remap, the end with an error, or a chunk moved.
  A loop all of whose rounds are of this form ends: at most ten retries lie between two chunks.
\<close>

definition io_round ::
    "(bmt_io \<Rightarrow> 't \<Rightarrow> 'd \<Rightarrow> (int \<times> bmt_io \<times> 't \<times> 'd) option) \<Rightarrow> ('t \<Rightarrow> bool) \<Rightarrow> (nat \<Rightarrow> bmt_io \<Rightarrow> bool) \<Rightarrow> nat \<Rightarrow> bmt_io \<Rightarrow> 't \<Rightarrow> 'd \<Rightarrow> bool" where
  "io_round L I P m st t d \<longleftrightarrow>
     (\<exists>st' t' d'. L st t d = L st' t' d' \<and> P m st' \<and> io_retry st < 10 \<and> io_retry st' = io_retry st + 1 \<and> I t') \<or>
     (\<exists>ret st' t' d'. L st t d = Some (ret, st', t', d') \<and> ret < 0 \<and> P m st' \<and> I t') \<or>
     (\<exists>m' st' t' d'. L st t d = L st' t' d' \<and> m' < m \<and> P m' st' \<and> io_retry st' = 0 \<and> I t')"

lemma io_loop_ends:
  assumes last: "\<And>st t d. P 0 st \<Longrightarrow> I t \<Longrightarrow> \<exists>ret. L st t d = Some (ret, st, t, d)"
    and round: "\<And>m st t d. 0 < m \<Longrightarrow> P m st \<Longrightarrow> I t \<Longrightarrow> io_round L I P m st t d"
  shows "P m st \<Longrightarrow> 0 \<le> io_retry st \<Longrightarrow> io_retry st \<le> 10 \<Longrightarrow> I t \<Longrightarrow>
    \<exists>ret st' t' d' m'. L st t d = Some (ret, st', t', d') \<and> I t' \<and> P m' st' \<and> (0 < m' \<longrightarrow> ret < 0)"
proof (induction "m * 11 + nat (10 - io_retry st)" arbitrary: m st t d rule: less_induct)
  case less
  show ?case
  proof (cases "0 < m")
    case False
    with last [of st t d] less.prems show ?thesis by (auto intro!: exI [of _ "0 :: nat"])
  next
    case lt: True
    from round [OF lt less.prems(1,4), of d] consider
        (retry) st' t' d' where "L st t d = L st' t' d'" "P m st'" "io_retry st < 10"
          "io_retry st' = io_retry st + 1" "I t'"
      | (stop) ret st' t' d' where "L st t d = Some (ret, st', t', d')" "ret < 0" "P m st'" "I t'"
      | (moved) m' st' t' d' where "L st t d = L st' t' d'" "m' < m" "P m' st'" "io_retry st' = 0" "I t'"
      unfolding io_round_def by blast
    then show ?thesis
    proof cases
      case retry
      have "nat (10 - (io_retry st + 1)) < nat (10 - io_retry st)" using retry(3) by linarith
      then show ?thesis
        unfolding retry(1) using less.prems retry by (intro less.hyps) auto
    next
      case stop
      then show ?thesis by blast
    next
      case moved
      have "m' * 11 + nat (10 - io_retry st') < m * 11 + nat (10 - io_retry st)"
        using moved(2,4) less.prems(2,3) by linarith
      then show ?thesis
        unfolding moved(1) using moved by (intro less.hyps [of m']) auto
    qed
  qed
qed

context bmt_remapper
begin

lemma io_remap_keeps:
  assumes "oob_req_within b k n from rq" "io_left from rq m st" "0 < m" "\<And>j. unat j < n \<Longrightarrow> blk_ok j" "inv t"
    and "mtk_bmt_remap_block b ops (io_block b (io_addr st)) mb c t d = (ok, t', d')"
  shows "inv t'"
  using remap_keeps [OF assms(5), of "ucast (io_block b (io_addr st))" mb c d ok t' d'] assms(4,6)
    io_left_round(1,2) [OF assms(1-3)] by simp

text \<open>A round of the read loop. \<open>st1\<close> is the state after the error code or the bit flips are noted.\<close>

lemma read_round:
  assumes req: "oob_req_within b k n from rq" and dev: "full_reads b" and blocks: "\<And>j. unat j < n \<Longrightarrow> blk_ok j"
    and m: "0 < m" and at: "io_left from rq m st" and inv: "inv t"
  shows "io_round (mtk_bmt_read_loop b ops (oo_len rq) (oo_ooblen rq)) inv (io_left from rq) m st t d"
proof -
  let ?a = "io_addr st" and ?L = "mtk_bmt_read_loop b ops (oo_len rq) (oo_ooblen rq)"
  have go: "io_retlen st < oo_len rq \<or> io_oobretlen st < oo_ooblen rq" using io_left_go [OF at] m by simp
  define cb where "cb = get_mapping_block ops b (sint (io_block b ?a)) t"
  obtain cr cur d1 where rd: "lo_read_oob b d (phys_addr b cb (io_offset b ?a)) (rd_cur_ops b (oo_len rq) st) = (cr, cur, d1)"
    by (rule prod_cases3)
  obtain ok t2 d2 where rm: "mtk_bmt_remap_block b ops (io_block b ?a) (word_of_int cb) (sint (mtd_erasesize b)) t d1 = (ok, t2, d2)"
    by (rule prod_cases3)
  have i2: "inv t2" by (rule io_remap_keeps [OF req at m blocks inv rm])
  define st1 where "st1 = (if cr < 0 then st\<lparr>io_ret := cr\<rparr> else st\<lparr>io_maxbf := max (io_maxbf st) cr\<rparr>)"
  have st1: "io_left from rq m st1" "io_retry st1 = io_retry st" "cr < 0 \<Longrightarrow> rd_finish st1 < 0"
    "io_addr st1 = ?a" "io_retlen st1 = io_retlen st" "io_ooblen st1 = io_ooblen st"
    using at by (simp_all add: st1_def rd_finish_def)
  note unf = Let_def cb_def [symmetric] st1_def
  show ?thesis
  proof (cases "cb < 0")
    case True
    have "?L st t d = Some (- EIO, st, t, d)"
      using go True by (subst mtk_bmt_read_loop.simps) (auto simp: unf)
    then show ?thesis unfolding io_round_def using at inv by (intro disjI2 disjI1) auto
  next
    case cb: False
    show ?thesis
    proof (cases "cr < 0 \<and> \<not> mtd_is_bitflip cr")
      case fail: True
      show ?thesis
      proof (cases "ok \<and> io_retry st < 10")
        case True
        have "?L st t d = ?L (st1\<lparr>io_retry := io_retry st1 + 1\<rparr>) t2 d2"
          using go cb rd rm fail True st1(2) by (subst mtk_bmt_read_loop.simps) (simp add: unf)
        then show ?thesis
          unfolding io_round_def using True st1 i2 by (intro disjI1) (auto intro!: exI)
      next
        case False
        have "?L st t d = Some (rd_finish st1, st1, t2, d2)"
          using go cb rd rm fail False st1(2) by (subst mtk_bmt_read_loop.simps) (auto simp: unf)
        then show ?thesis
          unfolding io_round_def using fail st1 i2 by (intro disjI2 disjI1) auto
      qed
    next
      case good: False
      have "moved_all (rd_cur_ops b (oo_len rq) st) cur"
      proof -
        have "case lo_read_oob b d (phys_addr b cb (io_offset b ?a)) (rd_cur_ops b (oo_len rq) st) of (ret, cur, d') \<Rightarrow>
            ret \<ge> 0 \<or> mtd_is_bitflip ret \<longrightarrow> moved_all (rd_cur_ops b (oo_len rq) st) cur"
          by (rule dev [unfolded full_reads_def, THEN spec, THEN spec, THEN spec])
        then show ?thesis using good rd by (auto simp: not_less)
      qed
      then have mv: "moved_all (rd_cur_ops b (oo_len rq) st1) cur" by (simp add: rd_cur_ops_def st1_def)
      define st2 where "st2 = (io_advance b cur st1)\<lparr>io_dat := io_dat st1 @ take (unat (oo_retlen cur)) (oo_datbuf cur),
                                 io_oob := io_oob st1 @ take (unat (oo_oobretlen cur)) (oo_oobbuf cur)\<rparr>"
      obtain m' where st2: "m' < m" "io_left from rq m' st2" "io_retry st2 = 0"
        unfolding st2_def using io_left_round(3) [OF req st1(1) m mv [unfolded rd_cur_ops_def]] by auto
      have "\<exists>t3 d3. ?L st t d = ?L st2 t3 d3 \<and> inv t3"
        using go cb rd rm good i2 inv by (subst mtk_bmt_read_loop.simps) (auto simp: unf st2_def)
      then show ?thesis
        unfolding io_round_def using st2 by (intro disjI2) blast
    qed
  qed
qed

lemma read_request:
  assumes "oob_req_within b k n from rq" "full_reads b" "\<And>j. unat j < n \<Longrightarrow> blk_ok j" "inv t"
  shows "\<exists>ret st' t' d' m'. mtk_bmt_read b ops from rq t d = Some (ret, st', t', d') \<and> inv t' \<and>
    io_left from rq m' st' \<and> (0 < m' \<longrightarrow> ret < 0)"
proof -
  let ?m = "unat (oo_len rq) + (if 0 < unat (oo_ooblen rq) then 1 else 0)"
  have start: "io_left from rq ?m (rd_init from rq)"
    unfolding io_left_def by (intro exI [of _ "0 :: nat"]) (simp add: rd_init_def)
  have last: "\<exists>ret. mtk_bmt_read_loop b ops (oo_len rq) (oo_ooblen rq) st t d = Some (ret, st, t, d)"
    if "io_left from rq 0 st" for st t d
    using io_left_go [OF that] by (subst mtk_bmt_read_loop.simps) auto
  show ?thesis
    unfolding mtk_bmt_read_def
    by (rule io_loop_ends [OF last read_round [OF assms(1-3)] start]) (simp_all add: assms(4) rd_init_def)
qed

lemma write_round:
  assumes req: "oob_req_within b k n from rq" and dev: "full_writes b" and blocks: "\<And>j. unat j < n \<Longrightarrow> blk_ok j"
    and m: "0 < m" and at: "io_left from rq m st" and inv: "inv t"
  shows "io_round (mtk_bmt_write_loop b ops (oo_len rq) (oo_ooblen rq)) inv (io_left from rq) m st t d"
proof -
  let ?a = "io_addr st" and ?L = "mtk_bmt_write_loop b ops (oo_len rq) (oo_ooblen rq)"
  have go: "io_retlen st < oo_len rq \<or> io_oobretlen st < oo_ooblen rq" using io_left_go [OF at] m by simp
  define cb where "cb = get_mapping_block ops b (sint (io_block b ?a)) t"
  obtain cr cur d1 where wr: "lo_write_oob b d (phys_addr b cb (io_offset b ?a)) (wr_cur_ops b (oo_len rq) st) = (cr, cur, d1)"
    by (rule prod_cases3)
  obtain ok t2 d2 where rm: "mtk_bmt_remap_block b ops (io_block b ?a) (word_of_int cb) (sint (io_offset b ?a)) t d1 = (ok, t2, d2)"
    by (rule prod_cases3)
  have i2: "inv t2" by (rule io_remap_keeps [OF req at m blocks inv rm])
  have es: "blk_size b = mtd_erasesize b" using req by (simp add: oob_req_within_def req_within_def block_geom_def)
  note unf = Let_def cb_def [symmetric]
  show ?thesis
  proof (cases "cb < 0")
    case True
    have "?L st t d = Some (- EIO, st, t, d)"
      using go True by (subst mtk_bmt_write_loop.simps) (auto simp: unf)
    then show ?thesis unfolding io_round_def using at inv by (intro disjI2 disjI1) auto
  next
    case cb: False
    show ?thesis
    proof (cases "cr < 0")
      case fail: True
      show ?thesis
      proof (cases "ok \<and> io_retry st < 10")
        case True
        have "?L st t d = ?L (st\<lparr>io_retry := io_retry st + 1\<rparr>) t2 d2"
          using go cb wr rm fail True by (subst mtk_bmt_write_loop.simps) (simp add: unf)
        then show ?thesis
          unfolding io_round_def using True at i2 by (intro disjI1) (auto intro!: exI)
      next
        case False
        have "?L st t d = Some (cr, st, t2, d2)"
          using go cb wr rm fail False by (subst mtk_bmt_write_loop.simps) (auto simp: unf)
        then show ?thesis
          unfolding io_round_def using fail at i2 by (intro disjI2 disjI1) auto
      qed
    next
      case good: False
      have mv: "moved_all (wr_cur_ops b (oo_len rq) st) cur"
      proof -
        have "case lo_write_oob b d (phys_addr b cb (io_offset b ?a)) (wr_cur_ops b (oo_len rq) st) of (ret, cur, d') \<Rightarrow>
            ret \<ge> 0 \<longrightarrow> moved_all (wr_cur_ops b (oo_len rq) st) cur"
          by (rule dev [unfolded full_writes_def, THEN spec, THEN spec, THEN spec])
        then show ?thesis using good wr by auto
      qed
      define st2 where "st2 = (io_advance b cur st)\<lparr>io_dat := drop (unat (oo_retlen cur)) (io_dat st),
                                 io_oob := drop (unat (oo_oobretlen cur)) (io_oob st)\<rparr>"
      obtain m' where st2: "m' < m" "io_left from rq m' st2" "io_retry st2 = 0"
        unfolding st2_def using io_left_round(3) [OF req at m mv [unfolded wr_cur_ops_def es]] by auto
      have "?L st t d = ?L st2 t d1"
        using go cb wr good by (subst mtk_bmt_write_loop.simps) (simp add: unf st2_def)
      then show ?thesis
        unfolding io_round_def using st2 inv by (intro disjI2) blast
    qed
  qed
qed

lemma write_request:
  assumes "oob_req_within b k n to rq" "full_writes b" "\<And>j. unat j < n \<Longrightarrow> blk_ok j" "inv t"
  shows "\<exists>ret st' t' d' m'. mtk_bmt_write b ops to rq t d = Some (ret, st', t', d') \<and> inv t' \<and>
    io_left to rq m' st' \<and> (0 < m' \<longrightarrow> ret < 0)"
proof -
  let ?m = "unat (oo_len rq) + (if 0 < unat (oo_ooblen rq) then 1 else 0)"
  have start: "io_left to rq ?m (wr_init to rq)"
    unfolding io_left_def by (intro exI [of _ "0 :: nat"]) (simp add: wr_init_def)
  have last: "\<exists>ret. mtk_bmt_write_loop b ops (oo_len rq) (oo_ooblen rq) st t d = Some (ret, st, t, d)"
    if "io_left to rq 0 st" for st t d
    using io_left_go [OF that] by (subst mtk_bmt_write_loop.simps) auto
  show ?thesis
    unfolding mtk_bmt_write_def
    by (rule io_loop_ends [OF last write_round [OF assms(1-3)] start]) (simp_all add: assms(4) wr_init_def)
qed

end

section \<open>Sequences of requests\<close>

text \<open>
  The entry points as a state machine: a request, the value returned for it and the table and
  device after it. An erase carries the content that its local variable \<open>ret\<close> happens to have.
\<close>

datatype bmt_req =
    Req_read u64 mtd_oob_ops
  | Req_write u64 mtd_oob_ops
  | Req_erase int u64 u64
  | Req_isbad u64
  | Req_markbad u64

inductive bmt_step :: "'d bmt_desc \<Rightarrow> ('t, 'd) mtk_bmt_ops \<Rightarrow> 't \<times> 'd \<Rightarrow> bmt_req \<Rightarrow> int \<Rightarrow> 't \<times> 'd \<Rightarrow> bool"
  for b ops where
  do_read: "mtk_bmt_read b ops from rq t d = Some (ret, st, t', d') \<Longrightarrow>
    bmt_step b ops (t, d) (Req_read from rq) ret (t', d')"
| do_write: "mtk_bmt_write b ops to rq t d = Some (ret, st, t', d') \<Longrightarrow>
    bmt_step b ops (t, d) (Req_write to rq) ret (t', d')"
| do_erase: "mtk_bmt_mtd_erase b ops uninit addr len t d = Some (ret, fa, t', d') \<Longrightarrow>
    bmt_step b ops (t, d) (Req_erase uninit addr len) ret (t', d')"
| do_isbad: "mtk_bmt_block_isbad b ops ofs t d = (ret, t', d') \<Longrightarrow>
    bmt_step b ops (t, d) (Req_isbad ofs) ret (t', d')"
| do_markbad: "mtk_bmt_block_markbad b ops ofs t d = (ret, t', d') \<Longrightarrow>
    bmt_step b ops (t, d) (Req_markbad ofs) ret (t', d')"

inductive_cases bmt_step_cases:
  "bmt_step b ops s (Req_read from rq) ret s'" "bmt_step b ops s (Req_write to rq) ret s'"
  "bmt_step b ops s (Req_erase uninit addr len) ret s'" "bmt_step b ops s (Req_isbad ofs) ret s'"
  "bmt_step b ops s (Req_markbad ofs) ret s'"

text \<open>
  The requests considered: reads and writes of less than 4 GiB, with or without OOB data, and
  erases, which lie inside the first \<open>n\<close> blocks; a request with OOB data must not end with the
  last of them, since OOB bytes that its data transfers leave are moved at the address behind
  the data. An area of \<open>n\<close> blocks that is larger than the \<open>mtd->size\<close> seen by callers covers
  all of their requests that are smaller than 4 GiB.
\<close>

fun req_ok :: "'d bmt_desc \<Rightarrow> nat \<Rightarrow> nat \<Rightarrow> bmt_req \<Rightarrow> bool" where
  "req_ok b k n (Req_read from rq) = oob_req_within b k n from rq"
| "req_ok b k n (Req_write to rq) = oob_req_within b k n to rq"
| "req_ok b k n (Req_erase uninit addr len) = (unat addr + unat len \<le> n * 2 ^ k)"
| "req_ok b k n (Req_isbad ofs) = (unat ofs < n * 2 ^ k)"
| "req_ok b k n (Req_markbad ofs) = (unat ofs < n * 2 ^ k)"

inductive bmt_reach ::
    "'d bmt_desc \<Rightarrow> ('t, 'd) mtk_bmt_ops \<Rightarrow> (bmt_req \<Rightarrow> bool) \<Rightarrow> 't \<times> 'd \<Rightarrow> 't \<times> 'd \<Rightarrow> bool"
  for b ops ok s0 where
  start: "bmt_reach b ops ok s0 s0"
| request: "bmt_reach b ops ok s0 s \<Longrightarrow> ok req \<Longrightarrow> bmt_step b ops s req ret s' \<Longrightarrow> bmt_reach b ops ok s0 s'"

text \<open>A device of the geometry above that moves all the bytes of a transfer it reports as done.\<close>

definition nand_ok :: "'d bmt_desc \<Rightarrow> nat \<Rightarrow> bool" where
  "nand_ok b k \<longleftrightarrow> block_geom b k \<and> full_reads b \<and> full_writes b"

context bmt_remapper
begin

lemma step_exists_keeps:
  assumes dev: "nand_ok b k" and n: "n \<le> 2 ^ 16" "\<And>j. unat j < n \<Longrightarrow> blk_ok j"
    and "inv t" "req_ok b k n req"
  shows "(\<exists>ret s'. bmt_step b ops (t, d) req ret s') \<and> (\<forall>ret t' d'. bmt_step b ops (t, d) req ret (t', d') \<longrightarrow> inv t')"
proof -
  have geom: "block_geom b k" and full: "full_reads b" "full_writes b" using dev by (simp_all add: nand_ok_def)
  have blk: "blk_ok (ucast (shr64 a (blk_shift b)))" if a: "unat a < n * 2 ^ k" for a
    by (intro n(2) block_below(2) [OF geom a n(1)])
  show ?thesis
  proof (cases req)
    case (Req_read a rq)
    then have "oob_req_within b k n a rq" using assms(5) by simp
    from read_request [OF this full(1) n(2) \<open>inv t\<close>] obtain ret st' t' d'
      where "mtk_bmt_read b ops a rq t d = Some (ret, st', t', d')" "inv t'" by blast
    with Req_read show ?thesis by (auto intro: do_read elim!: bmt_step_cases)
  next
    case (Req_write a rq)
    then have "oob_req_within b k n a rq" using assms(5) by simp
    from write_request [OF this full(2) n(2) \<open>inv t\<close>] obtain ret st' t' d'
      where "mtk_bmt_write b ops a rq t d = Some (ret, st', t', d')" "inv t'" by blast
    with Req_write show ?thesis by (auto intro: do_write elim!: bmt_step_cases)
  next
    case (Req_erase u a l)
    then have "unat a + unat l \<le> n * 2 ^ k" using assms(5) by simp
    from erase_request [OF geom this n \<open>inv t\<close>] obtain ret fa t' d'
      where "mtk_bmt_mtd_erase b ops u a l t d = Some (ret, fa, t', d')" "inv t'" by blast
    with Req_erase show ?thesis by (auto intro: do_erase elim!: bmt_step_cases)
  next
    case (Req_isbad ofs)
    moreover obtain r t' d' where "mtk_bmt_block_isbad b ops ofs t d = (r, t', d')" by (rule prod_cases3)
    moreover note block_isbad_keeps [OF \<open>inv t\<close> blk]
    ultimately show ?thesis
      using assms(5) by (auto intro: do_isbad elim!: bmt_step_cases)
  next
    case (Req_markbad ofs)
    moreover obtain r t' d' where "mtk_bmt_block_markbad b ops ofs t d = (r, t', d')" by (rule prod_cases3)
    moreover note block_markbad_keeps [OF \<open>inv t\<close> blk]
    ultimately show ?thesis
      using assms(5) by (auto intro: do_markbad elim!: bmt_step_cases)
  qed
qed

lemma reachable_ok:
  assumes "nand_ok b k" "n \<le> 2 ^ 16" "\<And>j. unat j < n \<Longrightarrow> blk_ok j" "inv (fst s0)"
    and "bmt_reach b ops (req_ok b k n) s0 s"
  shows "inv (fst s)"
  using assms(5)
proof induction
  case start
  show ?case by (rule assms(4))
next
  case (request s req ret s')
  obtain t d t' d' where s: "s = (t, d)" "s' = (t', d')" by (cases s, cases s')
  have "inv t" using request.IH s(1) by simp
  then show ?case
    using step_exists_keeps [OF assms(1-3) _ request.hyps(2)] request.hyps(3) unfolding s by (simp only: fst_conv)
qed

end

section \<open>Translation through the data area\<close>

locale bmt_backend = bmt_remapper b ops inv blk_ok
  for b :: "'d bmt_desc" and ops :: "('t, 'd) mtk_bmt_ops" and inv and blk_ok +
  fixes lost :: "'t \<Rightarrow> bool" and data_ok :: "u16 \<Rightarrow> bool" and limit :: int
  assumes map_ok: "inv t \<Longrightarrow> \<not> lost t \<Longrightarrow> data_ok k \<Longrightarrow>
      0 \<le> get_mapping_block ops b (uint k) t \<and> get_mapping_block ops b (uint k) t < limit"
begin

lemma requests_safe:
  assumes "nand_ok b k" "n \<le> 2 ^ 16" "\<And>j. unat j < n \<Longrightarrow> blk_ok j" "inv t0"
    and "bmt_reach b ops (req_ok b k n) (t0, d0) (t, d)"
  shows "inv t \<and> (\<forall>j. \<not> lost t \<and> data_ok j \<longrightarrow>
      0 \<le> get_mapping_block ops b (uint j) t \<and> get_mapping_block ops b (uint j) t < limit) \<and>
    (\<forall>req. req_ok b k n req \<longrightarrow> (\<exists>ret s'. bmt_step b ops (t, d) req ret s'))"
proof -
  have "inv t" using reachable_ok [OF assms(1-3) _ assms(5)] assms(4) by simp
  with step_exists_keeps [OF assms(1-3)] map_ok show ?thesis by blast
qed

end

end
