(* ===== verification/Nand_Sim.thy ===== *)
theory Nand_Sim
  imports Nand_Lower
begin

text \<open>
  A NAND chip in memory, the concrete instance of the device parameter of \<open>bmt_desc\<close> on
  which theorems with hypotheses about a device are exercised. The chip is the list of its
  bytes, with one list of spare bytes per page left erased; an erase sets a block to 0xff,
  a program operation replaces the bytes, an access behind the end fails with \<open>-EIO\<close>.
\<close>

definition sim_overwrite :: "bytes \<Rightarrow> nat \<Rightarrow> bytes \<Rightarrow> bytes" where
  "sim_overwrite mem at dat = take at mem @ dat @ drop (at + length dat) mem"

definition sim_read :: "bytes \<Rightarrow> u64 \<Rightarrow> mtd_oob_ops \<Rightarrow> int \<times> mtd_oob_ops \<times> bytes" where
  "sim_read mem addr ops =
     (if unat addr + unat (oo_len ops) > length mem then (- EIO, ops, mem)
      else (0, ops\<lparr>oo_datbuf := take (unat (oo_len ops)) (drop (unat addr) mem),
                   oo_oobbuf := replicate (unat (oo_ooblen ops)) 0xff,
                   oo_retlen := oo_len ops, oo_oobretlen := oo_ooblen ops\<rparr>, mem))"

definition sim_write :: "bytes \<Rightarrow> u64 \<Rightarrow> mtd_oob_ops \<Rightarrow> int \<times> mtd_oob_ops \<times> bytes" where
  "sim_write mem addr ops =
     (if unat addr + unat (oo_len ops) > length mem then (- EIO, ops, mem)
      else (0, ops\<lparr>oo_retlen := oo_len ops, oo_oobretlen := oo_ooblen ops\<rparr>,
            sim_overwrite mem (unat addr) (take (unat (oo_len ops)) (oo_datbuf ops))))"

definition sim_erase :: "bytes \<Rightarrow> u64 \<Rightarrow> u64 \<Rightarrow> int \<times> bytes" where
  "sim_erase mem addr len =
     (if unat addr + unat len > length mem then (- EIO, mem)
      else (0, sim_overwrite mem (unat addr) (replicate (unat len) 0xff)))"

definition sim_isbad :: "bytes \<Rightarrow> u64 \<Rightarrow> int" where
  "sim_isbad mem addr = 0"

definition sim_markbad :: "bytes \<Rightarrow> u64 \<Rightarrow> int \<times> bytes" where
  "sim_markbad mem addr = (0, mem)"

text \<open>A chip of eight blocks of two pages of four bytes, with blocks 2 to 5 a remap range.\<close>

definition sim_desc :: "bytes bmt_desc" where
  "sim_desc =
     \<lparr>mtd_size = 64, mtd_erasesize = 8, mtd_erasesize_mask = 7, mtd_oobsize = 4,
      mtd_bitflip_threshold = 0, mtd_ecc_strength = 1, lo_read_oob = sim_read,
      lo_write_oob = sim_write, lo_erase = sim_erase, lo_block_isbad = sim_isbad,
      lo_block_markbad = sim_markbad, table_size = 8, pg_size = 4, blk_size = 8, pg_shift = 2,
      blk_shift = 3, pool_lba = 4, bb_max = 2, total_blks = 8, bmt_pgs = 1,
      remap_range = [(16, 48)], oob_offset = 0\<rparr>"

definition sim_chip :: bytes where
  "sim_chip = replicate 64 0xff"

lemma sim_desc_geometry [simp]:
  "blk_shift sim_desc = 3" "pg_shift sim_desc = 2" "total_blks sim_desc = 8" "pool_lba sim_desc = 4"
  by (simp_all add: sim_desc_def)

lemmas sim_defs = sim_overwrite_def sim_read_def sim_write_def sim_erase_def sim_isbad_def
  sim_markbad_def sim_desc_def sim_chip_def

end
