(* ===== verification/Bmt_Bbt.thy ===== *)
theory Bmt_Bbt
  imports Bmt_Io Nand_Sim "HOL-Library.Multiset"
begin

text \<open>
  The BBT back end (\<open>mtk_bmt_bbt.c\<close>): a bitmap of two bits per block, kept in RAM and in
  one of the last blocks of the chip. A logical block of a mapping range is the n-th good
  block of that range; blocks that no longer fit are mapped onto the bad ones.
\<close>

section \<open>The table and its bitmap\<close>

record bbt_table =
  bbt_buf :: bytes
  bbt_blk_idx :: u16

definition bbt_mask :: "u16 \<Rightarrow> u8" where
  "bbt_mask block = push_bit (unat (block mod 4) * 2) 3"

definition bbt_block_is_bad :: "bbt_table \<Rightarrow> u16 \<Rightarrow> bool" where
  "bbt_block_is_bad t block \<longleftrightarrow> rd8 (bbt_buf t) (unat (block div 4)) AND bbt_mask block \<noteq> 0"

definition bbt_put :: "bbt_table \<Rightarrow> u16 \<Rightarrow> bool \<Rightarrow> bbt_table" where
  "bbt_put t block bad =
     (let i = unat (block div 4); cur = rd8 (bbt_buf t) i; mask = bbt_mask block
      in t\<lparr>bbt_buf := (bbt_buf t)[i := (if bad then cur OR mask else cur AND NOT mask)]\<rparr>)"

definition bbt_sig :: bytes where
  "bbt_sig = [0x6d, 0x74, 0x6b, 0x6e, 0x61, 0x6e, 0x64]" \<comment> \<open>"mtknand"\<close>

definition bbt_store :: "'d bmt_desc \<Rightarrow> bbt_table \<Rightarrow> 'd \<Rightarrow> 'd" where
  "bbt_store b t d =
     (let (_, d1) = bbt_nand_erase b d (bbt_blk_idx t);
          (_, d2) = write_bmt b bbt_sig d1 (bbt_blk_idx t) (bbt_buf t)
      in d2)"

definition bbt_set_block_state ::
    "'d bmt_desc \<Rightarrow> u16 \<Rightarrow> bool \<Rightarrow> bbt_table \<Rightarrow> 'd \<Rightarrow> bbt_table \<times> 'd" where
  "bbt_set_block_state b block bad t d =
     (let t1 = bbt_put t block bad in (t1, bbt_store b t1 d))"

section \<open>Logical to physical\<close>

text \<open>
  \<open>bbt_low_loop\<close> is the first loop: it returns the index where it stops, the bad blocks
  counted and what is left of \<open>ofs\<close>. \<open>bbt_high_loop\<close> is the second: it walks down from
  \<open>i\<close> and stops when \<open>bad_blocks\<close> bad blocks have been seen, which the first loop counted
  in the same range, so at most \<open>n = end - start\<close> steps are taken.
\<close>

function bbt_low_loop :: "bbt_table \<Rightarrow> int \<Rightarrow> int \<Rightarrow> int \<Rightarrow> int \<Rightarrow> int \<times> int \<times> int" where
  "bbt_low_loop t i hi bad_blocks ofs =
     (if i < hi then
        (if bbt_block_is_bad t (word_of_int i) then bbt_low_loop t (i + 1) hi (bad_blocks + 1) ofs
         else if ofs \<noteq> 0 then bbt_low_loop t (i + 1) hi bad_blocks (ofs - 1)
         else (i, bad_blocks, ofs))
      else (i, bad_blocks, ofs))"
  by pat_completeness auto
termination
  by (relation "measure (\<lambda>(t, i, hi, bad_blocks, ofs). nat (hi - i))") auto

declare bbt_low_loop.simps [simp del]

fun bbt_high_loop :: "nat \<Rightarrow> bbt_table \<Rightarrow> int \<Rightarrow> int \<Rightarrow> int \<Rightarrow> int option" where
  "bbt_high_loop 0 t i bad_blocks ofs = None"
| "bbt_high_loop (Suc n) t i bad_blocks ofs =
     (if bad_blocks > 0 then
        (if \<not> bbt_block_is_bad t (word_of_int i) then bbt_high_loop n t (i - 1) bad_blocks ofs
         else if bad_blocks - 1 \<le> ofs then Some i
         else bbt_high_loop n t (i - 1) (bad_blocks - 1) ofs)
      else None)"

definition get_mapping_block_index_bbt :: "'d bmt_desc \<Rightarrow> int \<Rightarrow> bbt_table \<Rightarrow> int" where
  "get_mapping_block_index_bbt b block t =
     (case mapping_block_in_range b block of
        None \<Rightarrow> block
      | Some (start0, end0) \<Rightarrow>
          let start = drop_bit (unat (blk_shift b)) start0;
              hi = drop_bit (unat (blk_shift b)) end0;
              (i, bad_blocks, ofs) = bbt_low_loop t start hi 0 (block - start)
          in if i < hi then i
             else (case bbt_high_loop (nat (hi - start)) t (hi - 1) bad_blocks ofs of
                     Some j \<Rightarrow> j | None \<Rightarrow> block))"

definition remap_block_bbt ::
    "'d bmt_desc \<Rightarrow> u16 \<Rightarrow> u16 \<Rightarrow> int \<Rightarrow> bbt_table \<Rightarrow> 'd \<Rightarrow> bool \<times> bbt_table \<times> 'd" where
  "remap_block_bbt b block mapped_blk copy_len t d =
     (case mapping_block_in_range b (uint block) of
        None \<Rightarrow> (False, t, d)
      | Some _ \<Rightarrow>
          let (t1, d1) = bbt_set_block_state b mapped_blk True t d;
              new_blk = (word_of_int (get_mapping_block_index_bbt b (uint block) t1) :: u16);
              (_, d2) = bbt_nand_erase b d1 new_blk;
              d3 = (if copy_len > 0 then snd (bbt_nand_copy b d2 new_blk mapped_blk copy_len) else d2)
          in (True, t1, d3))"

definition unmap_block_bbt :: "'d bmt_desc \<Rightarrow> u16 \<Rightarrow> bbt_table \<Rightarrow> 'd \<Rightarrow> bbt_table \<times> 'd" where
  "unmap_block_bbt b block t d = bbt_set_block_state b block False t d"

section \<open>Attach and debugfs\<close>

text \<open>
  The scan of the last five blocks, \<open>i\<close> running down: a read overwrites the head of
  \<open>bbt_buf\<close> whether or not the block is then accepted. \<open>n\<close> counts the blocks left.
\<close>

definition buf_overwrite :: "bytes \<Rightarrow> bytes \<Rightarrow> bytes" where
  "buf_overwrite dat buf = take (length buf) dat @ drop (length dat) buf"

fun mtk_bmt_read_bbt ::
    "nat \<Rightarrow> 'd bmt_desc \<Rightarrow> int \<Rightarrow> bbt_table \<Rightarrow> 'd \<Rightarrow> int \<times> bbt_table \<times> 'd" where
  "mtk_bmt_read_bbt 0 b i t d = (- EIO, t, d)"
| "mtk_bmt_read_bbt (Suc n) b i t d =
     (let page = push_bit (unat (blk_shift b) - unat (pg_shift b)) (word_of_int i :: u32);
          (ret, dat, oob, d1) = bbt_nand_read b d page (ucast (pg_size b)) 8;
          t1 = t\<lparr>bbt_buf := buf_overwrite dat (bbt_buf t)\<rparr>
      in if ret \<noteq> 0 then mtk_bmt_read_bbt n b (i - 1) t1 d1
         else if rd8 oob 0 \<noteq> 0xff then mtk_bmt_read_bbt n b (i - 1) t1 d1
         else if take 7 (drop 1 oob) \<noteq> bbt_sig then mtk_bmt_read_bbt n b (i - 1) t1 d1
         else (0, t1\<lparr>bbt_blk_idx := word_of_int i\<rparr>, d1))"

definition round_up32 :: "u32 \<Rightarrow> u32 \<Rightarrow> u32" where
  "round_up32 x y = ((x - 1) OR (y - 1)) + 1"

definition mtk_bmt_init_bbt ::
    "'d bmt_desc \<Rightarrow> bool \<Rightarrow> bbt_table \<Rightarrow> 'd \<Rightarrow> int \<times> 'd bmt_desc \<times> bbt_table \<times> 'd" where
  "mtk_bmt_init_bbt b kmalloc_ok t d =
     (let buf_size = round_up32 (ucast (drop_bit 2 (total_blks b))) (blk_size b)
      in if \<not> kmalloc_ok then (- ENOMEM, b, t, d)
         else
           let b1 = b\<lparr>mtd_size := mtd_size b - ucast (4 * mtd_erasesize b)\<rparr>;
               (ret, t1, d1) = mtk_bmt_read_bbt 5 b1 (uint (total_blks b) - 1)
                                 (t\<lparr>bbt_buf := replicate (unat buf_size) 0xff\<rparr>) d
           in if ret \<noteq> 0 then (ret, b1, t1, d1)
              else (0, b1\<lparr>bmt_pgs := buf_size div pg_size b\<rparr>, t1, d1))"

definition mtk_bmt_debug_bbt ::
    "'d bmt_desc \<Rightarrow> u64 \<Rightarrow> bbt_table \<Rightarrow> 'd \<Rightarrow> int \<times> bbt_table \<times> 'd" where
  "mtk_bmt_debug_bbt b val t d =
     (if val = 100 then
        (let t1 = t\<lparr>bbt_blk_idx := total_blks b - 1\<rparr> in (0, t1, bbt_store b t1 d))
      else (0, t, d))"

definition mtk_bmt_bbt_ops :: "(bbt_table, 'd) mtk_bmt_ops" where
  "mtk_bmt_bbt_ops =
     \<lparr>remap_block = remap_block_bbt, unmap_block = unmap_block_bbt,
      get_mapping_block = get_mapping_block_index_bbt\<rparr>"

section \<open>The bitmap as a table of flags\<close>

lemma unat_div4 [simp]: "unat ((k :: u16) div 4) = unat k div 4"
  by (simp add: unat_div)

lemma unat_mod4 [simp]: "unat ((k :: u16) mod 4) = unat k mod 4"
  by (simp add: unat_mod)

lemma bit_bbt_mask: "bit (bbt_mask k) n \<longleftrightarrow> n div 2 = unat k mod 4"
proof -
  have "unat k mod 4 < 4" by simp
  then have "unat k mod 4 * 2 \<le> n \<and> n < 8 \<and> n - unat k mod 4 * 2 < 2 \<longleftrightarrow> n div 2 = unat k mod 4"
    by linarith
  then show ?thesis
    by (auto simp: bbt_mask_def bit_push_bit_iff)
qed

lemma bbt_mask_bits_exist: "\<exists>n. bit (bbt_mask k) n"
  by (rule exI [of _ "2 * (unat k mod 4)"]) (simp add: bit_bbt_mask)

lemma same_slot_eq: "unat (i :: u16) div 4 = unat j div 4 \<Longrightarrow> unat i mod 4 = unat j mod 4 \<Longrightarrow> i = j"
  by (metis mod_div_mult_eq word_unat_eq_iff)

lemma mask_update:
  "((if bad then cur OR bbt_mask i else cur AND NOT (bbt_mask i)) AND bbt_mask j \<noteq> 0) =
     (if unat i mod 4 = unat j mod 4 then bad else cur AND bbt_mask j \<noteq> 0)"
proof (cases "unat i mod 4 = unat j mod 4")
  case True
  then have "bbt_mask i = bbt_mask j"
    by (simp add: bbt_mask_def)
  then show ?thesis
    using True bbt_mask_bits_exist [of j]
    by (auto simp: word_and_neq_0_iff bit_or_iff bit_and_iff bit_not_iff)
next
  case False
  then show ?thesis
    by (auto simp: word_and_neq_0_iff bit_or_iff bit_and_iff bit_not_iff bit_bbt_mask
        dest: bit_imp_le_length)
qed

lemma bbt_is_bad_put:
  assumes "unat i div 4 < length (bbt_buf t)"
  shows "bbt_block_is_bad (bbt_put t i bad) j = (if j = i then bad else bbt_block_is_bad t j)"
proof (cases "unat i div 4 = unat j div 4")
  case True
  with assms have "bbt_block_is_bad (bbt_put t i bad) j =
      (if unat i mod 4 = unat j mod 4 then bad else bbt_block_is_bad t j)"
    by (simp add: bbt_block_is_bad_def bbt_put_def Let_def rd8_def mask_update)
  with True show ?thesis
    using same_slot_eq [of i j] by auto
next
  case False
  then show ?thesis
    by (auto simp: bbt_block_is_bad_def bbt_put_def rd8_def Let_def)
qed

lemma bbt_put_length [simp]: "length (bbt_buf (bbt_put t i bad)) = length (bbt_buf t)"
  by (simp add: bbt_put_def Let_def)

interpretation bst: state_table bbt_block_is_bad bbt_put "\<lambda>t i. unat i div 4 < length (bbt_buf t)" "\<lambda>_. True"
  by unfold_locales (simp_all add: bbt_is_bad_put)

section \<open>The mapping is the reordering good blocks first, bad blocks last\<close>

definition bad_at :: "bbt_table \<Rightarrow> int \<Rightarrow> bool" where
  "bad_at t i = bbt_block_is_bad t (word_of_int i)"

definition bbt_order :: "bbt_table \<Rightarrow> int \<Rightarrow> int \<Rightarrow> int list" where
  "bbt_order t lo hi = filter (\<lambda>i. \<not> bad_at t i) [lo..hi - 1] @ filter (bad_at t) [lo..hi - 1]"

lemma upto_less: "i < hi \<Longrightarrow> [i..hi - 1] = i # [i + 1..hi - 1]"
  by (rule upto_rec1) simp

lemma bbt_low_loop_good:
  assumes "0 \<le> ofs" "nat ofs < length (filter (\<lambda>i. \<not> bad_at t i) [i..hi - 1])"
  shows "\<exists>n. bbt_low_loop t i hi bad ofs =
           (filter (\<lambda>i. \<not> bad_at t i) [i..hi - 1] ! nat ofs, n, 0)"
  using assms
proof (induction t i hi bad ofs rule: bbt_low_loop.induct)
  case (1 t i hi bad ofs)
  show ?case
  proof (cases "i < hi")
    case False
    with "1.prems" show ?thesis by simp
  next
    case True
    then show ?thesis
      using "1.IH" "1.prems"
      by (subst bbt_low_loop.simps)
        (auto simp: upto_less nth_Cons' nat_diff_distrib simp flip: bad_at_def split: if_splits)
  qed
qed

lemma bbt_low_loop_past:
  assumes "0 \<le> ofs" "length (filter (\<lambda>i. \<not> bad_at t i) [i..hi - 1]) \<le> nat ofs" "i \<le> hi"
  shows "bbt_low_loop t i hi bad ofs =
           (hi, bad + int (length (filter (bad_at t) [i..hi - 1])),
            ofs - int (length (filter (\<lambda>i. \<not> bad_at t i) [i..hi - 1])))"
  using assms
proof (induction t i hi bad ofs rule: bbt_low_loop.induct)
  case (1 t i hi bad ofs)
  show ?case
  proof (cases "i < hi")
    case False
    with "1.prems" show ?thesis
      by (subst bbt_low_loop.simps) simp
  next
    case True
    then show ?thesis
      using "1.IH" "1.prems"
      by (subst bbt_low_loop.simps) (auto simp: upto_less nat_diff_distrib simp flip: bad_at_def split: if_splits)
  qed
qed

lemma bbt_high_loop_bad:
  assumes "nat (i - lo + 1) \<le> n" "lo \<le> i + 1"
    and "0 \<le> ofs" "nat ofs < length (filter (bad_at t) [lo..i])"
  shows "bbt_high_loop n t i (int (length (filter (bad_at t) [lo..i]))) ofs
           = Some (filter (bad_at t) [lo..i] ! nat ofs)"
  using assms
proof (induction n arbitrary: i)
  case 0
  then show ?case by simp
next
  case (Suc n)
  then have "lo \<le> i" by (cases "lo \<le> i") auto
  then have up: "[lo..i] = [lo..i - 1] @ [i]"
    by (rule upto_rec2)
  have "bad_at t i \<Longrightarrow> nat ofs \<noteq> length (filter (bad_at t) [lo..i - 1])
      \<Longrightarrow> nat ofs < length (filter (bad_at t) [lo..i - 1])"
    using Suc.prems up by simp
  then show ?case
    using Suc up \<open>lo \<le> i\<close>
    by (cases "bad_at t i"; cases "nat ofs = length (filter (bad_at t) [lo..i - 1])")
      (auto simp: bad_at_def nth_append)
qed

lemma get_mapping_bbt_eq:
  assumes range: "mapping_block_in_range b block = Some (start0, end0)"
    and lo: "drop_bit (unat (blk_shift b)) start0 = lo" and hi: "drop_bit (unat (blk_shift b)) end0 = hi"
    and block: "lo \<le> block" "block < hi"
  shows "get_mapping_block_index_bbt b block t = bbt_order t lo hi ! nat (block - lo)"
proof -
  define good where "good = filter (\<lambda>i. \<not> bad_at t i) [lo..hi - 1]"
  define bad where "bad = filter (bad_at t) [lo..hi - 1]"
  have order: "bbt_order t lo hi = good @ bad"
    by (simp add: bbt_order_def good_def bad_def)
  have total: "int (length good) + int (length bad) = hi - lo"
    using sum_length_filter_compl [of "bad_at t" "[lo..hi - 1]"] block
    by (simp add: good_def bad_def)
  have unfold: "get_mapping_block_index_bbt b block t =
      (case bbt_low_loop t lo hi 0 (block - lo) of (i, bad_blocks, ofs) \<Rightarrow>
         if i < hi then i
         else (case bbt_high_loop (nat (hi - lo)) t (hi - 1) bad_blocks ofs of Some j \<Rightarrow> j | None \<Rightarrow> block))"
    by (simp only: get_mapping_block_index_bbt_def range lo hi Let_def option.case prod.case)
  show ?thesis
  proof (cases "nat (block - lo) < length good")
    case True
    obtain n where low: "bbt_low_loop t lo hi 0 (block - lo) = (good ! nat (block - lo), n, 0)"
      using bbt_low_loop_good [of "block - lo" t lo hi 0] True block by (auto simp: good_def)
    from True have "good ! nat (block - lo) \<in> set good" by simp
    then have "good ! nat (block - lo) < hi" by (auto simp: good_def)
    with True show ?thesis by (simp add: unfold low order nth_append)
  next
    case False
    with block have ofs: "0 \<le> block - lo - int (length good)" by simp
    from total block ofs have ofs': "nat (block - lo - int (length good)) < length bad" by linarith
    from False block have low:
      "bbt_low_loop t lo hi 0 (block - lo) = (hi, int (length bad), block - lo - int (length good))"
      using bbt_low_loop_past [of "block - lo" t lo hi 0] by (simp add: good_def bad_def)
    have high: "bbt_high_loop (nat (hi - lo)) t (hi - 1) (int (length bad)) (block - lo - int (length good))
        = Some (bad ! nat (block - lo - int (length good)))"
      unfolding bad_def
      by (rule bbt_high_loop_bad) (use block ofs ofs' in \<open>auto simp: bad_def\<close>)
    have "nat (block - lo - int (length good)) = nat (block - lo) - length good" by simp
    with False show ?thesis by (simp add: unfold low high order nth_append)
  qed
qed

lemma mset_bbt_order: "mset (bbt_order t lo hi) = mset [lo..hi - 1]"
  by (simp add: bbt_order_def add.commute)

lemma distinct_bbt_order: "distinct (bbt_order t lo hi)"
  using mset_bbt_order [of t lo hi] by (metis distinct_upto mset_eq_imp_distinct_iff)

lemma set_bbt_order: "set (bbt_order t lo hi) = {lo..<hi}"
  by (auto simp: bbt_order_def)

lemma length_bbt_order: "length (bbt_order t lo hi) = nat (hi - lo)"
  using arg_cong [OF mset_bbt_order [of t lo hi], of size] by simp

text \<open>
  A usable entry of the \<open>mediatek,bmt-remap-range\<close> property: block aligned, below 2 GiB and
  not overlapped by an earlier entry. Every block of it finds that entry.
\<close>

definition range_ok :: "'d bmt_desc \<Rightarrow> u32 \<Rightarrow> u32 \<Rightarrow> bool" where
  "range_ok b lo hi \<longleftrightarrow>
     (\<exists>pre post. remap_range b = pre @ (lo, hi) # post \<and>
        (\<forall>r \<in> set pre. snd r \<le> lo \<or> hi \<le> fst r)) \<and>
     unat (blk_shift b) < 32 \<and> uint hi < 2 ^ 31 \<and>
     2 ^ unat (blk_shift b) dvd uint lo \<and> 2 ^ unat (blk_shift b) dvd uint hi"

abbreviation first_blk :: "'d bmt_desc \<Rightarrow> u32 \<Rightarrow> int" where
  "first_blk b addr \<equiv> uint addr div 2 ^ unat (blk_shift b)"

lemma range_search_hit:
  assumes "\<forall>r \<in> set pre. snd r \<le> lo \<or> hi \<le> fst r" "lo \<le> addr" "addr < hi"
  shows "range_search addr (pre @ (lo, hi) # post) = Some (sint lo, sint hi)"
  using assms by (induction pre) auto

lemma block_in_range:
  assumes "range_ok b lo hi" "first_blk b lo \<le> k" "k < first_blk b hi"
  shows "mapping_block_in_range b k = Some (uint lo, uint hi)"
proof -
  define s where "s = unat (blk_shift b)"
  have ok: "uint hi < 2 ^ 31" "2 ^ s dvd uint lo" "2 ^ s dvd uint hi"
    using assms(1) by (simp_all add: range_ok_def s_def)
  obtain pre post where rr: "remap_range b = pre @ (lo, hi) # post"
      and pre: "\<forall>r \<in> set pre. snd r \<le> lo \<or> hi \<le> fst r"
    using assms(1) by (auto simp: range_ok_def)
  have k: "0 \<le> k" "uint lo \<le> k * 2 ^ s" "k * 2 ^ s < uint hi"
  proof -
    have "0 \<le> uint lo div 2 ^ s" by (simp add: pos_imp_zdiv_nonneg_iff)
    with assms show "0 \<le> k" unfolding s_def by linarith
    have "uint lo = uint lo div 2 ^ s * 2 ^ s" "uint hi = uint hi div 2 ^ s * 2 ^ s"
      using ok by (metis dvd_div_mult_self)+
    with assms show "uint lo \<le> k * 2 ^ s" "k * 2 ^ s < uint hi"
      unfolding s_def by (metis mult_le_cancel_right_pos mult_less_cancel_right_pos zero_less_numeral zero_less_power)+
  qed
  have "uint (push_bit s (word_of_int k :: u32)) = k * 2 ^ s"
  proof -
    have "push_bit s (word_of_int k :: u32) = word_of_int (k * 2 ^ s)"
      by (simp add: push_bit_eq_mult)
    moreover have "k * 2 ^ s mod 2 ^ LENGTH(32) = k * 2 ^ s"
      using k ok by (intro mod_pos_pos_trivial) auto
    ultimately show ?thesis
      by (simp only: uint_word_of_int)
  qed
  with k have "lo \<le> push_bit s (word_of_int k)" "push_bit s (word_of_int k) < hi"
    by (simp_all add: word_le_def word_less_def)
  then have "range_search (push_bit s (word_of_int k)) (remap_range b) = Some (sint lo, sint hi)"
    unfolding rr by (rule range_search_hit [OF pre])
  moreover have "sint lo = uint lo" "sint hi = uint hi"
    using ok k by (simp_all add: sint_small)
  ultimately show ?thesis
    by (simp add: mapping_block_in_range_def s_def rr)
qed

lemma drop_bit_uint: "drop_bit n (uint w) = uint w div 2 ^ n"
  by (simp add: drop_bit_eq_div)

lemma nth_bij_upto:
  assumes "distinct xs" "set xs = {lo..<hi}" "length xs = nat (hi - lo)"
  shows "bij_betw (\<lambda>k. xs ! nat (k - lo)) {lo..<hi} {lo..<hi :: int}"
proof -
  have "bij_betw (\<lambda>k. nat (k - lo)) {lo..<hi} {..<length xs}"
    by (rule bij_betw_byWitness [where f' = "\<lambda>n. int n + lo"]) (auto simp: assms(3))
  moreover have "bij_betw ((!) xs) {..<length xs} {lo..<hi}"
    using assms bij_betw_nth by blast
  ultimately have "bij_betw ((!) xs \<circ> (\<lambda>k. nat (k - lo))) {lo..<hi} {lo..<hi}"
    by (rule bij_betw_trans)
  then show ?thesis
    by (simp only: comp_def)
qed

lemma get_mapping_bbt_order:
  assumes "range_ok b lo hi" "first_blk b lo \<le> k" "k < first_blk b hi"
  shows "get_mapping_block_index_bbt b k t =
           bbt_order t (first_blk b lo) (first_blk b hi) ! nat (k - first_blk b lo)"
  using block_in_range [OF assms] assms(2,3)
  by (intro get_mapping_bbt_eq [OF _ drop_bit_uint drop_bit_uint])

text \<open>
  The driver's view of the back end: the bitmap covers the chip and never forgets a bad block.
  A block may be asked for when the range it is looked up in, if there is one, lies on the chip;
  without a \<open>remap_range\<close> property that is every block of the chip.
\<close>

definition bbt_covers :: "'d bmt_desc \<Rightarrow> bbt_table \<Rightarrow> bool" where
  "bbt_covers b t \<longleftrightarrow> unat (total_blks b) \<le> 4 * length (bbt_buf t)"

definition bbt_grows :: "'d bmt_desc \<Rightarrow> bbt_table \<Rightarrow> bbt_table \<Rightarrow> bool" where
  "bbt_grows b t0 t \<longleftrightarrow> bbt_covers b t \<and> (\<forall>i. bbt_block_is_bad t0 i \<longrightarrow> bbt_block_is_bad t i)"

definition bbt_blk_ok :: "'d bmt_desc \<Rightarrow> u16 \<Rightarrow> bool" where
  "bbt_blk_ok b k \<longleftrightarrow> k < total_blks b \<and>
     (case mapping_block_in_range b (uint k) of
        None \<Rightarrow> True
      | Some (lo, hi) \<Rightarrow> 0 \<le> lo \<and> drop_bit (unat (blk_shift b)) hi \<le> uint (total_blks b))"

lemma bbt_low_loop_ge: "bbt_low_loop t i hi bb ofs = (j, bb', ofs') \<Longrightarrow> i \<le> j"
proof (induction t i hi bb ofs rule: bbt_low_loop.induct)
  case (1 t i hi bb ofs)
  then show ?case
    by (subst (asm) (3) bbt_low_loop.simps) (fastforce split: if_splits)
qed

lemma bbt_high_loop_within: "bbt_high_loop n t i bb ofs = Some j \<Longrightarrow> i - int n < j \<and> j \<le> i"
proof (induction n arbitrary: i bb)
  case (Suc n)
  then show ?case by (fastforce split: if_splits)
qed simp

text \<open>Whatever the bitmap holds, a block stays where it is or goes to a block of its range.\<close>

lemma get_mapping_bbt_bound:
  assumes "bbt_blk_ok b k"
  shows "0 \<le> get_mapping_block_index_bbt b (uint k) t" "get_mapping_block_index_bbt b (uint k) t < uint (total_blks b)"
proof -
  let ?m = "get_mapping_block_index_bbt b (uint k) t"
  have k: "uint k < uint (total_blks b)" using assms by (simp add: bbt_blk_ok_def word_less_def)
  have "0 \<le> ?m \<and> ?m < uint (total_blks b)"
  proof (cases "mapping_block_in_range b (uint k)")
    case None
    with k show ?thesis by (simp add: get_mapping_block_index_bbt_def)
  next
    case (Some r)
    obtain start0 end0 where r: "r = (start0, end0)" by fastforce
    define start hi where "start = drop_bit (unat (blk_shift b)) start0" and "hi = drop_bit (unat (blk_shift b)) end0"
    have rg: "0 \<le> start" "hi \<le> uint (total_blks b)"
      using assms Some unfolding r bbt_blk_ok_def start_def hi_def by simp_all
    obtain i bb ofs where low: "bbt_low_loop t start hi 0 (uint k - start) = (i, bb, ofs)" by (rule prod_cases3)
    have m: "?m = (if i < hi then i else (case bbt_high_loop (nat (hi - start)) t (hi - 1) bb ofs of Some j \<Rightarrow> j | None \<Rightarrow> uint k))"
      using Some low unfolding r start_def hi_def by (simp add: get_mapping_block_index_bbt_def Let_def)
    show ?thesis
    proof (cases "i < hi")
      case True
      then show ?thesis using m bbt_low_loop_ge [OF low] rg by simp
    next
      case False
      show ?thesis
      proof (cases "bbt_high_loop (nat (hi - start)) t (hi - 1) bb ofs")
        case None
        then show ?thesis using m False k by simp
      next
        case (Some j)
        then have "hi - 1 - int (nat (hi - start)) < j" "j \<le> hi - 1" using bbt_high_loop_within by blast+
        moreover have "start < hi" using Some by (cases "hi \<le> start") simp_all
        ultimately show ?thesis using m False Some rg by simp
      qed
    qed
  qed
  then show "0 \<le> ?m" "?m < uint (total_blks b)" by simp_all
qed

lemma bbt_put_grows: "bbt_block_is_bad t i \<Longrightarrow> bbt_block_is_bad (bbt_put t k True) i"
proof (cases "unat k div 4 < length (bbt_buf t)")
  case True
  then show "bbt_block_is_bad t i \<Longrightarrow> ?thesis" by (simp add: bbt_is_bad_put)
next
  case False
  then show "bbt_block_is_bad t i \<Longrightarrow> ?thesis" by (simp add: bbt_put_def Let_def list_update_beyond)
qed

lemma remap_block_bbt_grows:
  assumes "bbt_grows b t0 t" "remap_block_bbt b k mapped copy_len t d = (ok, t', d')"
  shows "bbt_grows b t0 t'"
proof -
  have "t' = t \<or> t' = bbt_put t mapped True"
    using assms(2) by (auto simp: remap_block_bbt_def bbt_set_block_state_def Let_def split: option.splits prod.splits)
  with assms(1) bbt_put_grows show ?thesis by (auto simp: bbt_grows_def bbt_covers_def)
qed

interpretation bb: bmt_backend b mtk_bmt_bbt_ops "bbt_grows b t0" "bbt_blk_ok b" "\<lambda>_. False" "bbt_blk_ok b" "uint (total_blks b)"
  for b :: "'d bmt_desc" and t0
  by unfold_locales
    (simp_all only: mtk_bmt_bbt_ops_def mtk_bmt_ops.select_convs get_mapping_bbt_bound simp_thms remap_block_bbt_grows)

definition sim_bbt :: bbt_table where
  "sim_bbt = \<lparr>bbt_buf = [0, 0x03], bbt_blk_idx = 7\<rparr>"

lemma sim_range_ok: "range_ok sim_desc 16 48"
  unfolding range_ok_def sim_desc_def by (auto intro!: exI [of _ "[]"])

lemma sim_bad_at: "bad_at sim_bbt 2 = False" "bad_at sim_bbt 3 = False" "bad_at sim_bbt 4 = True" "bad_at sim_bbt 5 = False"
  by code_simp+

lemma sim_upto: "[2..5 :: int] = [2, 3, 4, 5]"
  by (simp add: upto_rec1)

text \<open>
  C12. The BBT translation is a permutation of each of its ranges: the logical blocks of
  a usable remap range are mapped one to one onto the physical blocks of the same range,
  whatever the bitmap holds. So no two logical blocks share a physical block and none
  leaves the range.
\<close>

theorem bbt_mapping_permutes_range:
  assumes "range_ok b lo hi"
  shows "bij_betw (\<lambda>k. get_mapping_block_index_bbt b k t)
           {first_blk b lo ..< first_blk b hi} {first_blk b lo ..< first_blk b hi}"
proof -
  have "bij_betw (\<lambda>k. bbt_order t (first_blk b lo) (first_blk b hi) ! nat (k - first_blk b lo))
          {first_blk b lo ..< first_blk b hi} {first_blk b lo ..< first_blk b hi}"
    by (rule nth_bij_upto [OF distinct_bbt_order set_bbt_order length_bbt_order])
  then show ?thesis
    by (rule bij_betw_cong [THEN iffD2, rotated]) (auto intro: get_mapping_bbt_order [OF assms])
qed

theorem bbt_mapping_permutes_range_witness: "range_ok sim_desc 16 48 \<and> bij_betw (\<lambda>k. get_mapping_block_index_bbt sim_desc k sim_bbt) {2..<6} {2..<6}"
  using sim_range_ok bbt_mapping_permutes_range [OF sim_range_ok, of sim_bbt] by simp

text \<open>
  C13. The BBT translation equals its reference definition: the blocks of the range listed
  good ones first and bad ones last, each part in ascending order, indexed by the offset of
  the logical block in the range. In particular the second loop of the code always finds
  the block it looks for.
\<close>

theorem bbt_mapping_reference:
  assumes "range_ok b lo hi" "first_blk b lo \<le> k" "k < first_blk b hi"
  shows "get_mapping_block_index_bbt b k t =
           (filter (\<lambda>i. \<not> bad_at t i) [first_blk b lo .. first_blk b hi - 1] @
            filter (bad_at t) [first_blk b lo .. first_blk b hi - 1]) ! nat (k - first_blk b lo)"
  using get_mapping_bbt_order [OF assms] by (simp only: bbt_order_def)

theorem bbt_mapping_reference_witness: "range_ok sim_desc 16 48 \<and> get_mapping_block_index_bbt sim_desc 4 sim_bbt = 5"
  using sim_range_ok bbt_mapping_reference [OF sim_range_ok, of 4 sim_bbt]
  by (simp add: sim_bad_at sim_upto)

section \<open>Remapping\<close>

lemma filter_remove_nth:
  assumes "distinct ys" "n < length ys"
  shows "filter (\<lambda>x. x \<noteq> ys ! n) ys = take n ys @ drop (Suc n) ys"
proof -
  have split: "ys = take n ys @ ys ! n # drop (Suc n) ys"
    using assms(2) by (rule id_take_nth_drop)
  with assms(1) have "ys ! n \<notin> set (take n ys) \<union> set (drop (Suc n) ys)"
    by (metis UnE distinct.simps(2) distinct_append disjoint_iff list.set_intros(1))
  then have "filter (\<lambda>x. x \<noteq> ys ! n) (take n ys) = take n ys"
      "filter (\<lambda>x. x \<noteq> ys ! n) (drop (Suc n) ys) = drop (Suc n) ys"
    by (auto simp: filter_id_conv)
  then show ?thesis
    by (subst (2) split) simp
qed

lemma bad_at_put:
  assumes "0 \<le> p" "p < 65536" "nat p div 4 < length (bbt_buf t)" "0 \<le> i" "i < 65536"
  shows "bad_at (bbt_put t (word_of_int p) True) i \<longleftrightarrow> bad_at t i \<or> i = p"
proof -
  have "(word_of_int i :: u16) = word_of_int p \<longleftrightarrow> i = p"
    using assms by (simp add: word_of_int_eq_iff take_bit_int_eq_self)
  moreover have "unat (word_of_int p :: u16) = nat p"
    using assms by (simp add: unat_eq_nat_uint uint_word_of_int)
  ultimately show ?thesis
    using assms by (simp add: bad_at_def bbt_is_bad_put)
qed

definition good_list :: "bbt_table \<Rightarrow> int \<Rightarrow> int \<Rightarrow> int list" where
  "good_list t lo hi = filter (\<lambda>i. \<not> bad_at t i) [lo..hi - 1]"

lemma bbt_order_nth_good: "n < length (good_list t lo hi) \<Longrightarrow> bbt_order t lo hi ! n = good_list t lo hi ! n"
  by (simp add: bbt_order_def good_list_def nth_append)

lemma good_list_put:
  assumes "n < length (good_list t lo hi)" "0 \<le> lo" "hi \<le> 65536" "hi \<le> 4 * int (length (bbt_buf t))"
  defines "p \<equiv> good_list t lo hi ! n"
  shows "good_list (bbt_put t (word_of_int p) True) lo hi =
           take n (good_list t lo hi) @ drop (Suc n) (good_list t lo hi)"
proof -
  have "p \<in> set (good_list t lo hi)"
    using assms(1) by (simp add: p_def)
  then have p: "0 \<le> p" "p < hi"
    using assms by (auto simp: good_list_def)
  then have "nat p div 4 < length (bbt_buf t)"
    using assms(4) by linarith
  then have "good_list (bbt_put t (word_of_int p) True) lo hi = filter (\<lambda>i. i \<noteq> p) (good_list t lo hi)"
    unfolding good_list_def filter_filter using p assms(2,3)
    by (intro filter_cong) (auto simp: bad_at_put)
  also have "\<dots> = take n (good_list t lo hi) @ drop (Suc n) (good_list t lo hi)"
    unfolding p_def using assms(1) by (intro filter_remove_nth) (auto simp: good_list_def)
  finally show ?thesis .
qed

text \<open>
  C14. Remapping a logical block whose physical block p turned bad: when the range still
  has a good block behind p, \<open>remap_block_bbt\<close> succeeds, p is recorded as bad, the logical
  block moves to the next good block of the range, and every logical block before it keeps
  its physical block.
\<close>

theorem bbt_remap_next_good:
  assumes range: "range_ok b lo hi" and size: "first_blk b hi \<le> 65536"
      "first_blk b hi \<le> 4 * int (length (bbt_buf t))"
    and k: "first_blk b lo \<le> k" "k < first_blk b hi"
    and good: "Suc (nat (k - first_blk b lo)) < length (good_list t (first_blk b lo) (first_blk b hi))"
    and p: "p = get_mapping_block_index_bbt b k t"
    and run: "remap_block_bbt b (word_of_int k) (word_of_int p) copy_len t d = (ok, t', d')"
  shows "ok \<and> bad_at t' p \<and>
         get_mapping_block_index_bbt b k t' =
           good_list t (first_blk b lo) (first_blk b hi) ! Suc (nat (k - first_blk b lo)) \<and>
         (\<forall>j. first_blk b lo \<le> j \<and> j < k \<longrightarrow>
              get_mapping_block_index_bbt b j t' = get_mapping_block_index_bbt b j t)"
proof -
  let ?l = "first_blk b lo" and ?h = "first_blk b hi"
  let ?g = "good_list t ?l ?h" and ?n = "nat (k - first_blk b lo)"
  have l0: "0 \<le> ?l" by (simp add: pos_imp_zdiv_nonneg_iff)
  have p': "p = ?g ! ?n"
    using good p get_mapping_bbt_order [OF range k, of t] by (simp add: bbt_order_nth_good)
  have "uint (word_of_int k :: u16) = k"
    using k l0 size by (simp add: uint_word_of_int)
  then have t': "ok" "t' = bbt_put t (word_of_int p) True"
    using run block_in_range [OF range k]
    by (auto simp: remap_block_bbt_def bbt_set_block_state_def Let_def split: prod.splits if_splits)
  have g': "good_list t' ?l ?h = take ?n ?g @ drop (Suc ?n) ?g"
    unfolding t'(2) p' using good l0 size by (intro good_list_put) auto
  have get': "get_mapping_block_index_bbt b j t' = (take ?n ?g @ drop (Suc ?n) ?g) ! nat (j - ?l)"
    if "?l \<le> j" "j \<le> k" for j
    using that k good get_mapping_bbt_order [OF range, of j t']
    by (simp add: bbt_order_nth_good g')
  have "?g ! ?n \<in> set [?l..?h - 1]"
    using good nth_mem [of ?n ?g] by (auto simp: good_list_def)
  then have "bad_at t' p"
    unfolding t'(2) using l0 size by (subst bad_at_put) (auto simp: p')
  moreover have "get_mapping_block_index_bbt b k t' = ?g ! Suc ?n"
    using get' [of k] k good by (simp add: nth_append)
  moreover have "get_mapping_block_index_bbt b j t' = get_mapping_block_index_bbt b j t"
    if "?l \<le> j" "j < k" for j
    using that k good get' [of j] get_mapping_bbt_order [OF range, of j t]
    by (simp add: nth_append bbt_order_nth_good)
  ultimately show ?thesis
    using t'(1) by blast
qed

theorem bbt_remap_next_good_witness:
  "\<exists>t' d'. remap_block_bbt sim_desc 3 3 8 sim_bbt sim_chip = (True, t', d') \<and> bad_at t' 3 \<and>
     get_mapping_block_index_bbt sim_desc 3 t' = 5 \<and> get_mapping_block_index_bbt sim_desc 2 t' = 2"
proof -
  obtain ok t' d' where run: "remap_block_bbt sim_desc (word_of_int 3) (word_of_int 3) 8 sim_bbt sim_chip = (ok, t', d')"
    by (rule prod_cases3)
  have m: "3 = get_mapping_block_index_bbt sim_desc 3 sim_bbt" "get_mapping_block_index_bbt sim_desc 2 sim_bbt = 2"
    using get_mapping_bbt_order [OF sim_range_ok, of _ sim_bbt]
    by (simp_all add: bbt_order_def sim_bad_at sim_upto)
  have "good_list sim_bbt 2 6 = [2, 3, 5]"
    by (simp add: good_list_def sim_bad_at sim_upto)
  then show ?thesis
    using bbt_remap_next_good [OF sim_range_ok _ _ _ _ _ m(1) run] run m(2)
    by (auto simp: sim_bbt_def)
qed

text \<open>
  C25. Without a remap range the BBT back end never translates: \<open>mapping_block_in_range\<close>
  then reports the range in blocks while \<open>get_mapping_block_index_bbt\<close> shifts it as if it
  were in bytes, so on every chip of fewer blocks than a block has bytes the range is empty
  and each block is its own image, bad or not.
\<close>

theorem bbt_without_range_identity:
  assumes "remap_range b = []" "uint (total_blks b) < 2 ^ unat (blk_shift b)"
  shows "get_mapping_block_index_bbt b k t = k"
proof -
  have "drop_bit (unat (blk_shift b)) (uint (total_blks b)) = 0"
    using assms(2) by (simp add: drop_bit_eq_div)
  moreover have "bbt_low_loop t 0 0 0 k = (0, 0, k)"
    by (subst bbt_low_loop.simps) simp
  ultimately show ?thesis
    using assms(1) by (simp add: get_mapping_block_index_bbt_def mapping_block_in_range_def Let_def)
qed

theorem bbt_without_range_identity_witness: "get_mapping_block_index_bbt (sim_desc\<lparr>remap_range := [], blk_shift := 17\<rparr>) 4 sim_bbt = 4"
  using bbt_without_range_identity [of "sim_desc\<lparr>remap_range := [], blk_shift := 17\<rparr>" 4 sim_bbt]
  by (simp add: sim_desc_def)

end
