(* ===== verification/Bmt_V2.thy ===== *)
theory Bmt_V2
  imports Bmt_Io Nand_Sim
begin

text \<open>
  The BMT version 2 back end (\<open>mtk_bmt_v2.c\<close>): \<open>bb_tbl\<close> maps every logical block of the
  data area to a physical block, \<open>bmt_tbl\<close> is the pool of spare blocks, each free, in use
  or holding the table itself. The table is stored in the last usable pool block.
\<close>

section \<open>struct bbmt, struct bbbt\<close>

abbreviation (input) NO_MAPPED :: u16 where "NO_MAPPED \<equiv> 0"
abbreviation (input) NORMAL_MAPPED :: u16 where "NORMAL_MAPPED \<equiv> 1"
abbreviation (input) BMT_MAPPED :: u16 where "BMT_MAPPED \<equiv> 2"
abbreviation (input) BBMT_VERSION :: u8 where "BBMT_VERSION \<equiv> 2"

record bbmt =
  bm_block :: u16
  bm_mapped :: u16

text \<open>
  The table and the driver's variables for it. \<open>bmt_tbl\<close> are the \<open>table_size\<close> entries that the
  declarations provide for. The code never checks an index against their number, so \<open>bmt_past\<close>
  is the memory behind them, read as entries; it belongs to others and is taken to stay as the
  driver leaves it. \<open>bb_lost\<close> is a history variable, which no code reads: an upload has found no
  place for the table since it was set up.
\<close>

record bbbt =
  bb_signature :: bytes
  bb_version :: u8
  bb_tbl :: "u16 list"
  bmt_tbl :: "bbmt list"
  bmt_past :: "nat \<Rightarrow> bbmt"
  pool_pba :: u16
  bmt_blk_idx :: u16
  bb_lost :: bool

definition bmt_ent :: "bbbt \<Rightarrow> nat \<Rightarrow> bbmt" where
  "bmt_ent t n = (if n < length (bmt_tbl t) then bmt_tbl t ! n else bmt_past t n)"

definition bmt_put :: "bbbt \<Rightarrow> nat \<Rightarrow> bbmt \<Rightarrow> bbbt" where
  "bmt_put t n e =
     (if n < length (bmt_tbl t) then t\<lparr>bmt_tbl := (bmt_tbl t)[n := e]\<rparr>
      else t\<lparr>bmt_past := (bmt_past t)(n := e)\<rparr>)"

text \<open>
  An entry of \<open>bb_tbl\<close>. Its index is a logical block below \<open>pool_lba\<close>; where that exceeds
  \<open>table_size\<close> the C code runs into the pool, which the properties exclude.
\<close>

definition bb_ent :: "bbbt \<Rightarrow> nat \<Rightarrow> u16" where
  "bb_ent t n = (if n < length (bb_tbl t) then bb_tbl t ! n else 0)"

text \<open>
  The object representation of the table, of \<open>4 + 6 * table_size\<close> bytes, and the table that lies at
  a place of the memory. The buffer that \<open>mtk_bmt_init_v2\<close> allocates has \<open>4 + 4 * table_size\<close>
  bytes, rounded up to pages, and as many are stored: \<open>v2_image n\<close> are the \<open>n\<close> bytes at the
  table's address, \<open>buf_mem\<close> the memory from the start of a buffer on.
\<close>

definition le16 :: "u16 \<Rightarrow> bytes" where
  "le16 w = [ucast w, ucast (drop_bit 8 w)]"

definition rd16 :: "(nat \<Rightarrow> u8) \<Rightarrow> nat \<Rightarrow> u16" where
  "rd16 m k = ucast (m k) OR push_bit 8 (ucast (m (k + 1)))"

definition bbmt_bytes :: "bbmt \<Rightarrow> bytes" where
  "bbmt_bytes e = le16 (bm_block e) @ le16 (bm_mapped e)"

definition rd_bbmt :: "(nat \<Rightarrow> u8) \<Rightarrow> nat \<Rightarrow> bbmt" where
  "rd_bbmt m k = \<lparr>bm_block = rd16 m k, bm_mapped = rd16 m (k + 2)\<rparr>"

definition v2_encode :: "bbbt \<Rightarrow> bytes" where
  "v2_encode t = bb_signature t @ bb_version t # concat (map le16 (bb_tbl t)) @
     concat (map bbmt_bytes (bmt_tbl t))"

definition v2_image :: "nat \<Rightarrow> bbbt \<Rightarrow> bytes" where
  "v2_image n t = take n (v2_encode t @
     concat (map (\<lambda>i. bbmt_bytes (bmt_past t i)) [length (bmt_tbl t)..<length (bmt_tbl t) + n]))"

definition buf_mem :: "(nat \<Rightarrow> u8) \<Rightarrow> bytes \<Rightarrow> nat \<Rightarrow> u8" where
  "buf_mem mem buf k = (if k < length buf then buf ! k else mem k)"

definition v2_decode :: "nat \<Rightarrow> (nat \<Rightarrow> u8) \<Rightarrow> bbbt" where
  "v2_decode ts m =
     \<lparr>bb_signature = map m [0..<3], bb_version = m 3,
      bb_tbl = map (\<lambda>i. rd16 m (4 + 2 * i)) [0..<ts],
      bmt_tbl = map (\<lambda>i. rd_bbmt m (4 + 2 * ts + 4 * i)) [0..<ts],
      bmt_past = (\<lambda>i. rd_bbmt m (4 + 2 * ts + 4 * i)),
      pool_pba = 0, bmt_blk_idx = 0, bb_lost = False\<rparr>"

definition v2_sig :: bytes where
  "v2_sig = [0x62, 0x6d, 0x74]" \<comment> \<open>"bmt", the OOB signature\<close>

definition v2_main_sig :: bytes where
  "v2_main_sig = [0x42, 0x4d, 0x54]" \<comment> \<open>"BMT"\<close>

section \<open>Scanning for bad blocks\<close>

text \<open>\<open>n\<close> is \<open>bb_max - loop\<close>, the bad blocks that may still be skipped.\<close>

fun find_valid_block_loop :: "nat \<Rightarrow> 'd bmt_desc \<Rightarrow> 'd \<Rightarrow> u16 \<Rightarrow> u16 \<times> 'd" where
  "find_valid_block_loop n b d block =
     (if block \<ge> total_blks b then (0, d)
      else
        let (ret, dat, fdm, d1) = bbt_nand_read b d (blk_pg b block) (ucast (pg_size b)) 4
        in if ret \<noteq> 0 \<or> rd8 fdm 0 \<noteq> 0xff then
             (case n of 0 \<Rightarrow> (0, d1) | Suc m \<Rightarrow> find_valid_block_loop m b d1 (block + 1))
           else (block, d1))"

declare find_valid_block_loop.simps [simp del]

definition find_valid_block :: "'d bmt_desc \<Rightarrow> 'd \<Rightarrow> u16 \<Rightarrow> u16 \<times> 'd" where
  "find_valid_block b d block = find_valid_block_loop (unat (bb_max b)) b d block"

lemma find_valid_block_loop_bounds:
  "find_valid_block_loop n b d block = (r, d') \<Longrightarrow> r \<noteq> 0 \<Longrightarrow> block \<le> r \<and> r < total_blks b"
proof (induction n arbitrary: d block)
  case 0
  then show ?case
    by (subst (asm) find_valid_block_loop.simps) (auto simp: Let_def split: if_splits prod.splits)
next
  case (Suc n)
  show ?case
  proof (cases "block < total_blks b")
    case False
    with Suc.prems show ?thesis
      by (subst (asm) find_valid_block_loop.simps) (auto simp: not_less)
  next
    case True
    then have "block \<le> block + 1"
      by (simp add: word_le_unat)
    with True Suc show ?thesis
      by (subst (asm) (2) find_valid_block_loop.simps)
        (fastforce simp: Let_def split: if_splits prod.splits)
  qed
qed

lemma find_valid_block_bounds:
  "find_valid_block b d block = (r, d') \<Longrightarrow> r \<noteq> 0 \<Longrightarrow> block \<le> r \<and> r < total_blks b"
  unfolding find_valid_block_def by (rule find_valid_block_loop_bounds)

text \<open>
  The two loops of \<open>scan_bad_blocks\<close> work on the lists of \<open>table_size\<close> entries; the properties of
  the scan assume that the blocks of the chip fit into them.
\<close>

text \<open>The data area: \<open>i\<close> runs from 1 up to \<open>pool_lba\<close>; the flag is false on the early return.\<close>

function scan_data_loop :: "'d bmt_desc \<Rightarrow> nat \<Rightarrow> u16 list \<Rightarrow> 'd \<Rightarrow> bool \<times> u16 list \<times> 'd" where
  "scan_data_loop b i tbl d =
     (if i < unat (pool_lba b) then
        (let (blk, d1) = find_valid_block b d (tbl ! (i - 1) + 1); tbl1 = tbl[i := blk]
         in if blk = 0 then (False, tbl1, d1) else scan_data_loop b (Suc i) tbl1 d1)
      else (True, tbl, d))"
  by pat_completeness auto
termination
  by (relation "measure (\<lambda>(b, i, tbl, d). unat (pool_lba b) - i)") auto

declare scan_data_loop.simps [simp del]

text \<open>The pool: one entry per usable block behind \<open>pool_pba\<close>.\<close>

function scan_pool_loop :: "'d bmt_desc \<Rightarrow> u16 \<Rightarrow> nat \<Rightarrow> bbmt list \<Rightarrow> 'd \<Rightarrow> nat \<times> bbmt list \<times> 'd" where
  "scan_pool_loop b block i tbl d =
     (let (blk, d1) = find_valid_block b d block
      in if blk = 0 then (i, tbl, d1)
         else scan_pool_loop b (blk + 1) (Suc i) (tbl[i := \<lparr>bm_block = blk, bm_mapped = NO_MAPPED\<rparr>]) d1)"
  by pat_completeness auto
termination
proof (relation "measure (\<lambda>(b, block, i, tbl, d). unat (total_blks b) - unat block)", goal_cases)
  case 1
  then show ?case by simp
next
  case (2 b block i tbl d x blk d1)
  then have "block \<le> blk" "blk < total_blks b"
    using find_valid_block_bounds [of b d block blk d1] by simp_all
  then show ?case
    by (simp add: word_le_unat word_less_unat)
qed

declare scan_pool_loop.simps [simp del]

definition scan_bad_blocks :: "'d bmt_desc \<Rightarrow> bbbt \<Rightarrow> 'd \<Rightarrow> int \<times> bbbt \<times> 'd" where
  "scan_bad_blocks b t d =
     (let tbl0 = (bb_tbl t)[0 := 0];
          (ok, tbl, d1) = scan_data_loop b 1 tbl0 d;
          t1 = t\<lparr>bb_tbl := tbl\<rparr>
      in if \<not> ok then (-1, t1, d1)
         else
           let pba = tbl ! (max 1 (unat (pool_lba b)) - 1) + 1;
               t2 = t1\<lparr>pool_pba := pba\<rparr>
           in if uint pba \<ge> uint (total_blks b) - 2 then (-1, t2, d1)
              else
                let (n, pool, d2) = scan_pool_loop b pba 0 (bmt_tbl t2) d1;
                    idx = (of_nat n - 1 :: u16);
                    t3 = t2\<lparr>bmt_tbl := pool, bmt_blk_idx := idx\<rparr>;
                    t4 = bmt_put t3 (unat idx) ((bmt_ent t3 (unat idx))\<lparr>bm_mapped := BMT_MAPPED\<rparr>)
                in if n < 1 then (-1, t4, d2) else (0, t4, d2))"

section \<open>Storing and finding the table\<close>

definition is_valid_bmt :: "bytes \<Rightarrow> bytes \<Rightarrow> bool" where
  "is_valid_bmt buf fdm \<longleftrightarrow>
     take 3 buf = v2_main_sig \<and> take 3 (drop 1 fdm) = v2_sig \<and> rd8 buf 3 = BBMT_VERSION"

text \<open>
  The search for the entry that holds the table goes on through the memory behind the pool until
  an entry has no block; where none does it has no end.
\<close>

partial_function (option) get_bmt_index_from :: "(nat \<Rightarrow> bbmt) \<Rightarrow> nat \<Rightarrow> u16 option" where
  "get_bmt_index_from e i =
     (if bm_block (e i) = 0 then Some 0
      else if bm_mapped (e i) = BMT_MAPPED then Some (of_nat i)
      else get_bmt_index_from e (Suc i))"

declare get_bmt_index_from.simps [code]

definition get_bmt_index :: "bbbt \<Rightarrow> u16 option" where
  "get_bmt_index t = get_bmt_index_from (bmt_ent t) 0"

text \<open>
  \<open>upload_bmt\<close>: \<open>n\<close> counts down through the pool until a block takes the table; the C
  variable reaches -1 where the recursion has no index left. What is stored are the bytes that
  \<open>write_bmt\<close> takes from the table's address, \<open>bmt_pgs\<close> pages.
\<close>

definition bmt_store_len :: "'d bmt_desc \<Rightarrow> u32" where
  "bmt_store_len b = push_bit (unat (pg_shift b)) (bmt_pgs b)"

fun upload_bmt :: "nat \<Rightarrow> 'd bmt_desc \<Rightarrow> bbbt \<Rightarrow> 'd \<Rightarrow> u16 \<times> bbbt \<times> 'd" where
  "upload_bmt n b t d =
     (if bm_mapped (bmt_ent t n) = NORMAL_MAPPED then (0xffff, t, d)
      else
        let block = bm_block (bmt_ent t n);
            (ret, d1) = bbt_nand_erase b d block
        in if ret \<noteq> 0 then
             (let t1 = bmt_put t n ((bmt_ent t n)\<lparr>bm_block := 0\<rparr>)
              in case n of 0 \<Rightarrow> (0xffff, t1, d1) | Suc m \<Rightarrow> upload_bmt m b t1 d1)
           else
             let t1 = t\<lparr>bb_signature := v2_main_sig, bb_version := BBMT_VERSION\<rparr>;
                 (ret2, d2) = write_bmt b v2_sig d1 block (v2_image (unat (bmt_store_len b)) t1)
             in if ret2 \<noteq> 0 then
                  (let t2 = bmt_put t1 n ((bmt_ent t1 n)\<lparr>bm_block := 0\<rparr>)
                   in case n of 0 \<Rightarrow> (0xffff, t2, d2) | Suc m \<Rightarrow> upload_bmt m b t2 d2)
                else (of_nat n, t1, d2))"

declare upload_bmt.simps [simp del]

definition upload_table :: "'d bmt_desc \<Rightarrow> bbbt \<Rightarrow> 'd \<Rightarrow> bbbt \<times> 'd" where
  "upload_table b t d =
     (let (idx, t1, d1) = upload_bmt (unat (bmt_blk_idx t)) b t d
      in (t1\<lparr>bmt_blk_idx := idx, bb_lost := bb_lost t1 \<or> idx = 0xffff\<rparr>, d1))"

section \<open>Run-time mapping\<close>

definition pool_free :: "bbmt \<Rightarrow> bool" where
  "pool_free e \<longleftrightarrow> bm_block e \<noteq> 0 \<and> bm_mapped e = NO_MAPPED"

text \<open>
  The scan runs up to \<open>bmt_blk_idx\<close>, which is 0xffff after an upload that found no place: it then
  goes through the memory behind the pool.
\<close>

definition find_valid_block_in_pool :: "bbbt \<Rightarrow> u16 \<times> bbbt" where
  "find_valid_block_in_pool t =
     (if bmt_blk_idx t = 0 then (0, t)
      else case find (\<lambda>i. pool_free (bmt_ent t i)) [0..<unat (bmt_blk_idx t)] of
             None \<Rightarrow> (0, t)
           | Some i \<Rightarrow> (bm_block (bmt_ent t i), bmt_put t i ((bmt_ent t i)\<lparr>bm_mapped := NORMAL_MAPPED\<rparr>)))"

definition remap_block_v2 ::
    "'d bmt_desc \<Rightarrow> u16 \<Rightarrow> u16 \<Rightarrow> int \<Rightarrow> bbbt \<Rightarrow> 'd \<Rightarrow> bool \<times> bbbt \<times> 'd" where
  "remap_block_v2 b block mapped_block copy_len t d =
     (let (new_block, t1) = find_valid_block_in_pool t
      in if new_block = 0 then (False, t1, d)
         else
           let t2 = t1\<lparr>bb_tbl := (bb_tbl t1)[unat block := new_block]\<rparr>;
               (_, d1) = bbt_nand_erase b d new_block;
               d2 = (if copy_len > 0 then snd (bbt_nand_copy b d1 new_block mapped_block copy_len) else d1);
               (t3, d3) = upload_table b t2 d2
           in (True, t3, d3))"

definition get_mapping_block_index_v2 :: "'d bmt_desc \<Rightarrow> int \<Rightarrow> bbbt \<Rightarrow> int" where
  "get_mapping_block_index_v2 b block t =
     (if block \<ge> uint (pool_lba b) then block
      else case mapping_block_in_range b block of
             None \<Rightarrow> block
           | Some _ \<Rightarrow> uint (bb_ent t (nat block)))"

definition unmap_block_v2 :: "'d bmt_desc \<Rightarrow> u16 \<Rightarrow> bbbt \<Rightarrow> 'd \<Rightarrow> bbbt \<times> 'd" where
  "unmap_block_v2 b block t d =
     upload_table b (t\<lparr>bb_tbl := (bb_tbl t)[unat block := block]\<rparr>) d"

definition mtk_bmt_v2_ops :: "(bbbt, 'd) mtk_bmt_ops" where
  "mtk_bmt_v2_ops =
     \<lparr>remap_block = remap_block_v2, unmap_block = unmap_block_v2,
      get_mapping_block = get_mapping_block_index_v2\<rparr>"

section \<open>The debugfs collector of unused pool blocks\<close>

text \<open>
  \<open>mtk_bmt_get_mapping_mask\<close> sets, for each remapped block of the main area, the bit of
  the first pool entry that holds its physical block; the mask is the list of those bits.
\<close>

definition main_blocks :: "'d bmt_desc \<Rightarrow> nat" where
  "main_blocks b = unat (shr64 (mtd_size b) (blk_shift b))"

definition pool_index :: "bbbt \<Rightarrow> u16 \<Rightarrow> nat option" where
  "pool_index t blk = find (\<lambda>k. bm_block (bmt_ent t k) = blk) [0..<unat (bmt_blk_idx t)]"

definition mtk_bmt_get_mapping_mask :: "'d bmt_desc \<Rightarrow> bbbt \<Rightarrow> nat list" where
  "mtk_bmt_get_mapping_mask b t =
     List.map_filter (\<lambda>i. if unat (bb_ent t i) = i then None else pool_index t (bb_ent t i))
       [1..<main_blocks b]"

definition unused_entries :: "bbbt \<Rightarrow> nat list \<Rightarrow> nat list" where
  "unused_entries t used =
     filter (\<lambda>i. bm_mapped (bmt_ent t i) = NORMAL_MAPPED \<and> i \<notin> set used) [0..<Suc (unat (bmt_blk_idx t))]"

definition free_entry :: "nat \<Rightarrow> bbbt \<Rightarrow> bbbt" where
  "free_entry i t = bmt_put t i ((bmt_ent t i)\<lparr>bm_mapped := NO_MAPPED\<rparr>)"

definition mtk_bmt_debug_v2 ::
    "'d bmt_desc \<Rightarrow> bool \<Rightarrow> u64 \<Rightarrow> bbbt \<Rightarrow> 'd \<Rightarrow> int \<times> bbbt \<times> 'd" where
  "mtk_bmt_debug_v2 b kcalloc_ok val t d =
     (let used = mtk_bmt_get_mapping_mask b t
      in if \<not> kcalloc_ok then (- ENOMEM, t, d)
         else if val = 100 then
           (let freed = unused_entries t used; t1 = fold free_entry freed t
            in if freed \<noteq> [] then (let (t2, d2) = upload_table b t1 d in (0, t2, d2))
               else (0, t1, d))
         else (0, t, d))"

section \<open>mtk\_bmt\_init\_v2\<close>

definition v2_bufsz :: "u32 \<Rightarrow> u32 \<Rightarrow> u32" where
  "v2_bufsz ts pgsz = ((4 + ts * 4 - 1) OR (pgsz - 1)) + 1"

text \<open>
  The scan for a stored table, from the last block down to \<open>pool_lba\<close>. The result is the
  buffer and the table index with the block it was found in, or the buffer alone. With
  \<open>pool_lba = 0\<close> the C loop runs forever (a u16 is never below 0), hence the option. \<open>mem\<close> is the
  memory behind the buffer, by its distance from the start of the buffer.
\<close>

partial_function (option) v2_search ::
    "'d bmt_desc \<Rightarrow> nat \<Rightarrow> (nat \<Rightarrow> u8) \<Rightarrow> u32 \<Rightarrow> u16 \<Rightarrow> bytes \<Rightarrow> 'd \<Rightarrow> ((u16 option \<times> bytes) \<times> 'd) option" where
  "v2_search b ts mem bufsz block buf d =
     (if block < pool_lba b then Some ((None, buf), d)
      else
        let (ret, dat, fdm, d1) = bbt_nand_read b d (blk_pg b block) (ucast bufsz) 4;
            buf1 = take (length buf) dat @ drop (length dat) buf
        in if ret \<noteq> 0 then v2_search b ts mem bufsz (block - 1) buf1 d1
           else if \<not> is_valid_bmt buf1 fdm then v2_search b ts mem bufsz (block - 1) buf1 d1
           else
             case get_bmt_index (v2_decode ts (buf_mem mem buf1)) of
               None \<Rightarrow> None
             | Some idx \<Rightarrow> if idx = 0 then Some ((None, buf1), d1) else Some ((Some idx, buf1), d1))"

declare v2_search.simps [code]

definition v2_configure :: "'d bmt_desc \<Rightarrow> u32 \<Rightarrow> u8 \<Rightarrow> u32 \<Rightarrow> 'd bmt_desc" where
  "v2_configure b pool_size oob_off ts =
     (let pmt_block = (ucast (ucast (total_blks b) - pool_size - 2) :: u16)
      in b\<lparr>oob_offset := oob_off, table_size := ts,
           mtd_size := scast (push_bit (unat (blk_shift b)) (ucast pmt_block :: u32)),
           pool_lba := pmt_block + 2,
           bb_max := ucast ((ucast (total_blks b) * 2 :: u32) div 100),
           bmt_pgs := drop_bit (unat (pg_shift b)) (v2_bufsz ts (pg_size b))\<rparr>)"

definition mtk_bmt_init_v2 ::
    "'d bmt_desc \<Rightarrow> u32 option \<Rightarrow> u8 option \<Rightarrow> u32 option \<Rightarrow> bool \<Rightarrow> (nat \<Rightarrow> u8) \<Rightarrow> bbbt \<Rightarrow> 'd
       \<Rightarrow> (int \<times> 'd bmt_desc \<times> bbbt \<times> 'd) option" where
  "mtk_bmt_init_v2 b dt_pool_size dt_oob_offset dt_table_size kzalloc_ok mem t d =
     (let ts = (case dt_table_size of None \<Rightarrow> 0x2000 | Some n \<Rightarrow> n);
          b1 = v2_configure b (case dt_pool_size of None \<Rightarrow> 80 | Some n \<Rightarrow> n)
                 (case dt_oob_offset of None \<Rightarrow> 0 | Some n \<Rightarrow> n) ts;
          bufsz = v2_bufsz ts (pg_size b)
      in if \<not> kzalloc_ok then Some (- ENOMEM, b1, t, d)
         else
           case v2_search b1 (unat ts) mem bufsz (total_blks b - 1) (replicate (unat bufsz) 0xff) d of
             None \<Rightarrow> None
           | Some ((Some idx, buf), d1) \<Rightarrow> Some (0, b1, (v2_decode (unat ts) (buf_mem mem buf))\<lparr>bmt_blk_idx := idx\<rparr>, d1)
           | Some ((None, buf), d1) \<Rightarrow>
               if ucast (total_blks b) > ts + ts * 2 div 100 then Some (-1, b1, t, d1)
               else
                 let t1 = (v2_decode (unat ts) (buf_mem mem buf))
                            \<lparr>bmt_tbl := replicate (unat ts) \<lparr>bm_block = 0, bm_mapped = 0\<rparr>\<rparr>;
                     (ret, t2, d2) = scan_bad_blocks b1 t1 d1
                 in if ret \<noteq> 0 then Some (-1, b1, t2, d2)
                    else
                      let (t3, d3) = upload_table b1 t2 d2
                      in if bmt_blk_idx t3 = 0xffff then Some (-1, b1, t3, d3)
                         else Some (0, b1, t3, d3))"

section \<open>The table invariant\<close>

text \<open>
  The data mapping is injective and stays on the chip, the pool lists every block once,
  and a free pool block is not the image of any logical block.
\<close>

definition v2_mapped :: "'d bmt_desc \<Rightarrow> bbbt \<Rightarrow> u16 set" where
  "v2_mapped b t = bb_ent t ` {..<unat (pool_lba b)}"

definition v2_inv :: "'d bmt_desc \<Rightarrow> bbbt \<Rightarrow> bool" where
  "v2_inv b t \<longleftrightarrow>
     unat (pool_lba b) \<le> length (bb_tbl t) \<and>
     inj_on (bb_ent t) {..<unat (pool_lba b)} \<and>
     (\<forall>i < unat (pool_lba b). bb_ent t i < total_blks b) \<and>
     (\<forall>i < length (bmt_tbl t). bm_block (bmt_ent t i) < total_blks b) \<and>
     (\<forall>i < length (bmt_tbl t). \<forall>j < length (bmt_tbl t).
        bm_block (bmt_ent t i) \<noteq> 0 \<and> bm_block (bmt_ent t i) = bm_block (bmt_ent t j) \<longrightarrow> i = j) \<and>
     (\<forall>i < length (bmt_tbl t). pool_free (bmt_ent t i) \<longrightarrow> bm_block (bmt_ent t i) \<notin> v2_mapped b t)"

text \<open>
  The entry that holds the table is one of the pool. An upload that finds no place for the table
  leaves the index 0xffff, which is none.
\<close>

definition v2_ready :: "'d bmt_desc \<Rightarrow> bbbt \<Rightarrow> bool" where
  "v2_ready b t \<longleftrightarrow> v2_inv b t \<and> unat (bmt_blk_idx t) < length (bmt_tbl t)"

lemma bmt_put_fields [simp]:
  "length (bmt_tbl (bmt_put t n e)) = length (bmt_tbl t)" "bb_tbl (bmt_put t n e) = bb_tbl t"
  "bmt_blk_idx (bmt_put t n e) = bmt_blk_idx t" "bb_lost (bmt_put t n e) = bb_lost t"
  by (simp_all add: bmt_put_def)

lemma bmt_ent_put [simp]: "bmt_ent (bmt_put t n e) i = (if i = n then e else bmt_ent t i)"
  by (auto simp: bmt_ent_def bmt_put_def)

lemma bmt_ent_upd [simp]:
  "bmt_ent (t\<lparr>bb_tbl := x\<rparr>) i = bmt_ent t i" "bmt_ent (t\<lparr>bb_signature := s\<rparr>) i = bmt_ent t i"
  "bmt_ent (t\<lparr>bb_version := v\<rparr>) i = bmt_ent t i" "bmt_ent (t\<lparr>bmt_blk_idx := k\<rparr>) i = bmt_ent t i"
  "bmt_ent (t\<lparr>bb_lost := l\<rparr>) i = bmt_ent t i"
  by (simp_all add: bmt_ent_def)

lemma bb_ent_cong: "bb_tbl t' = bb_tbl t \<Longrightarrow> bb_ent t' i = bb_ent t i"
  by (simp add: bb_ent_def)

text \<open>
  What an upload changes: the pool entries that failed lose their block number, nothing
  else of the table moves. \<open>pool_shrinks\<close> is that relation.
\<close>

definition pool_shrinks :: "bbbt \<Rightarrow> bbbt \<Rightarrow> bool" where
  "pool_shrinks t t' \<longleftrightarrow>
     bb_tbl t' = bb_tbl t \<and> length (bmt_tbl t') = length (bmt_tbl t) \<and>
     (\<forall>i. bm_mapped (bmt_ent t' i) = bm_mapped (bmt_ent t i) \<and>
          (bm_block (bmt_ent t' i) = bm_block (bmt_ent t i) \<or> bm_block (bmt_ent t' i) = 0))"

lemma pool_shrinks_refl: "pool_shrinks t t"
  by (simp add: pool_shrinks_def)

lemma pool_shrinks_trans: "pool_shrinks t u \<Longrightarrow> pool_shrinks u v \<Longrightarrow> pool_shrinks t v"
  by (auto simp: pool_shrinks_def) (metis+)

lemma pool_shrinks_drop: "pool_shrinks t (bmt_put t n ((bmt_ent t n)\<lparr>bm_block := 0\<rparr>))"
  by (simp add: pool_shrinks_def)

lemma pool_shrinks_sign: "pool_shrinks t (t\<lparr>bb_signature := s, bb_version := v\<rparr>)"
  by (simp add: pool_shrinks_def)

lemma pool_shrinks_idx: "pool_shrinks t (t\<lparr>bmt_blk_idx := k, bb_lost := l\<rparr>)"
  by (simp add: pool_shrinks_def)

lemma pool_shrinks_sign_drop:
  "pool_shrinks t (bmt_put (t\<lparr>bb_signature := s, bb_version := v\<rparr>) n ((bmt_ent t n)\<lparr>bm_block := 0\<rparr>))"
  by (simp add: pool_shrinks_def)

text \<open>One try of an upload: it gives up, it stores the table, or the entry loses its block.\<close>

lemma upload_bmt_cases:
  assumes "upload_bmt n b t d = (idx, t', d')"
  obtains (stop) "idx = 0xffff" "t' = t" "d' = d"
  | (stored) d1 where "idx = of_nat n" "t' = t\<lparr>bb_signature := v2_main_sig, bb_version := BBMT_VERSION\<rparr>"
      "bbt_nand_erase b d (bm_block (bmt_ent t n)) = (0, d1)"
      "write_bmt b v2_sig d1 (bm_block (bmt_ent t n)) (v2_image (unat (bmt_store_len b)) t') = (0, d')"
  | (dropped) t1 d1 where "pool_shrinks t t1" "bb_lost t1 = bb_lost t"
      "(case n of 0 \<Rightarrow> (0xffff, t1, d1) | Suc m \<Rightarrow> upload_bmt m b t1 d1) = (idx, t', d')"
proof -
  let ?e = "bmt_ent t n" and ?t = "t\<lparr>bb_signature := v2_main_sig, bb_version := BBMT_VERSION\<rparr>"
  obtain r1 d1 where er: "bbt_nand_erase b d (bm_block ?e) = (r1, d1)" by fastforce
  obtain r2 d2 where wr: "write_bmt b v2_sig d1 (bm_block ?e) (v2_image (unat (bmt_store_len b)) ?t) = (r2, d2)" by fastforce
  have e: "bmt_ent ?t n = ?e" by simp
  note u = assms [unfolded upload_bmt.simps [of n] Let_def er prod.case wr e]
  consider (a) "bm_mapped ?e = 1" | (b) "bm_mapped ?e \<noteq> 1" "r1 \<noteq> 0" | (c) "bm_mapped ?e \<noteq> 1" "r1 = 0" "r2 \<noteq> 0"
    | (d) "bm_mapped ?e \<noteq> 1" "r1 = 0" "r2 = 0" by blast
  then show thesis
  proof cases
    case a
    then show thesis using u by (intro stop) simp_all
  next
    case b
    then show thesis using u
      by (intro dropped [of "bmt_put t n (?e\<lparr>bm_block := 0\<rparr>)" d1] pool_shrinks_drop) simp_all
  next
    case c
    then show thesis using u
      by (intro dropped [of "bmt_put ?t n (?e\<lparr>bm_block := 0\<rparr>)" d2] pool_shrinks_sign_drop) simp_all
  next
    case d
    then show thesis using u er wr by (intro stored [of d1]) simp_all
  qed
qed

lemma upload_bmt_shrinks: "upload_bmt n b t d = (idx, t', d') \<Longrightarrow> pool_shrinks t t'"
proof (induction n arbitrary: t d)
  case 0
  then show ?case by (cases rule: upload_bmt_cases) (simp_all add: pool_shrinks_refl pool_shrinks_sign)
next
  case (Suc n)
  from Suc.prems show ?case
  proof (cases rule: upload_bmt_cases)
    case (dropped t1 d1)
    then show ?thesis using Suc.IH [of t1 d1] by (auto intro: pool_shrinks_trans)
  qed (simp_all add: pool_shrinks_refl pool_shrinks_sign)
qed

lemma upload_bmt_idx:
  "upload_bmt n b t d = (idx, t', d') \<Longrightarrow> n < 2 ^ 16 \<Longrightarrow> (idx = 0xffff \<or> unat idx \<le> n) \<and> bb_lost t' = bb_lost t"
proof (induction n arbitrary: t d)
  case 0
  from 0(1) show ?case by (cases rule: upload_bmt_cases) simp_all
next
  case (Suc n)
  have u: "unat (of_nat (Suc n) :: u16) = Suc n" using Suc.prems(2) by (intro unat_of_nat_small) simp
  from Suc.prems(1) show ?case
  proof (cases rule: upload_bmt_cases)
    case stored
    then show ?thesis using u by (simp del: of_nat_Suc)
  next
    case (dropped t1 d1)
    then show ?thesis using Suc.IH [of t1 d1] Suc.prems(2) by auto
  qed simp
qed

lemma upload_table_idx:
  assumes "upload_table b t d = (t', d')"
  shows "bmt_blk_idx t' = 0xffff \<or> unat (bmt_blk_idx t') \<le> unat (bmt_blk_idx t)"
    "bb_lost t' \<longleftrightarrow> bb_lost t \<or> bmt_blk_idx t' = 0xffff"
proof -
  obtain idx t1 d1 where u: "upload_bmt (unat (bmt_blk_idx t)) b t d = (idx, t1, d1)" by (rule prod_cases3)
  have "(idx = 0xffff \<or> unat idx \<le> unat (bmt_blk_idx t)) \<and> bb_lost t1 = bb_lost t"
    using upload_bmt_idx [OF u] unat_less_2p [of "bmt_blk_idx t"] by simp
  with assms u show "bmt_blk_idx t' = 0xffff \<or> unat (bmt_blk_idx t') \<le> unat (bmt_blk_idx t)"
    "bb_lost t' \<longleftrightarrow> bb_lost t \<or> bmt_blk_idx t' = 0xffff"
    by (auto simp: upload_table_def)
qed

lemma upload_table_shrinks:
  assumes "upload_table b t d = (t', d')"
  shows "pool_shrinks t t'"
proof -
  obtain idx t1 d1 where u: "upload_bmt (unat (bmt_blk_idx t)) b t d = (idx, t1, d1)" by (rule prod_cases3)
  with assms have "t' = t1\<lparr>bmt_blk_idx := idx, bb_lost := bb_lost t1 \<or> idx = 0xffff\<rparr>"
    by (simp add: upload_table_def)
  then show ?thesis
    using pool_shrinks_trans [OF upload_bmt_shrinks [OF u] pool_shrinks_idx] by simp
qed

lemma v2_inv_shrinks:
  assumes "v2_inv b t" "pool_shrinks t t'"
  shows "v2_inv b t'"
proof -
  have bb: "bb_ent t' = bb_ent t"
    using assms(2) by (simp add: pool_shrinks_def bb_ent_def fun_eq_iff)
  then have mapped: "v2_mapped b t' = v2_mapped b t"
    by (simp add: v2_mapped_def)
  have blk: "bm_block (bmt_ent t' i) = bm_block (bmt_ent t i) \<or> bm_block (bmt_ent t' i) = 0"
      "bm_mapped (bmt_ent t' i) = bm_mapped (bmt_ent t i)" for i
    using assms(2) by (auto simp: pool_shrinks_def)
  have "bm_block (bmt_ent t' i) < total_blks b" if "i < length (bmt_tbl t)" for i
  proof -
    have "bm_block (bmt_ent t i) < total_blks b"
      using assms(1) that by (simp add: v2_inv_def)
    then show ?thesis
      using blk(1) [of i] order_le_less_trans [OF word_zero_le] by fastforce
  qed
  moreover have "i = j" if "i < length (bmt_tbl t)" "j < length (bmt_tbl t)"
      "bm_block (bmt_ent t' i) \<noteq> 0" "bm_block (bmt_ent t' i) = bm_block (bmt_ent t' j)" for i j
    using assms(1) blk(1) that by (auto simp: v2_inv_def) metis
  moreover have "pool_free (bmt_ent t' i) \<Longrightarrow> pool_free (bmt_ent t i) \<and> bm_block (bmt_ent t' i) = bm_block (bmt_ent t i)" for i
    using blk [of i] by (auto simp: pool_free_def)
  ultimately show ?thesis
    using assms(1,2) by (auto simp: v2_inv_def bb mapped pool_shrinks_def)
qed

lemma find_in_pool_cases:
  assumes "find_valid_block_in_pool t = (nb, t1)"
  obtains (none) "nb = 0" "t1 = t"
  | (found) i where "nb \<noteq> 0" "i < unat (bmt_blk_idx t)" "pool_free (bmt_ent t i)"
      "\<And>j. j < i \<Longrightarrow> \<not> pool_free (bmt_ent t j)" "nb = bm_block (bmt_ent t i)"
      "t1 = bmt_put t i ((bmt_ent t i)\<lparr>bm_mapped := NORMAL_MAPPED\<rparr>)"
proof (cases "find (\<lambda>i. pool_free (bmt_ent t i)) [0..<unat (bmt_blk_idx t)]")
  case None
  with assms none show thesis by (simp add: find_valid_block_in_pool_def split: if_splits)
next
  case (Some i)
  then have i: "i < unat (bmt_blk_idx t)" "pool_free (bmt_ent t i)" "\<And>j. j < i \<Longrightarrow> \<not> pool_free (bmt_ent t j)"
    by (auto simp: find_Some_iff)
  then have "bmt_blk_idx t \<noteq> 0" by auto
  with Some assms have "nb = bm_block (bmt_ent t i)" "t1 = bmt_put t i ((bmt_ent t i)\<lparr>bm_mapped := NORMAL_MAPPED\<rparr>)"
    by (auto simp: find_valid_block_in_pool_def)
  with i found show thesis by (auto simp: pool_free_def)
qed

lemma v2_inv_assign:
  assumes inv: "v2_inv b t" and i: "i < length (bmt_tbl t)" "pool_free (bmt_ent t i)"
    and blk: "blk < unat (pool_lba b)"
  shows "v2_inv b ((bmt_put t i ((bmt_ent t i)\<lparr>bm_mapped := NORMAL_MAPPED\<rparr>))
           \<lparr>bb_tbl := (bb_tbl t)[blk := bm_block (bmt_ent t i)]\<rparr>)"
    (is "v2_inv b ?t")
proof -
  let ?nb = "bm_block (bmt_ent t i)"
  have len: "unat (pool_lba b) \<le> length (bb_tbl t)" using inv by (simp add: v2_inv_def)
  have bb: "bb_ent ?t j = (if j = blk then ?nb else bb_ent t j)" for j
    using blk len by (auto simp: bb_ent_def)
  have ent: "bmt_ent ?t j = (if j = i then (bmt_ent t i)\<lparr>bm_mapped := NORMAL_MAPPED\<rparr> else bmt_ent t j)" for j
    by simp
  have fresh: "?nb \<notin> v2_mapped b t" and nz: "?nb \<noteq> 0"
    using inv i by (auto simp: v2_inv_def pool_free_def)
  have img: "v2_mapped b ?t \<subseteq> insert ?nb (v2_mapped b t)"
    by (auto simp: v2_mapped_def bb)
  have inj0: "inj_on (bb_ent t) {..<unat (pool_lba b)}" using inv by (simp add: v2_inv_def)
  have new: "bb_ent t j \<noteq> ?nb" if "j < unat (pool_lba b)" for j
  proof -
    have "bb_ent t j \<in> v2_mapped b t" using that by (simp add: v2_mapped_def)
    with fresh show ?thesis by metis
  qed
  have inj: "inj_on (bb_ent ?t) {..<unat (pool_lba b)}"
  proof (rule inj_onI)
    fix x y
    assume "x \<in> {..<unat (pool_lba b)}" "y \<in> {..<unat (pool_lba b)}" "bb_ent ?t x = bb_ent ?t y"
    then show "x = y"
      using new [of x] new [of y] inj_onD [OF inj0, of x y] unfolding bb by (auto split: if_splits)
  qed
  have uniq: "k = j" if "k < length (bmt_tbl t)" "j < length (bmt_tbl t)"
      "bm_block (bmt_ent t k) \<noteq> 0" "bm_block (bmt_ent t k) = bm_block (bmt_ent t j)" for k j
    using inv that unfolding v2_inv_def by blast
  have blkeq: "bm_block (bmt_ent ?t j) = bm_block (bmt_ent t j)" for j
    by (simp add: ent)
  have free: "bm_block (bmt_ent t j) \<notin> v2_mapped b ?t"
    if "j < length (bmt_tbl t)" "pool_free (bmt_ent ?t j)" for j
  proof -
    have "j \<noteq> i" using that(2) by (auto simp: ent pool_free_def)
    with that(2) have "pool_free (bmt_ent t j)" by (simp add: ent)
    with inv that(1) have "bm_block (bmt_ent t j) \<notin> v2_mapped b t" by (simp add: v2_inv_def)
    moreover have "bm_block (bmt_ent t j) \<noteq> ?nb"
      using uniq [OF i(1) that(1) nz] \<open>j \<noteq> i\<close> by metis
    ultimately show ?thesis using img by blast
  qed
  show ?thesis
    unfolding v2_inv_def blkeq
  proof (intro conjI)
    show "unat (pool_lba b) \<le> length (bb_tbl ?t)" using len by simp
    show "inj_on (bb_ent ?t) {..<unat (pool_lba b)}" by (rule inj)
    show "\<forall>j<unat (pool_lba b). bb_ent ?t j < total_blks b"
      using inv i(1) by (simp add: v2_inv_def bb)
    show "\<forall>j<length (bmt_tbl ?t). bm_block (bmt_ent t j) < total_blks b"
      using inv by (simp add: v2_inv_def)
    show "\<forall>k<length (bmt_tbl ?t). \<forall>j<length (bmt_tbl ?t).
        bm_block (bmt_ent t k) \<noteq> 0 \<and> bm_block (bmt_ent t k) = bm_block (bmt_ent t j) \<longrightarrow> k = j"
      by (intro allI impI, elim conjE, rule uniq) simp_all
    show "\<forall>j<length (bmt_tbl ?t). pool_free (bmt_ent ?t j) \<longrightarrow> bm_block (bmt_ent t j) \<notin> v2_mapped b ?t"
      using free by simp
  qed
qed

lemma remap_block_v2_cases:
  assumes "remap_block_v2 b block mapped cl t d = (ok, t', d')"
  obtains (full) "\<not> ok" "t' = t" "d' = d"
  | (moved) i u where "ok" "i < unat (bmt_blk_idx t)" "pool_free (bmt_ent t i)"
      "\<And>j. j < i \<Longrightarrow> \<not> pool_free (bmt_ent t j)"
      "u = (bmt_put t i ((bmt_ent t i)\<lparr>bm_mapped := NORMAL_MAPPED\<rparr>))
             \<lparr>bb_tbl := (bb_tbl t)[unat block := bm_block (bmt_ent t i)]\<rparr>"
      "pool_shrinks u t'" "bmt_blk_idx t' = 0xffff \<or> unat (bmt_blk_idx t') \<le> unat (bmt_blk_idx t)"
      "bb_lost t' \<longleftrightarrow> bb_lost t \<or> bmt_blk_idx t' = 0xffff"
proof -
  obtain nb t1 where f: "find_valid_block_in_pool t = (nb, t1)" by fastforce
  from f show thesis
  proof (cases rule: find_in_pool_cases)
    case none
    with assms f show thesis by (intro full) (simp_all add: remap_block_v2_def)
  next
    case (found i)
    let ?u = "t1\<lparr>bb_tbl := (bb_tbl t1)[unat block := nb]\<rparr>"
    obtain d2 where "upload_table b ?u d2 = (t', d')" "ok"
      using assms f found(1) by (auto simp: remap_block_v2_def Let_def split: prod.splits)
    then show thesis
      using found upload_table_shrinks [of b ?u d2 t' d'] upload_table_idx [of b ?u d2 t' d'] by (intro moved [of i ?u]) simp_all
  qed
qed

text \<open>A table on the chip of \<open>Nand_Sim\<close>: block 2 is remapped to 4, pool block 5 is no longer used.\<close>

definition sim_v2 :: bbbt where
  "sim_v2 = \<lparr>bb_signature = v2_main_sig, bb_version = BBMT_VERSION, bb_tbl = [0, 1, 4, 3, 0, 0, 0, 0],
     bmt_tbl = [\<lparr>bm_block = 4, bm_mapped = 1\<rparr>, \<lparr>bm_block = 5, bm_mapped = 1\<rparr>, \<lparr>bm_block = 6, bm_mapped = 0\<rparr>,
                \<lparr>bm_block = 7, bm_mapped = 2\<rparr>],
     bmt_past = (\<lambda>_. \<lparr>bm_block = 0, bm_mapped = 0\<rparr>), pool_pba = 4, bmt_blk_idx = 3, bb_lost = False\<rparr>"

definition sim_v2_blank :: bbbt where
  "sim_v2_blank = \<lparr>bb_signature = [], bb_version = 0, bb_tbl = replicate 8 0,
     bmt_tbl = replicate 8 \<lparr>bm_block = 0, bm_mapped = 0\<rparr>, bmt_past = (\<lambda>_. \<lparr>bm_block = 0, bm_mapped = 0\<rparr>),
     pool_pba = 0, bmt_blk_idx = 0, bb_lost = False\<rparr>"

lemma sim_v2_ents:
  "bb_ent sim_v2 0 = 0" "bb_ent sim_v2 (Suc 0) = 1" "bb_ent sim_v2 2 = 4" "bb_ent sim_v2 3 = 3"
  "length (bmt_tbl sim_v2) = 4"
  "bmt_ent sim_v2 0 = \<lparr>bm_block = 4, bm_mapped = 1\<rparr>" "bmt_ent sim_v2 (Suc 0) = \<lparr>bm_block = 5, bm_mapped = 1\<rparr>"
  "bmt_ent sim_v2 2 = \<lparr>bm_block = 6, bm_mapped = 0\<rparr>" "bmt_ent sim_v2 3 = \<lparr>bm_block = 7, bm_mapped = 2\<rparr>"
  by (simp_all add: sim_v2_def bb_ent_def bmt_ent_def)

lemma less_4_iff: "(n :: nat) < 4 \<longleftrightarrow> n = 0 \<or> n = Suc 0 \<or> n = 2 \<or> n = 3"
  by linarith

lemma sim_v2_inv: "v2_inv sim_desc sim_v2"
proof -
  have inj: "inj_on (bb_ent sim_v2) {..<4}"
    by (auto simp: inj_on_def less_4_iff sim_v2_ents)
  have "bm_block (bmt_ent sim_v2 i) < 8" if "i < 4" for i
    using that by (auto simp: less_4_iff sim_v2_ents)
  moreover have "bb_ent sim_v2 i < 8" if "i < 4" for i
    using that by (auto simp: less_4_iff sim_v2_ents)
  moreover have "i = j" if "i < 4" "j < 4" "bm_block (bmt_ent sim_v2 i) = bm_block (bmt_ent sim_v2 j)" for i j
    using that by (auto simp: less_4_iff sim_v2_ents)
  moreover have "bm_block (bmt_ent sim_v2 i) \<notin> v2_mapped sim_desc sim_v2"
    if "i < 4" "pool_free (bmt_ent sim_v2 i)" for i
    using that by (auto simp: less_4_iff sim_v2_ents pool_free_def v2_mapped_def)
  moreover have "length (bb_tbl sim_v2) = 8" by (simp add: sim_v2_def)
  ultimately show ?thesis
    using inj unfolding v2_inv_def sim_v2_ents sim_desc_geometry by simp
qed

lemma sim_v2_ready: "v2_ready sim_desc sim_v2" "\<not> bb_lost sim_v2"
  using sim_v2_inv by (simp_all add: v2_ready_def sim_v2_ents) (simp_all add: sim_v2_def)

lemma remap_block_v2_inv:
  assumes ready: "v2_ready b t" and blk: "unat block < unat (pool_lba b)"
    and run: "remap_block_v2 b block mapped copy_len t d = (ok, t', d')"
  shows "v2_inv b t'" "v2_ready b t' \<or> bmt_blk_idx t' = 0xffff" "bb_lost t' \<longleftrightarrow> bb_lost t \<or> (ok \<and> bmt_blk_idx t' = 0xffff)"
proof -
  have inv: "v2_inv b t" and idx: "unat (bmt_blk_idx t) < length (bmt_tbl t)" using ready by (simp_all add: v2_ready_def)
  have "v2_inv b t' \<and> (v2_ready b t' \<or> bmt_blk_idx t' = 0xffff) \<and> (bb_lost t' \<longleftrightarrow> bb_lost t \<or> (ok \<and> bmt_blk_idx t' = 0xffff))"
    using run
  proof (cases rule: remap_block_v2_cases)
    case full
    with inv ready show ?thesis by simp
  next
    case (moved i u)
    have "i < length (bmt_tbl t)" using moved(2) idx by simp
    then have "v2_inv b u"
      using v2_inv_assign [OF inv _ moved(3) blk] moved(5) by simp
    then have "v2_inv b t'"
      using moved(6) by (rule v2_inv_shrinks)
    moreover have "length (bmt_tbl t') = length (bmt_tbl t)" using moved(5,6) by (simp add: pool_shrinks_def)
    ultimately show ?thesis using moved(1,7,8) idx by (auto simp: v2_ready_def)
  qed
  then show "v2_inv b t'" "v2_ready b t' \<or> bmt_blk_idx t' = 0xffff" "bb_lost t' \<longleftrightarrow> bb_lost t \<or> (ok \<and> bmt_blk_idx t' = 0xffff)"
    by simp_all
qed

lemma remap_block_v2_lost:
  assumes "remap_block_v2 b block mapped copy_len t d = (ok, t', d')" "bb_lost t"
  shows "bb_lost t'"
  using assms(1) by (cases rule: remap_block_v2_cases) (use assms(2) in simp_all)

text \<open>
  The driver's view of the back end: every block of the data area translates to a block of
  the chip. The laws of \<open>bmt_backend\<close> hold on every table that satisfies the invariant.
\<close>

lemma v2_inv_pool_lba:
  assumes "v2_inv b t"
  shows "unat (pool_lba b) \<le> unat (total_blks b)"
proof -
  have "unat ` bb_ent t ` {..<unat (pool_lba b)} \<subseteq> {..<unat (total_blks b)}"
    using assms by (auto simp: v2_inv_def word_less_unat)
  then have "card (unat ` bb_ent t ` {..<unat (pool_lba b)}) \<le> unat (total_blks b)"
    using card_mono [of "{..<unat (total_blks b)}"] by simp
  moreover have "inj_on unat (bb_ent t ` {..<unat (pool_lba b)})"
    by (simp add: inj_on_def word_unat_eq_iff)
  moreover have "inj_on (bb_ent t) {..<unat (pool_lba b)}" using assms by (simp add: v2_inv_def)
  ultimately show ?thesis by (simp add: card_image)
qed

lemma get_mapping_v2_bound:
  assumes "v2_inv b t" "unat (k :: u16) < unat (pool_lba b)"
  shows "0 \<le> get_mapping_block_index_v2 b (uint k) t" "get_mapping_block_index_v2 b (uint k) t < uint (total_blks b)"
proof -
  have "k < pool_lba b" "pool_lba b \<le> total_blks b"
    using assms(2) v2_inv_pool_lba [OF assms(1)] by (simp_all add: word_less_unat word_le_unat)
  then have "uint k < uint (pool_lba b)" "uint (pool_lba b) \<le> uint (total_blks b)"
    by (simp_all add: word_less_def word_le_def)
  moreover have "uint (bb_ent t (unat k)) < uint (total_blks b)"
    using assms by (simp add: v2_inv_def flip: word_less_def)
  ultimately show "get_mapping_block_index_v2 b (uint k) t < uint (total_blks b)"
    by (cases "mapping_block_in_range b (uint k)") (simp_all add: get_mapping_block_index_v2_def)
  show "0 \<le> get_mapping_block_index_v2 b (uint k) t"
    by (simp add: get_mapping_block_index_v2_def split: option.split)
qed

text \<open>
  What requests keep: until an upload finds no place for the table, the table is consistent and
  its index is inside the pool. After that the scan of the pool reads and writes the memory
  behind it, and nothing is promised of the table.
\<close>

definition v2_safe :: "'d bmt_desc \<Rightarrow> bbbt \<Rightarrow> bool" where
  "v2_safe b t \<longleftrightarrow> bb_lost t \<or> v2_ready b t"

lemma remap_block_v2_safe:
  assumes "v2_safe b t" "unat block < unat (pool_lba b)"
    and "remap_block_v2 b block mapped copy_len t d = (ok, t', d')"
  shows "v2_safe b t'"
proof (cases "bb_lost t")
  case True
  then show ?thesis using remap_block_v2_lost [OF assms(3)] by (simp add: v2_safe_def)
next
  case False
  then have ready: "v2_ready b t" using assms(1) by (simp add: v2_safe_def)
  show ?thesis
  proof (cases ok)
    case True
    then show ?thesis using remap_block_v2_inv(2,3) [OF ready assms(2,3)] by (auto simp: v2_safe_def)
  next
    case False
    from assms(3) have "t' = t" by (cases rule: remap_block_v2_cases) (use False in simp_all)
    then show ?thesis using assms(1) by simp
  qed
qed

lemma v2_safe_inv: "v2_safe b t \<Longrightarrow> \<not> bb_lost t \<Longrightarrow> v2_inv b t"
  by (simp add: v2_safe_def v2_ready_def)

interpretation v2: bmt_backend b mtk_bmt_v2_ops "v2_safe b" "\<lambda>k. unat k < unat (pool_lba b)"
  bb_lost "\<lambda>k. unat k < unat (pool_lba b)" "uint (total_blks b)"
  for b :: "'d bmt_desc"
  by unfold_locales
    (simp_all only: mtk_bmt_v2_ops_def mtk_bmt_ops.select_convs get_mapping_v2_bound v2_safe_inv simp_thms remap_block_v2_safe)

text \<open>
  C6. A remap of the version 2 back end keeps the table invariant, so the mapping of the
  data area stays injective and on the chip whatever the device does: the new physical
  block was free in the pool and is taken out of it, even when erasing, copying or storing
  the table fails. The index of the table must lie inside the pool before the remap, and does so
  after it unless no pool block took the table, which leaves 0xffff.
\<close>

theorem v2_remap_keeps_inv:
  assumes "v2_inv b t" "unat (bmt_blk_idx t) < length (bmt_tbl t)" "unat block < unat (pool_lba b)"
    and "remap_block_v2 b block mapped copy_len t d = (ok, t', d')"
  shows "v2_inv b t' \<and> (unat (bmt_blk_idx t') < length (bmt_tbl t') \<or> bmt_blk_idx t' = 0xffff)"
proof -
  have "v2_ready b t" using assms(1,2) by (simp add: v2_ready_def)
  from remap_block_v2_inv(1,2) [OF this assms(3,4)] show ?thesis by (auto simp: v2_ready_def)
qed

theorem v2_remap_keeps_inv_witness: "\<exists>t' d'. remap_block_v2 sim_desc 1 1 8 sim_v2 sim_chip = (True, t', d') \<and>
    v2_inv sim_desc t' \<and> bmt_blk_idx t' = 3"
proof -
  obtain ok t' d' where run: "remap_block_v2 sim_desc 1 1 8 sim_v2 sim_chip = (ok, t', d')"
    by (rule prod_cases3)
  moreover have "(case remap_block_v2 sim_desc 1 1 8 sim_v2 sim_chip of (ok, t', d') \<Rightarrow> ok \<and> bmt_blk_idx t' = 3)"
    by code_simp
  ultimately show ?thesis
    using v2_remap_keeps_inv [OF sim_v2_inv _ _ run] sim_v2_ready by (auto simp: v2_ready_def)
qed

section \<open>The scan establishes the invariant\<close>

text \<open>A strictly increasing prefix, and its extension by a larger element.\<close>

lemma sorted_take_last:
  assumes "sorted_wrt (<) (take i tbl)" "1 \<le> i" "i \<le> length tbl" "x \<in> set (take i tbl)"
  shows "x \<le> (tbl ! (i - 1) :: 'a::linorder)"
proof -
  have "take i tbl = take (i - 1) tbl @ [tbl ! (i - 1)]"
    using assms(2,3) take_Suc_conv_app_nth [of "i - 1" tbl] by simp
  with assms(1,4) show ?thesis
    by (auto simp: sorted_wrt_append)
qed

lemma last_mem_take: "1 \<le> i \<Longrightarrow> i \<le> length tbl \<Longrightarrow> tbl ! (i - 1) \<in> set (take i tbl)"
  by (auto simp: in_set_conv_nth intro!: exI [of _ "i - 1"])

lemma scan_data_loop_sorted:
  assumes "scan_data_loop b i tbl d = (True, tbl', d')" "1 \<le> i" "i \<le> length tbl"
      "unat (pool_lba b) \<le> length tbl"
    and "sorted_wrt (<) (take i tbl)" "\<forall>x \<in> set (take i tbl). x < total_blks b"
  shows "length tbl' = length tbl \<and> sorted_wrt (<) (take (max i (unat (pool_lba b))) tbl') \<and>
         (\<forall>x \<in> set (take (max i (unat (pool_lba b))) tbl'). x < total_blks b)"
  using assms
proof (induction b i tbl d rule: scan_data_loop.induct)
  case (1 b i tbl d)
  show ?case
  proof (cases "i < unat (pool_lba b)")
    case False
    with "1.prems" show ?thesis
      by (subst (asm) scan_data_loop.simps) (simp add: max_def)
  next
    case True
    obtain blk d1 where f: "find_valid_block b d (tbl ! (i - 1) + 1) = (blk, d1)" by fastforce
    have prev: "tbl ! (i - 1) < total_blks b"
      using "1.prems"(6) last_mem_take [OF "1.prems"(2,3)] by blast
    have "(if blk = 0 then (False, tbl[i := blk], d1) else scan_data_loop b (Suc i) (tbl[i := blk]) d1)
        = (True, tbl', d')"
      using "1.prems"(1) True f by (subst (asm) scan_data_loop.simps) (simp add: Let_def)
    then have nz: "blk \<noteq> 0" and rest: "scan_data_loop b (Suc i) (tbl[i := blk]) d1 = (True, tbl', d')"
      by (simp_all split: if_splits)
    have up: "tbl ! (i - 1) < blk" "blk < total_blks b"
      using find_valid_block_bounds [OF f nz] unat_inc [OF prev]
      by (simp_all add: word_less_unat word_le_unat)
    have tk: "take (Suc i) (tbl[i := blk]) = take i tbl @ [blk]"
      using True "1.prems"(4) by (simp add: take_Suc_conv_app_nth)
    have "\<forall>x \<in> set (take i tbl). x < blk"
      using sorted_take_last [OF "1.prems"(5,2,3)] up(1) by (blast intro: order_le_less_trans)
    then have s: "sorted_wrt (<) (take (Suc i) (tbl[i := blk]))"
        "\<forall>x \<in> set (take (Suc i) (tbl[i := blk])). x < total_blks b"
      using "1.prems"(5,6) up(2) by (auto simp: tk sorted_wrt_append)
    have "length tbl' = length (tbl[i := blk]) \<and>
        sorted_wrt (<) (take (max (Suc i) (unat (pool_lba b))) tbl') \<and>
        (\<forall>x \<in> set (take (max (Suc i) (unat (pool_lba b))) tbl'). x < total_blks b)"
      by (rule "1.IH" [OF True f [symmetric] refl refl nz rest]) (use True "1.prems"(4) s in simp_all)
    then show ?thesis
      using True by (simp add: max_def)
  qed
qed

text \<open>
  The pool after \<open>i\<close> entries: their blocks rise from \<open>pba\<close>, stay below \<open>lim\<close> and are free;
  the rest of the array is still zero.
\<close>

definition pool_built :: "u16 \<Rightarrow> nat \<Rightarrow> nat \<Rightarrow> bbmt list \<Rightarrow> bool" where
  "pool_built pba lim i tbl \<longleftrightarrow>
     i \<le> length tbl \<and> sorted_wrt (\<lambda>e f. bm_block e < bm_block f) (take i tbl) \<and>
     (\<forall>e \<in> set (take i tbl). pba \<le> bm_block e \<and> unat (bm_block e) < lim \<and> bm_mapped e = NO_MAPPED) \<and>
     (\<forall>e \<in> set (drop i tbl). bm_block e = 0)"

lemma pool_built_step:
  assumes "pool_built pba lim i tbl" "i < length tbl" "pba \<le> blk" "lim \<le> unat blk" "unat blk < lim'"
  shows "pool_built pba lim' (Suc i) (tbl[i := \<lparr>bm_block = blk, bm_mapped = NO_MAPPED\<rparr>])"
proof -
  have tk: "take (Suc i) (tbl[i := \<lparr>bm_block = blk, bm_mapped = NO_MAPPED\<rparr>]) =
      take i tbl @ [\<lparr>bm_block = blk, bm_mapped = NO_MAPPED\<rparr>]"
    using assms(2) by (simp add: take_Suc_conv_app_nth)
  have "set (drop (Suc i) tbl) \<subseteq> set (drop i tbl)"
    by (rule set_drop_subset_set_drop) simp
  with assms show ?thesis
    unfolding pool_built_def tk
    by (force simp: sorted_wrt_append word_less_unat)
qed

lemma scan_pool_loop_built:
  assumes "scan_pool_loop b block i tbl d = (n, tbl', d')"
    and "pool_built pba (unat block) i tbl" "pba \<le> block" "i \<le> unat block - unat pba"
    and "unat block \<le> unat (total_blks b)" "unat (total_blks b) \<le> length tbl"
  shows "length tbl' = length tbl \<and> pool_built pba (unat (total_blks b)) n tbl' \<and> n \<le> unat (total_blks b)"
  using assms
proof (induction b block i tbl d rule: scan_pool_loop.induct)
  case (1 b block i tbl d)
  obtain blk d1 where f: "find_valid_block b d block = (blk, d1)" by fastforce
  show ?case
  proof (cases "blk = 0")
    case True
    with "1.prems" f show ?thesis
      by (subst (asm) scan_pool_loop.simps) (auto simp: pool_built_def)
  next
    case False
    let ?t = "tbl[i := \<lparr>bm_block = blk, bm_mapped = NO_MAPPED\<rparr>]"
    from find_valid_block_bounds [OF f False] have fb: "block \<le> blk" "blk < total_blks b" by simp_all
    then have nb: "unat (blk + 1) = Suc (unat blk)" "unat block \<le> unat blk" "unat blk < unat (total_blks b)"
      by (simp_all add: word_le_unat word_less_unat)
    have rest: "scan_pool_loop b (blk + 1) (Suc i) ?t d1 = (n, tbl', d')"
      using "1.prems"(1) False f by (subst (asm) scan_pool_loop.simps) (simp add: Let_def)
    have pb: "unat pba \<le> unat block" using "1.prems"(3) by (simp add: word_le_unat)
    have "pool_built pba (unat (blk + 1)) (Suc i) ?t"
      by (rule pool_built_step [OF "1.prems"(2)]) (use "1.prems" nb pb in \<open>simp_all add: word_le_unat\<close>)
    then have "length tbl' = length ?t \<and> pool_built pba (unat (total_blks b)) n tbl' \<and> n \<le> unat (total_blks b)"
      by (intro "1.IH" [OF f [symmetric] refl False rest]) (use "1.prems" nb pb in \<open>simp_all add: word_le_unat\<close>)
    then show ?thesis by simp
  qed
qed

lemma pool_built_used:
  assumes "pool_built pba lim n tbl" "i < length tbl" "bm_block (tbl ! i) \<noteq> 0"
  shows "i < n" "pba \<le> bm_block (tbl ! i)" "unat (bm_block (tbl ! i)) < lim"
proof -
  show n: "i < n"
  proof (rule ccontr)
    assume "\<not> i < n"
    with assms(2) have "tbl ! i \<in> set (drop n tbl)"
      by (auto simp: in_set_conv_nth intro!: exI [of _ "i - n"])
    with assms(1,3) show False by (auto simp: pool_built_def)
  qed
  then have "tbl ! i \<in> set (take n tbl)"
    using assms(2) by (auto simp: in_set_conv_nth intro!: exI [of _ i])
  with assms(1) show "pba \<le> bm_block (tbl ! i)" "unat (bm_block (tbl ! i)) < lim"
    by (auto simp: pool_built_def)
qed

lemma pool_built_inj:
  assumes "pool_built pba lim n tbl" "i < length tbl" "j < length tbl" "bm_block (tbl ! i) \<noteq> 0"
    and "bm_block (tbl ! i) = bm_block (tbl ! j)"
  shows "i = j"
proof -
  have "i < n" "j < n"
    using pool_built_used(1) [OF assms(1,2)] pool_built_used(1) [OF assms(1,3)] assms(4,5) by simp_all
  with assms(1-3) have "i < j \<Longrightarrow> bm_block (tbl ! i) < bm_block (tbl ! j)"
      "j < i \<Longrightarrow> bm_block (tbl ! j) < bm_block (tbl ! i)"
    by (simp_all add: pool_built_def sorted_wrt_iff_nth_less)
  with assms(5) show ?thesis by (cases i j rule: linorder_cases) simp_all
qed

lemma v2_inv_from_scan:
  assumes srt: "sorted_wrt (<) (take m (bb_tbl t))" "\<forall>x \<in> set (take m (bb_tbl t)). x < pba"
    and m: "m = unat (pool_lba b)" "m \<le> length (bb_tbl t)" "pba \<le> total_blks b" "0 < total_blks b"
    and built: "pool_built pba (unat (total_blks b)) n tbl"
    and len: "length (bmt_tbl t) = length tbl"
    and blk: "\<And>i. i < length tbl \<Longrightarrow> bm_block (bmt_ent t i) = bm_block (tbl ! i)"
  shows "v2_inv b t"
proof -
  have bb: "bb_ent t i = bb_tbl t ! i" "bb_ent t i < pba" if "i < m" for i
  proof -
    show e: "bb_ent t i = bb_tbl t ! i" using that m(2) by (simp add: bb_ent_def)
    have "take m (bb_tbl t) ! i \<in> set (take m (bb_tbl t))" using that m(2) by (intro nth_mem) simp
    with srt(2) e that show "bb_ent t i < pba" by simp
  qed
  have inj: "inj_on (bb_ent t) {..<m}"
  proof (rule linorder_inj_onI)
    fix x y :: nat
    assume "x < y" "x \<in> {..<m}" "y \<in> {..<m}"
    with srt(1) m(2) have "bb_tbl t ! x < bb_tbl t ! y"
      by (simp add: sorted_wrt_iff_nth_less)
    with \<open>x \<in> _\<close> \<open>y \<in> _\<close> show "bb_ent t x \<noteq> bb_ent t y" by (simp add: bb(1))
  qed auto
  have ent: "bm_block (bmt_ent t i) < total_blks b"
      "bm_block (bmt_ent t i) \<noteq> 0 \<Longrightarrow> bm_block (bmt_ent t i) \<notin> v2_mapped b t" if "i < length tbl" for i
  proof -
    show "bm_block (bmt_ent t i) < total_blks b"
      using pool_built_used(3) [OF built that] m(4) blk [OF that]
      by (cases "bm_block (tbl ! i) = 0") (simp_all add: word_less_unat)
    assume nz: "bm_block (bmt_ent t i) \<noteq> 0"
    show "bm_block (bmt_ent t i) \<notin> v2_mapped b t"
    proof
      assume "bm_block (bmt_ent t i) \<in> v2_mapped b t"
      then obtain j where "j < m" "bm_block (bmt_ent t i) = bb_ent t j"
        unfolding v2_mapped_def m(1) by blast
      with bb(2) [of j] pool_built_used(2) [OF built that] nz blk [OF that] show False by simp
    qed
  qed
  have "i = j" if "i < length tbl" "j < length tbl" "bm_block (bmt_ent t i) \<noteq> 0"
      "bm_block (bmt_ent t i) = bm_block (bmt_ent t j)" for i j
    using pool_built_inj [OF built that(1,2)] that by (simp add: blk)
  with inj ent bb(2) m show ?thesis
    unfolding v2_inv_def len pool_free_def m(1) [symmetric]
    by (meson order_less_le_trans)
qed

lemma pool_built_fresh: "\<forall>e \<in> set tbl. bm_block e = 0 \<Longrightarrow> pool_built pba lim 0 tbl"
  by (simp add: pool_built_def)

lemma scan_bad_blocks_success:
  assumes "scan_bad_blocks b t d = (0, t', d')" "1 \<le> unat (pool_lba b)"
  obtains tbl d1 pba n pool d2 t3 idx where
    "scan_data_loop b 1 ((bb_tbl t)[0 := 0]) d = (True, tbl, d1)"
    "pba = tbl ! (unat (pool_lba b) - 1) + 1" "uint pba < uint (total_blks b) - 2"
    "scan_pool_loop b pba 0 (bmt_tbl t) d1 = (n, pool, d2)"
    "t3 = t\<lparr>bb_tbl := tbl, pool_pba := pba, bmt_tbl := pool, bmt_blk_idx := idx\<rparr>" "idx = of_nat n - 1" "1 \<le> n"
    "t' = bmt_put t3 (unat idx) ((bmt_ent t3 (unat idx))\<lparr>bm_mapped := BMT_MAPPED\<rparr>)"
proof -
  obtain ok tbl d1 where sd: "scan_data_loop b 1 ((bb_tbl t)[0 := 0]) d = (ok, tbl, d1)"
    by (cases "scan_data_loop b 1 ((bb_tbl t)[0 := 0]) d")
  define pba where "pba = tbl ! (unat (pool_lba b) - 1) + 1"
  obtain n pool d2 where sp: "scan_pool_loop b pba 0 (bmt_tbl t) d1 = (n, pool, d2)"
    by (cases "scan_pool_loop b pba 0 (bmt_tbl t) d1")
  have mx: "max 1 (unat (pool_lba b)) = unat (pool_lba b)" using assms(2) by simp
  define t3 where "t3 = t\<lparr>bb_tbl := tbl, pool_pba := pba, bmt_tbl := pool, bmt_blk_idx := of_nat n - 1\<rparr>"
  have ok using assms(1) unfolding scan_bad_blocks_def Let_def sd by (cases ok) simp_all
  note eq = assms(1) [unfolded scan_bad_blocks_def Let_def sd mx prod.case pba_def [symmetric]]
  have lim: "\<not> uint (total_blks b) - 2 \<le> uint pba"
    using eq \<open>ok\<close> by (cases "uint (total_blks b) - 2 \<le> uint pba") simp_all
  have "\<not> n < 1" using eq \<open>ok\<close> lim sp by (cases "n < 1") simp_all
  with eq \<open>ok\<close> lim sp
  have "t' = bmt_put t3 (unat (of_nat n - 1 :: u16)) ((bmt_ent t3 (unat (of_nat n - 1 :: u16)))\<lparr>bm_mapped := BMT_MAPPED\<rparr>)"
    unfolding t3_def by simp
  with sd sp \<open>ok\<close> lim \<open>\<not> n < 1\<close> show thesis
    using that [of tbl d1 pba n pool d2 t3 "of_nat n - 1"] unfolding pba_def t3_def by simp
qed

lemma scan_bad_blocks_inv:
  assumes "scan_bad_blocks b t d = (0, t', d')"
    and "1 \<le> unat (pool_lba b)" "unat (pool_lba b) \<le> length (bb_tbl t)"
    and "unat (total_blks b) \<le> length (bmt_tbl t)" "\<forall>e \<in> set (bmt_tbl t). bm_block e = 0"
  shows "v2_inv b t' \<and> unat (bmt_blk_idx t') < length (bmt_tbl t') \<and> unat (bmt_blk_idx t') < unat (total_blks b) \<and> bb_lost t' = bb_lost t"
  using assms(1,2)
proof (cases rule: scan_bad_blocks_success)
  case (1 tbl d1 pba n pool d2 t3 idx)
  let ?m = "unat (pool_lba b)"
  have tot: "unat pba < unat (total_blks b)" "0 < total_blks b" "pba \<le> total_blks b"
  proof -
    have lt: "pba < total_blks b" using 1(3) by (simp add: word_less_def)
    then show "unat pba < unat (total_blks b)" "pba \<le> total_blks b"
      by (simp_all add: word_less_unat word_le_unat)
    show "0 < total_blks b" using lt order_le_less_trans [OF word_zero_le] by blast
  qed
  have start: "take 1 ((bb_tbl t)[0 := 0]) = [0]"
    using assms(2,3) by (cases "bb_tbl t") auto
  have "length tbl = length ((bb_tbl t)[0 := 0]) \<and> sorted_wrt (<) (take (max 1 ?m) tbl) \<and>
      (\<forall>x \<in> set (take (max 1 ?m) tbl). x < total_blks b)"
    by (rule scan_data_loop_sorted [OF 1(1)]) (use start assms(2,3) tot in simp_all)
  then have tb: "length tbl = length (bb_tbl t)" "sorted_wrt (<) (take ?m tbl)"
      "\<forall>x \<in> set (take ?m tbl). x < total_blks b"
    using assms(2) by (simp_all add: max_def split: if_splits)
  have last: "tbl ! (?m - 1) \<in> set (take ?m tbl)"
    using last_mem_take [of ?m tbl] assms(2,3) tb(1) by simp
  have below: "\<forall>x \<in> set (take ?m tbl). x < pba"
  proof
    fix x
    assume "x \<in> set (take ?m tbl)"
    from sorted_take_last [OF tb(2) _ _ this] have "x \<le> tbl ! (?m - 1)" using assms(2,3) tb(1) by simp
    moreover have "unat pba = Suc (unat (tbl ! (?m - 1)))"
      unfolding 1(2) using tb(3) last by (intro unat_inc) blast
    ultimately show "x < pba" by (simp add: word_less_unat word_le_unat)
  qed
  have pool: "length pool = length (bmt_tbl t) \<and> pool_built pba (unat (total_blks b)) n pool \<and> n \<le> unat (total_blks b)"
    by (rule scan_pool_loop_built [OF 1(4)]) (use pool_built_fresh [OF assms(5)] assms(4) tot in simp_all)
  have t': "bb_tbl t' = tbl" "length (bmt_tbl t') = length pool"
      "\<And>i. i < length pool \<Longrightarrow> bm_block (bmt_ent t' i) = bm_block (pool ! i)"
    unfolding 1(5,8) by (auto simp: bmt_put_def bmt_ent_def nth_list_update)
  have "unat (of_nat n :: u16) = n"
    using pool unat_less_2p [of "total_blks b"] by (intro unat_of_nat_small) simp
  then have "unat idx = n - 1" using 1(6,7) by (simp add: unat_sub word_le_unat)
  then have "unat (bmt_blk_idx t') < length (bmt_tbl t')" "unat (bmt_blk_idx t') < unat (total_blks b)" "bb_lost t' = bb_lost t"
    using 1(7) pool assms(4) unfolding t'(2) by (auto simp: 1(5,8))
  moreover have "v2_inv b t'"
    by (rule v2_inv_from_scan [where pba = pba and n = n and tbl = pool and m = ?m])
      (use t' tb below pool tot assms(3) in simp_all)
  ultimately show ?thesis by simp
qed

text \<open>
  C7. A scan that succeeds establishes the invariant: the data table lists good blocks in
  strictly rising order and the pool lists the good blocks behind them, each once.
\<close>

theorem v2_scan_establishes_inv:
  assumes "scan_bad_blocks b t d = (0, t', d')"
    and "1 \<le> unat (pool_lba b)" "unat (pool_lba b) \<le> length (bb_tbl t)"
    and "unat (total_blks b) \<le> length (bmt_tbl t)" "\<forall>e \<in> set (bmt_tbl t). bm_block e = 0"
  shows "v2_inv b t'"
  using scan_bad_blocks_inv [OF assms] by simp

theorem v2_scan_establishes_inv_witness: "\<exists>t' d'. scan_bad_blocks sim_desc sim_v2_blank sim_chip = (0, t', d') \<and> v2_inv sim_desc t'"
proof -
  obtain ret t' d' where run: "scan_bad_blocks sim_desc sim_v2_blank sim_chip = (ret, t', d')"
    by (rule prod_cases3)
  moreover have "fst (scan_bad_blocks sim_desc sim_v2_blank sim_chip) = 0"
    by code_simp
  ultimately have run0: "scan_bad_blocks sim_desc sim_v2_blank sim_chip = (0, t', d')"
    by simp
  then show ?thesis
    using v2_scan_establishes_inv [OF run0] by (simp add: sim_v2_blank_def)
qed

lemma length_v2_decode [simp]: "length (bb_tbl (v2_decode n buf)) = n"
  by (simp add: v2_decode_def)

text \<open>An erased chip of eight blocks of four pages.\<close>

definition v2_dev :: "bytes bmt_desc" where
  "v2_dev = sim_desc\<lparr>mtd_size := 512, mtd_erasesize := 64, mtd_erasesize_mask := 63, pg_size := 16, blk_size := 64,
     pg_shift := 4, blk_shift := 6, remap_range := []\<rparr>"

text \<open>
  C27. Attaching the version 2 back end to a chip that holds no stored table: when it succeeds,
  the table in memory satisfies the invariant, also where storing it cost pool blocks, the index
  of the table is one of the pool and no upload has failed: what requests start from.
\<close>

theorem v2_init_establishes_inv:
  assumes "mtk_bmt_init_v2 b ps oo (Some ts) True mem t d = Some (0, b', t', d')"
    and "v2_search b' (unat ts) mem (v2_bufsz ts (pg_size b)) (total_blks b - 1) (replicate (unat (v2_bufsz ts (pg_size b))) 0xff) d =
      Some ((None, buf), d1)"
    and "1 \<le> unat (pool_lba b')" "pool_lba b' \<le> total_blks b" "unat (total_blks b) \<le> unat ts"
  shows "v2_inv b' t' \<and> unat (bmt_blk_idx t') < length (bmt_tbl t') \<and> \<not> bb_lost t'"
proof -
  have b': "b' = v2_configure b (case ps of None \<Rightarrow> 80 | Some n \<Rightarrow> n) (case oo of None \<Rightarrow> 0 | Some n \<Rightarrow> n) ts"
    using assms(1) by (auto simp: mtk_bmt_init_v2_def Let_def split: if_splits option.splits prod.splits)
  have tot: "total_blks b' = total_blks b" by (simp add: b' v2_configure_def Let_def)
  define t1 where "t1 = (v2_decode (unat ts) (buf_mem mem buf))\<lparr>bmt_tbl := replicate (unat ts) \<lparr>bm_block = 0, bm_mapped = 0\<rparr>\<rparr>"
  obtain t2 d2 t3 d3 where scan: "scan_bad_blocks b' t1 d1 = (0, t2, d2)" and up: "upload_table b' t2 d2 = (t3, d3)" "t' = t3"
    "bmt_blk_idx t3 \<noteq> 0xffff"
    using assms(1,2) unfolding mtk_bmt_init_v2_def
    by (auto simp: Let_def b' t1_def split: if_splits prod.splits)
  have t2: "v2_inv b' t2 \<and> unat (bmt_blk_idx t2) < length (bmt_tbl t2) \<and> unat (bmt_blk_idx t2) < unat (total_blks b') \<and> bb_lost t2 = bb_lost t1"
    using assms(3-5) by (intro scan_bad_blocks_inv [OF scan]) (simp_all add: t1_def tot word_le_unat)
  have "length (bmt_tbl t3) = length (bmt_tbl t2)"
    using upload_table_shrinks [OF up(1)] by (simp add: pool_shrinks_def)
  moreover have "v2_inv b' t3" using t2 upload_table_shrinks [OF up(1)] by (blast intro: v2_inv_shrinks)
  moreover have "\<not> bb_lost t1" by (simp add: t1_def v2_decode_def)
  ultimately show ?thesis
    unfolding up(2) using t2 up(3) upload_table_idx [OF up(1)] by auto
qed

theorem v2_init_establishes_inv_witness:
  "\<exists>b' t' d'. mtk_bmt_init_v2 v2_dev (Some 3) None (Some 8) True (\<lambda>_. 0) sim_v2_blank (replicate 512 0xff) = Some (0, b', t', d') \<and>
     v2_inv b' t' \<and> unat (bmt_blk_idx t') < length (bmt_tbl t')"
proof -
  let ?run = "mtk_bmt_init_v2 v2_dev (Some 3) None (Some 8) True (\<lambda>_. 0) sim_v2_blank (replicate 512 0xff)"
  have "map_option fst ?run = Some 0" by code_simp
  then obtain b' t' d' where run: "?run = Some (0, b', t', d')" by auto
  then have b': "b' = v2_configure v2_dev 3 0 8"
    by (auto simp: mtk_bmt_init_v2_def Let_def split: if_splits option.splits prod.splits)
  have "map_option (fst \<circ> fst) (v2_search (v2_configure v2_dev 3 0 8) 8 (\<lambda>_. 0) (v2_bufsz 8 16) 7
      (replicate (unat (v2_bufsz 8 16)) 0xff) (replicate 512 0xff)) = Some None" by code_simp
  then obtain buf d1 where search: "v2_search b' (unat (8 :: u32)) (\<lambda>_. 0) (v2_bufsz 8 (pg_size v2_dev)) (total_blks v2_dev - 1)
      (replicate (unat (v2_bufsz 8 (pg_size v2_dev))) 0xff) (replicate 512 0xff) = Some ((None, buf), d1)"
    unfolding b' by (auto simp: v2_dev_def)
  have "unat (pool_lba b') = 5" "total_blks v2_dev = 8" unfolding b' by code_simp+
  then show ?thesis
    using v2_init_establishes_inv [OF run search] run by (auto simp: word_le_unat)
qed

section \<open>The collector keeps the invariant\<close>

lemma free_entry_fields [simp]:
  "length (bmt_tbl (free_entry i t)) = length (bmt_tbl t)" "bb_tbl (free_entry i t) = bb_tbl t"
  by (simp_all add: free_entry_def)

lemma fold_free_entry:
  "bmt_ent (fold free_entry xs t) i = (if i \<in> set xs then (bmt_ent t i)\<lparr>bm_mapped := NO_MAPPED\<rparr> else bmt_ent t i)"
  "length (bmt_tbl (fold free_entry xs t)) = length (bmt_tbl t)" "bb_tbl (fold free_entry xs t) = bb_tbl t"
  by (induction xs arbitrary: t) (auto simp: free_entry_def)

lemma in_unused_entries:
  "i \<in> set (unused_entries t used) \<longleftrightarrow> i \<le> unat (bmt_blk_idx t) \<and> bm_mapped (bmt_ent t i) = NORMAL_MAPPED \<and> i \<notin> set used"
  unfolding unused_entries_def set_filter set_upt by auto

lemma in_mapping_mask:
  assumes "1 \<le> j" "j < main_blocks b" "unat (bb_ent t j) \<noteq> j" "k < unat (bmt_blk_idx t)"
    and "bm_block (bmt_ent t k) = bb_ent t j"
    and "\<And>i. i < k \<Longrightarrow> bm_block (bmt_ent t i) \<noteq> bb_ent t j"
  shows "k \<in> set (mtk_bmt_get_mapping_mask b t)"
proof -
  have "pool_index t (bb_ent t j) = Some k"
    unfolding pool_index_def find_Some_iff using assms(4-6) by (intro exI [of _ k]) simp
  with assms(1-3) show ?thesis
    by (force simp: mtk_bmt_get_mapping_mask_def map_filter_def)
qed

text \<open>
  C20. The debugfs collector keeps the table invariant, under the two conditions its scan
  needs: a pool block can be the image only of a remapped block of the main area other
  than block 0 (the scan starts at 1 and stops before the PMT blocks), and the entry that
  holds the table is not marked as a data block.
\<close>

theorem v2_collector_keeps_inv:
  assumes inv: "v2_inv b t" and deb: "mtk_bmt_debug_v2 b True 100 t d = (0, t', d')"
    and area: "\<And>j k. j < unat (pool_lba b) \<Longrightarrow> k < length (bmt_tbl t) \<Longrightarrow> bm_block (bmt_ent t k) \<noteq> 0 \<Longrightarrow>
      bm_block (bmt_ent t k) = bb_ent t j \<Longrightarrow> 1 \<le> j \<and> j < main_blocks b \<and> unat (bb_ent t j) \<noteq> j"
    and tab: "bm_mapped (bmt_ent t (unat (bmt_blk_idx t))) \<noteq> NORMAL_MAPPED"
  shows "v2_inv b t'"
proof -
  define used where "used = mtk_bmt_get_mapping_mask b t"
  define mx where "mx = unat (bmt_blk_idx t)"
  define freed where "freed = unused_entries t used"
  define t1 where "t1 = fold free_entry freed t"
  have ent: "bmt_ent t1 i = (if i \<in> set freed then (bmt_ent t i)\<lparr>bm_mapped := NO_MAPPED\<rparr> else bmt_ent t i)" for i
    unfolding t1_def by (rule fold_free_entry(1))
  then have blk: "bm_block (bmt_ent t1 i) = bm_block (bmt_ent t i)" for i by simp
  have len: "length (bmt_tbl t1) = length (bmt_tbl t)" "bb_tbl t1 = bb_tbl t"
    by (simp_all add: t1_def fold_free_entry)
  then have bb: "bb_ent t1 = bb_ent t" by (intro ext bb_ent_cong)
  then have same: "v2_mapped b t1 = v2_mapped b t" by (simp add: v2_mapped_def)
  have uniq: "i = k" if "i < length (bmt_tbl t)" "k < length (bmt_tbl t)" "bm_block (bmt_ent t i) \<noteq> 0"
      "bm_block (bmt_ent t i) = bm_block (bmt_ent t k)" for i k
    using inv that unfolding v2_inv_def by blast
  have free: "bm_block (bmt_ent t k) \<notin> v2_mapped b t" if k: "k < length (bmt_tbl t)" "pool_free (bmt_ent t1 k)" for k
  proof
    assume "bm_block (bmt_ent t k) \<in> v2_mapped b t"
    then obtain j where j: "j < unat (pool_lba b)" "bm_block (bmt_ent t k) = bb_ent t j"
      unfolding v2_mapped_def by blast
    have nz: "bm_block (bmt_ent t k) \<noteq> 0" using k by (simp add: blk pool_free_def)
    have "\<not> pool_free (bmt_ent t k)"
      using inv k(1) \<open>bm_block (bmt_ent t k) \<in> v2_mapped b t\<close> unfolding v2_inv_def by blast
    with k(2) have "k \<in> set freed" by (cases "k \<in> set freed") (simp_all add: ent)
    then have "k \<le> mx" "bm_mapped (bmt_ent t k) = NORMAL_MAPPED" "k \<notin> set used"
      unfolding freed_def in_unused_entries mx_def by simp_all
    moreover have "k \<noteq> mx" using calculation(2) tab unfolding mx_def by metis
    moreover have "bm_block (bmt_ent t i) \<noteq> bb_ent t j" if "i < k" for i
      using uniq [of i k] that k(1) nz j(2) by auto
    ultimately show False
      using in_mapping_mask [of j b t k] area [OF j(1) k(1) nz j(2)] j(2) unfolding used_def mx_def by simp
  qed
  have "v2_inv b t1"
    unfolding v2_inv_def len same bb blk
  proof (intro conjI)
    show "\<forall>i<length (bmt_tbl t). \<forall>k<length (bmt_tbl t). bm_block (bmt_ent t i) \<noteq> 0 \<and>
        bm_block (bmt_ent t i) = bm_block (bmt_ent t k) \<longrightarrow> i = k"
      by (intro allI impI, elim conjE, rule uniq) simp_all
  qed (use inv free in \<open>simp_all add: v2_inv_def\<close>)
  moreover have "pool_shrinks t1 t'"
  proof (cases "freed = []")
    case True
    then have "t1 = t'" using deb by (simp add: mtk_bmt_debug_v2_def Let_def t1_def freed_def used_def)
    then show ?thesis by (simp add: pool_shrinks_refl)
  next
    case False
    obtain t2 d2 where u: "upload_table b t1 d = (t2, d2)" by fastforce
    then have "t2 = t'" using deb False by (simp add: mtk_bmt_debug_v2_def Let_def t1_def freed_def used_def)
    then show ?thesis using upload_table_shrinks [OF u] by simp
  qed
  ultimately show ?thesis by (rule v2_inv_shrinks)
qed

theorem v2_collector_keeps_inv_witness: "\<exists>t' d'. mtk_bmt_debug_v2 sim_desc True 100 sim_v2 sim_chip = (0, t', d') \<and> v2_inv sim_desc t'"
proof -
  obtain ret t' d' where run: "mtk_bmt_debug_v2 sim_desc True 100 sim_v2 sim_chip = (ret, t', d')"
    by (rule prod_cases3)
  moreover have "fst (mtk_bmt_debug_v2 sim_desc True 100 sim_v2 sim_chip) = 0"
    by code_simp
  ultimately have run0: "mtk_bmt_debug_v2 sim_desc True 100 sim_v2 sim_chip = (0, t', d')"
    by simp
  have main: "main_blocks sim_desc = 8"
    by code_simp
  have "bm_mapped (bmt_ent sim_v2 (unat (bmt_blk_idx sim_v2))) \<noteq> NORMAL_MAPPED"
    by code_simp
  moreover have "1 \<le> j \<and> j < main_blocks sim_desc \<and> unat (bb_ent sim_v2 j) \<noteq> j"
    if "j < unat (pool_lba sim_desc)" "k < length (bmt_tbl sim_v2)"
      "bm_block (bmt_ent sim_v2 k) = bb_ent sim_v2 j" for j k
    using that by (auto simp: main less_4_iff sim_v2_ents)
  ultimately show ?thesis
    using v2_collector_keeps_inv [OF sim_v2_inv run0] run0 by blast
qed

section \<open>The stored table\<close>

lemma length_le16 [simp]: "length (le16 w) = 2"
  by (simp add: le16_def)

lemma length_bbmt_bytes [simp]: "length (bbmt_bytes e) = 4"
  by (simp add: bbmt_bytes_def)

lemma u16_from_bytes:
  "ucast (ucast w :: u8) OR push_bit 8 (ucast (ucast (drop_bit 8 w) :: u8)) = (w :: u16)"
proof (rule bit_word_eqI)
  fix n
  assume "n < LENGTH(16)"
  then show "bit (ucast (ucast w :: u8) OR push_bit 8 (ucast (ucast (drop_bit 8 w) :: u8)) :: u16) n = bit w n"
    by (cases "n < 8") (auto simp: bit_simps)
qed

lemma rd16_le16: "rd16 (rd8 (le16 w)) 0 = w"
  by (simp add: rd16_def rd8_def le16_def u16_from_bytes)

lemma rd16_append_left: "k + 2 \<le> length xs \<Longrightarrow> rd16 (rd8 (xs @ ys)) k = rd16 (rd8 xs) k"
  by (simp add: rd16_def rd8_append)

lemma rd16_append_right: "length xs \<le> k \<Longrightarrow> rd16 (rd8 (xs @ ys)) k = rd16 (rd8 ys) (k - length xs)"
  by (auto simp: rd16_def rd8_append le_iff_add)

lemma rd16_bbmt_bytes:
  "rd16 (rd8 (bbmt_bytes e)) 0 = bm_block e" "rd16 (rd8 (bbmt_bytes e)) 2 = bm_mapped e"
  by (simp_all add: bbmt_bytes_def rd16_append_left rd16_append_right rd16_le16)

text \<open>An array of elements of \<open>L\<close> bytes each, read at byte \<open>k\<close> of element \<open>i\<close>.\<close>

lemma rd16_array:
  assumes "\<And>x. length (f x) = L" "k + 2 \<le> L"
  shows "i < length xs \<Longrightarrow> rd16 (rd8 (concat (map f xs) @ ys)) (L * i + k) = rd16 (rd8 (f (xs ! i))) k"
proof (induction xs arbitrary: i)
  case (Cons x xs)
  show ?case
  proof (cases i)
    case 0
    then show ?thesis using assms by (simp add: rd16_append_left)
  next
    case (Suc j)
    with Cons assms show ?thesis by (simp add: rd16_append_right)
  qed
qed simp

lemma length_concat_le16 [simp]: "length (concat (map le16 xs)) = 2 * length xs"
  by (induction xs) simp_all

text \<open>The fields of the object representation, whatever follows it.\<close>

lemma v2_encode_reads:
  assumes "length (bb_signature t) = 3" "length (bb_tbl t) = ts" "length (bmt_tbl t) = ts" "i < ts"
  shows "rd16 (rd8 (v2_encode t @ rest)) (4 + 2 * i) = bb_tbl t ! i"
    "rd_bbmt (rd8 (v2_encode t @ rest)) (4 + 2 * ts + 4 * i) = bmt_tbl t ! i"
proof -
  have enc: "v2_encode t @ rest = (bb_signature t @ [bb_version t]) @ concat (map le16 (bb_tbl t)) @
      concat (map bbmt_bytes (bmt_tbl t)) @ rest"
    by (simp add: v2_encode_def)
  show "rd16 (rd8 (v2_encode t @ rest)) (4 + 2 * i) = bb_tbl t ! i"
    unfolding enc using rd16_array [of le16 2 0 i "bb_tbl t"] assms
    by (subst rd16_append_right) (simp_all add: rd16_le16)
  have "rd16 (rd8 (v2_encode t @ rest)) (4 + 2 * ts + 4 * i + k) = rd16 (rd8 (bbmt_bytes (bmt_tbl t ! i))) k"
    if "k + 2 \<le> 4" for k
    unfolding enc using rd16_array [of bbmt_bytes 4 k i "bmt_tbl t" rest] that assms
    by (subst rd16_append_right, simp, subst rd16_append_right) simp_all
  from this [of 0] this [of 2] show "rd_bbmt (rd8 (v2_encode t @ rest)) (4 + 2 * ts + 4 * i) = bmt_tbl t ! i"
    by (simp add: rd_bbmt_def rd16_bbmt_bytes)
qed

text \<open>What the first bytes of an image are, and what lies behind a buffer.\<close>

lemma rd16_cong: "m k = m' k \<Longrightarrow> m (k + 1) = m' (k + 1) \<Longrightarrow> rd16 m k = rd16 m' k"
  by (simp add: rd16_def)

lemma rd_bbmt_cong: "(\<And>j. k \<le> j \<Longrightarrow> j < k + 4 \<Longrightarrow> m j = m' j) \<Longrightarrow> rd_bbmt m k = rd_bbmt m' k"
  by (simp add: rd_bbmt_def rd16_def)

lemma buf_mem_take: "k < n \<Longrightarrow> n \<le> length xs \<Longrightarrow> buf_mem mem (take n xs) k = rd8 xs k"
  by (simp add: buf_mem_def rd8_def)

lemma length_v2_image:
  "length (v2_image n t) = n"
proof -
  have "length (concat (map (\<lambda>i. bbmt_bytes (bmt_past t i)) xs)) = 4 * length xs" for xs
    by (induction xs) simp_all
  then show ?thesis by (simp add: v2_image_def)
qed

text \<open>
  A device that stores what it reports as written: \<open>mem d\<close> are its data bytes, \<open>oob d a\<close> the OOB
  bytes of the page at \<open>a\<close>. A successful erase leaves 0xff, a successful write to erased bytes
  stores them, a successful read returns them. OOB requests are those that fit into one page.
\<close>

definition oob_fits :: "'d bmt_desc \<Rightarrow> mtd_oob_ops \<Rightarrow> bool" where
  "oob_fits b rq \<longleftrightarrow> unat (oo_ooboffs rq) + unat (oo_ooblen rq) \<le> unat (mtd_oobsize b)"

definition stores_pages :: "'d bmt_desc \<Rightarrow> ('d \<Rightarrow> nat \<Rightarrow> u8) \<Rightarrow> ('d \<Rightarrow> nat \<Rightarrow> nat \<Rightarrow> u8) \<Rightarrow> bool" where
  "stores_pages b mem oob \<longleftrightarrow>
     (\<forall>d a len d'. lo_erase b d a len = (0, d') \<longrightarrow>
        (\<forall>x. unat a \<le> x \<and> x < unat a + unat len \<longrightarrow> mem d' x = 0xff \<and> (\<forall>j. oob d' x j = 0xff))) \<and>
     (\<forall>d a rq cur d'. lo_write_oob b d a rq = (0, cur, d') \<and> oob_fits b rq \<and>
        (\<forall>i < unat (oo_len rq). mem d (unat a + i) = 0xff) \<and> (\<forall>j. oob d (unat a) j = 0xff) \<longrightarrow>
        (\<forall>i < unat (oo_len rq). mem d' (unat a + i) = oo_datbuf rq ! i) \<and>
        (\<forall>j. oob d' (unat a) j = (if unat (oo_ooboffs rq) \<le> j \<and> j < unat (oo_ooboffs rq) + unat (oo_ooblen rq)
                                  then oo_oobbuf rq ! (j - unat (oo_ooboffs rq)) else 0xff))) \<and>
     (\<forall>d a rq ret cur d'. lo_read_oob b d a rq = (ret, cur, d') \<and> 0 \<le> ret \<and> oob_fits b rq \<longrightarrow>
        oo_datbuf cur = map (\<lambda>i. mem d (unat a + i)) [0..<unat (oo_len rq)] \<and>
        oo_oobbuf cur = map (\<lambda>i. oob d (unat a) (unat (oo_ooboffs rq) + i)) [0..<unat (oo_ooblen rq)])"

text \<open>The address of a block, as an erase or a write and as a read compute it.\<close>

lemma unat_blk_addr:
  assumes "unat (pg_shift b) \<le> unat (blk_shift b)" "unat blk * 2 ^ unat (blk_shift b) < 2 ^ 32"
  shows "unat (shl64 (ucast blk) (blk_shift b)) = unat blk * 2 ^ unat (blk_shift b)"
    "unat (ucast (push_bit (unat (pg_shift b)) (blk_pg b blk)) :: u64) = unat blk * 2 ^ unat (blk_shift b)"
proof -
  let ?n = "unat blk * 2 ^ unat (blk_shift b)"
  have "shl64 (ucast blk) (blk_shift b) = (of_nat ?n :: u64)"
    by (simp add: shl64_def push_bit_eq_mult)
  then show "unat (shl64 (ucast blk) (blk_shift b)) = ?n"
    using assms(2) by (simp only:) (subst unat_of_nat_small, simp_all)
  have "push_bit (unat (pg_shift b)) (blk_pg b blk) = push_bit (unat (blk_shift b)) (ucast blk :: u32)"
    using assms(1) by (simp add: blk_pg_def push_bit_push_bit)
  also have "\<dots> = of_nat ?n" by (simp add: push_bit_eq_mult)
  finally have "unat (push_bit (unat (pg_shift b)) (blk_pg b blk)) = ?n"
    using assms(2) by (simp only:) (subst unat_of_nat_small, simp_all)
  then show "unat (ucast (push_bit (unat (pg_shift b)) (blk_pg b blk)) :: u64) = ?n" by simp
qed

text \<open>What an erased block holds after a table has been written to it, and what a read returns.\<close>

lemma write_bmt_reads_back:
  assumes dev: "stores_pages b mem oob"
    and geom: "unat (pg_shift b) \<le> unat (blk_shift b)" "unat blk * 2 ^ unat (blk_shift b) < 2 ^ 32"
      "unat (bmt_store_len b) \<le> unat (blk_size b)" "0 < blk_size b" "unat (oob_offset b) + 4 \<le> unat (mtd_oobsize b)"
    and er: "bbt_nand_erase b d0 blk = (0, d1)" and wr: "write_bmt b v2_sig d1 blk dat = (0, d')"
    and len: "length dat = unat (bmt_store_len b)"
    and rd: "bbt_nand_read b d' (blk_pg b blk) (ucast (bmt_store_len b)) 4 = (0, dat', fdm, d'')"
  shows "dat' = dat" "fdm = 0xff # v2_sig"
proof -
  let ?a = "unat blk * 2 ^ unat (blk_shift b)" and ?L = "unat (bmt_store_len b)" and ?o = "unat (oob_offset b)"
  note laws = dev [unfolded stores_pages_def]
  note addr = unat_blk_addr [OF geom(1,2)]
  have uo: "unat (ucast (oob_offset b) :: u64) = ?o"
    using unat_less_2p [of "oob_offset b"] by (intro unat_ucast_small) simp
  then have o: "unat (1 + ucast (oob_offset b) :: u64) = Suc ?o"
    using unat_less_2p [of "oob_offset b"] by (simp add: unat_word_ariths)
  have "\<forall>x. ?a \<le> x \<and> x < ?a + unat (blk_size b) \<longrightarrow> mem d1 x = 0xff \<and> (\<forall>j. oob d1 x j = 0xff)"
    using laws [THEN conjunct1, rule_format, OF er [unfolded bbt_nand_erase_def]] unfolding addr by simp
  then have blank: "\<forall>i < ?L. mem d1 (?a + i) = 0xff" "\<forall>j. oob d1 ?a j = 0xff"
    using geom(3,4) by (auto simp: word_less_unat)
  define rq where "rq = \<lparr>oo_len = ucast (bmt_store_len b), oo_retlen = 0, oo_ooblen = of_nat (length v2_sig), oo_oobretlen = 0,
      oo_ooboffs = 1 + ucast (oob_offset b), oo_datbuf = dat, oo_oobbuf = v2_sig\<rparr>"
  have rq: "unat (oo_len rq) = ?L" "unat (oo_ooblen rq) = 3" "unat (oo_ooboffs rq) = Suc ?o" "oo_datbuf rq = dat" "oo_oobbuf rq = v2_sig"
    by (simp_all add: rq_def o v2_sig_def)
  obtain cur where w: "lo_write_oob b d1 (shl64 (ucast blk) (blk_shift b)) rq = (0, cur, d')"
    using wr by (auto simp: write_bmt_def rq_def bmt_store_len_def Let_def split: prod.splits)
  have fits: "oob_fits b rq" using geom(5) by (simp add: oob_fits_def rq)
  have st: "\<forall>i < ?L. mem d' (?a + i) = dat ! i"
      "\<forall>j. oob d' ?a j = (if Suc ?o \<le> j \<and> j < Suc ?o + 3 then v2_sig ! (j - Suc ?o) else 0xff)"
    using laws [THEN conjunct2, THEN conjunct1, rule_format, of d1 "shl64 (ucast blk) (blk_shift b)" rq cur d'] w fits blank
    unfolding addr rq by simp_all
  define rr where "rr = \<lparr>oo_len = ucast (bmt_store_len b), oo_retlen = 0, oo_ooblen = 4, oo_oobretlen = 0,
      oo_ooboffs = ucast (oob_offset b), oo_datbuf = [], oo_oobbuf = []\<rparr>"
  have rr: "unat (oo_len rr) = ?L" "unat (oo_ooblen rr) = 4" "unat (oo_ooboffs rr) = ?o" by (simp_all add: rr_def uo)
  obtain ret cr where r: "lo_read_oob b d' (ucast (push_bit (unat (pg_shift b)) (blk_pg b blk))) rr = (ret, cr, d'')" "0 \<le> ret"
      "dat' = oo_datbuf cr" "fdm = oo_oobbuf cr"
    using rd by (auto simp: bbt_nand_read_def rr_def Let_def split: prod.splits if_splits)
  have fits': "oob_fits b rr" using geom(5) by (simp add: oob_fits_def rr)
  have bk: "oo_datbuf cr = map (\<lambda>i. mem d' (?a + i)) [0..<?L]" "oo_oobbuf cr = map (\<lambda>i. oob d' ?a (?o + i)) [0..<4]"
    using laws [THEN conjunct2, THEN conjunct2, rule_format, of d' _ rr ret cr d''] r(1,2) fits'
    unfolding rr by (metis addr(2))+
  show "dat' = dat"
    unfolding r(3) bk(1) using st(1) len by (intro nth_equalityI) simp_all
  show "fdm = 0xff # v2_sig"
    unfolding r(4) bk(2) using st(2) by (simp add: v2_sig_def upt_rec)
qed

lemma upload_bmt_stored:
  "upload_bmt n b t d = (idx, t', d') \<Longrightarrow> idx \<noteq> 0xffff \<Longrightarrow> n < 2 ^ 16 \<Longrightarrow>
   \<exists>d0 d1. bbt_nand_erase b d0 (bm_block (bmt_ent t' (unat idx))) = (0, d1) \<and>
     write_bmt b v2_sig d1 (bm_block (bmt_ent t' (unat idx))) (v2_image (unat (bmt_store_len b)) t') = (0, d') \<and>
     bb_signature t' = v2_main_sig \<and> bb_version t' = BBMT_VERSION \<and> unat idx \<le> n"
proof (induction n arbitrary: t d)
  case 0
  from 0(1) show ?case by (cases rule: upload_bmt_cases) (use 0(2) in auto)
next
  case (Suc n)
  have u: "unat (of_nat (Suc n) :: u16) = Suc n" using Suc.prems(3) by (intro unat_of_nat_small) simp
  from Suc.prems(1) show ?case
  proof (cases rule: upload_bmt_cases)
    case stop
    with Suc.prems(2) show ?thesis by simp
  next
    case (stored d1)
    have "unat idx = Suc n" unfolding stored(1) by (rule u)
    with stored show ?thesis by auto
  next
    case (dropped t1 d1)
    with Suc.IH [of t1 d1] Suc.prems show ?thesis by fastforce
  qed
qed

text \<open>
  C19. What \<open>upload_bmt\<close> stores of the table. On a device that stores what it reports as written,
  a successful read of the block that took the table finds it valid and not marked bad, and gives
  the data table and those pool entries back that lie in the pages stored. The pages hold
  \<open>4 + 4 * table_size\<close> bytes, rounded up, of the \<open>4 + 6 * table_size\<close> bytes of the table: an entry
  behind them is not stored, and after a restart it is what the memory behind the buffer holds.
\<close>

theorem v2_upload_reads_back:
  assumes run: "upload_bmt n b t d = (idx, t', d')" "idx \<noteq> 0xffff" "n < 2 ^ 16"
    and dev: "stores_pages b mem oob"
    and geom: "unat (pg_shift b) \<le> unat (blk_shift b)" "unat (bmt_store_len b) \<le> unat (blk_size b)" "0 < blk_size b"
      "unat (oob_offset b) + 4 \<le> unat (mtd_oobsize b)" "unat (total_blks b) * 2 ^ unat (blk_shift b) \<le> 2 ^ 32"
    and tbl: "length (bb_tbl t) = ts" "length (bmt_tbl t) = ts" "n < ts" "4 + 2 * ts \<le> unat (bmt_store_len b)"
      "\<forall>i < ts. bm_block (bmt_ent t i) < total_blks b"
    and rd: "bbt_nand_read b d' (blk_pg b (bm_block (bmt_ent t' (unat idx)))) (ucast (bmt_store_len b)) 4 = (0, dat, fdm, d'')"
  shows "is_valid_bmt dat fdm \<and> rd8 fdm 0 = 0xff \<and> bb_tbl t' = bb_tbl t \<and>
    bb_tbl (v2_decode ts (buf_mem ram dat)) = bb_tbl t \<and>
    (\<forall>i < ts. 4 + 2 * ts + 4 * (i + 1) \<le> unat (bmt_store_len b) \<longrightarrow> bmt_ent (v2_decode ts (buf_mem ram dat)) i = bmt_ent t' i) \<and>
    (\<forall>i < ts. unat (bmt_store_len b) \<le> 4 + 2 * ts + 4 * i \<longrightarrow>
       bmt_ent (v2_decode ts (buf_mem ram dat)) i = rd_bbmt ram (4 + 2 * ts + 4 * i))"
proof -
  let ?L = "unat (bmt_store_len b)" and ?blk = "bm_block (bmt_ent t' (unat idx))"
  obtain d0 d1 where er: "bbt_nand_erase b d0 ?blk = (0, d1)"
    and wr: "write_bmt b v2_sig d1 ?blk (v2_image ?L t') = (0, d')"
    and sg: "bb_signature t' = v2_main_sig" "bb_version t' = BBMT_VERSION" "unat idx \<le> n"
    using upload_bmt_stored [OF run] by blast
  have sh: "pool_shrinks t t'" by (rule upload_bmt_shrinks [OF run(1)])
  then have t': "bb_tbl t' = bb_tbl t" "length (bmt_tbl t') = ts" using tbl by (simp_all add: pool_shrinks_def)
  have "?blk = bm_block (bmt_ent t (unat idx)) \<or> ?blk = 0" using sh by (simp add: pool_shrinks_def)
  moreover have "bm_block (bmt_ent t (unat idx)) < total_blks b" using tbl(3,5) sg(3) by simp
  ultimately have "unat ?blk < unat (total_blks b)" by (auto simp: word_less_unat)
  then have "unat ?blk * 2 ^ unat (blk_shift b) < unat (total_blks b) * 2 ^ unat (blk_shift b)" by simp
  then have a: "unat ?blk * 2 ^ unat (blk_shift b) < 2 ^ 32" using geom(5) by linarith
  have dat: "dat = v2_image ?L t'" and fdm: "fdm = 0xff # v2_sig"
    using write_bmt_reads_back [OF dev geom(1) a geom(2-4) er wr length_v2_image rd] by simp_all
  define past where "past = concat (map (\<lambda>i. bbmt_bytes (bmt_past t' i)) [length (bmt_tbl t')..<length (bmt_tbl t') + ?L])"
  have im: "dat = take ?L (v2_encode t' @ past)" unfolding dat v2_image_def past_def ..
  have len: "length dat = ?L" unfolding dat by (rule length_v2_image)
  then have full: "?L \<le> length (v2_encode t' @ past)" unfolding im by simp
  have get: "buf_mem ram dat k = rd8 (v2_encode t' @ past) k" if "k < ?L" for k
    unfolding im using that full by (rule buf_mem_take)
  have lens: "length (bb_signature t') = 3" "length (bb_tbl t') = ts" using sg(1) t' tbl(1) by (simp_all add: v2_main_sig_def)
  note reads = v2_encode_reads [OF lens t'(2), of _ past]
  have "take 3 dat = v2_main_sig" "rd8 dat 3 = BBMT_VERSION"
    using tbl(4) sg len unfolding im by (simp_all add: v2_encode_def v2_main_sig_def rd8_def)
  then have "is_valid_bmt dat fdm" by (simp add: is_valid_bmt_def fdm v2_sig_def)
  moreover have "rd8 fdm 0 = 0xff" by (simp add: fdm rd8_def)
  moreover have "bb_tbl (v2_decode ts (buf_mem ram dat)) = bb_tbl t'"
  proof (intro nth_equalityI)
    fix i assume "i < length (bb_tbl (v2_decode ts (buf_mem ram dat)))"
    then have i: "i < ts" by simp
    then have "rd16 (buf_mem ram dat) (4 + 2 * i) = rd16 (rd8 (v2_encode t' @ past)) (4 + 2 * i)"
      using tbl(4) by (intro rd16_cong get) simp_all
    then show "bb_tbl (v2_decode ts (buf_mem ram dat)) ! i = bb_tbl t' ! i"
      using reads(1) i by (simp add: v2_decode_def)
  qed (simp add: lens)
  moreover have "bmt_ent (v2_decode ts (buf_mem ram dat)) i = bmt_ent t' i"
    if i: "i < ts" "4 + 2 * ts + 4 * (i + 1) \<le> ?L" for i
  proof -
    have "rd_bbmt (buf_mem ram dat) (4 + 2 * ts + 4 * i) = rd_bbmt (rd8 (v2_encode t' @ past)) (4 + 2 * ts + 4 * i)"
      using i by (intro rd_bbmt_cong get) simp
    then show ?thesis using reads(2) i t'(2) by (simp add: v2_decode_def bmt_ent_def)
  qed
  moreover have "bmt_ent (v2_decode ts (buf_mem ram dat)) i = rd_bbmt ram (4 + 2 * ts + 4 * i)"
    if i: "i < ts" "?L \<le> 4 + 2 * ts + 4 * i" for i
  proof -
    have "rd_bbmt (buf_mem ram dat) (4 + 2 * ts + 4 * i) = rd_bbmt ram (4 + 2 * ts + 4 * i)"
      using i len by (intro rd_bbmt_cong) (simp add: buf_mem_def)
    then show ?thesis using i by (simp add: v2_decode_def bmt_ent_def)
  qed
  ultimately show ?thesis using t'(1) by simp
qed

text \<open>A chip with OOB bytes: eight blocks of 64 bytes in pages of 16, and a table of eight entries in it.\<close>

definition pg_read :: "bytes \<times> (nat \<Rightarrow> nat \<Rightarrow> u8) \<Rightarrow> u64 \<Rightarrow> mtd_oob_ops \<Rightarrow> int \<times> mtd_oob_ops \<times> bytes \<times> (nat \<Rightarrow> nat \<Rightarrow> u8)" where
  "pg_read d a rq =
     (if unat a + unat (oo_len rq) > length (fst d) then (- EIO, rq, d)
      else (0, rq\<lparr>oo_datbuf := take (unat (oo_len rq)) (drop (unat a) (fst d)),
                  oo_oobbuf := map (\<lambda>i. snd d (unat a) (unat (oo_ooboffs rq) + i)) [0..<unat (oo_ooblen rq)]\<rparr>, d))"

definition pg_write :: "bytes \<times> (nat \<Rightarrow> nat \<Rightarrow> u8) \<Rightarrow> u64 \<Rightarrow> mtd_oob_ops \<Rightarrow> int \<times> mtd_oob_ops \<times> bytes \<times> (nat \<Rightarrow> nat \<Rightarrow> u8)" where
  "pg_write d a rq =
     (if unat a + unat (oo_len rq) > length (fst d) \<or> length (oo_datbuf rq) < unat (oo_len rq) then (- EIO, rq, d)
      else (0, rq, sim_overwrite (fst d) (unat a) (take (unat (oo_len rq)) (oo_datbuf rq)),
            (snd d)(unat a := (\<lambda>j. if unat (oo_ooboffs rq) \<le> j \<and> j < unat (oo_ooboffs rq) + unat (oo_ooblen rq)
               then oo_oobbuf rq ! (j - unat (oo_ooboffs rq)) else snd d (unat a) j))))"

definition pg_erase :: "bytes \<times> (nat \<Rightarrow> nat \<Rightarrow> u8) \<Rightarrow> u64 \<Rightarrow> u64 \<Rightarrow> int \<times> bytes \<times> (nat \<Rightarrow> nat \<Rightarrow> u8)" where
  "pg_erase d a len =
     (if unat a + unat len > length (fst d) then (- EIO, d)
      else (0, sim_overwrite (fst d) (unat a) (replicate (unat len) 0xff),
            (\<lambda>x. if unat a \<le> x \<and> x < unat a + unat len then (\<lambda>_. 0xff) else snd d x)))"

definition pg_desc :: "(bytes \<times> (nat \<Rightarrow> nat \<Rightarrow> u8)) bmt_desc" where
  "pg_desc =
     \<lparr>mtd_size = 320, mtd_erasesize = 64, mtd_erasesize_mask = 63, mtd_oobsize = 8,
      mtd_bitflip_threshold = 0, mtd_ecc_strength = 1, lo_read_oob = pg_read, lo_write_oob = pg_write,
      lo_erase = pg_erase, lo_block_isbad = (\<lambda>_ _. 0), lo_block_markbad = (\<lambda>d _. (0, d)), table_size = 8, pg_size = 16,
      blk_size = 64, pg_shift = 4, blk_shift = 6, pool_lba = 4, bb_max = 2, total_blks = 8, bmt_pgs = 3,
      remap_range = [], oob_offset = 0\<rparr>"

definition pg_mem :: "bytes \<times> (nat \<Rightarrow> nat \<Rightarrow> u8) \<Rightarrow> nat \<Rightarrow> u8" where
  "pg_mem d x = (if x < length (fst d) then fst d ! x else 0xff)"

definition pg_oob :: "bytes \<times> (nat \<Rightarrow> nat \<Rightarrow> u8) \<Rightarrow> nat \<Rightarrow> nat \<Rightarrow> u8" where
  "pg_oob d = snd d"

definition pg_v2 :: bbbt where
  "pg_v2 = sim_v2\<lparr>bmt_tbl := bmt_tbl sim_v2 @ replicate 4 \<lparr>bm_block = 0, bm_mapped = 0\<rparr>\<rparr>"

lemma pg_ops [simp]: "lo_erase pg_desc = pg_erase" "lo_write_oob pg_desc = pg_write" "lo_read_oob pg_desc = pg_read"
  by (simp_all add: pg_desc_def)

lemma pg_stores: "stores_pages pg_desc pg_mem pg_oob"
  unfolding stores_pages_def pg_ops
proof (intro conjI allI impI, goal_cases)
  case (1 d a len d' x)
  then show ?case
    by (auto simp: pg_erase_def pg_mem_def sim_overwrite_def nth_append split: if_splits)
next
  case (2 d a len d' x j)
  then show ?case by (auto simp: pg_erase_def pg_oob_def split: if_splits)
next
  case (3 d a rq cur d' i)
  then show ?case
    by (auto simp: pg_write_def pg_mem_def sim_overwrite_def nth_append split: if_splits)
next
  case (4 d a rq cur d' j)
  then show ?case by (auto simp: pg_write_def pg_oob_def split: if_splits)
next
  case (5 d a rq ret cur d')
  then show ?case
    by (auto simp: pg_read_def pg_mem_def split: if_splits intro!: nth_equalityI)
next
  case (6 d a rq ret cur d')
  then show ?case by (auto simp: pg_read_def pg_oob_def split: if_splits)
qed

lemma pg_v2_blocks:
  assumes "i < 8"
  shows "bm_block (bmt_ent pg_v2 i) < total_blks pg_desc"
proof -
  have "\<forall>i \<in> set [0..<8]. bm_block (bmt_ent pg_v2 i) < total_blks pg_desc" by code_simp
  with assms show ?thesis by simp
qed

text \<open>The eighth entry of the table does not fit into the three pages stored.\<close>

theorem v2_upload_reads_back_witness:
  "\<exists>t' d' dat fdm d''. upload_bmt 3 pg_desc pg_v2 (replicate 512 0, \<lambda>_ _. 0) = (3, t', d') \<and>
     bbt_nand_read pg_desc d' (blk_pg pg_desc 7) 48 4 = (0, dat, fdm, d'') \<and> is_valid_bmt dat fdm \<and>
     bb_tbl (v2_decode 8 (buf_mem (\<lambda>_. 0xaa) dat)) = [0, 1, 4, 3, 0, 0, 0, 0] \<and>
     bmt_ent (v2_decode 8 (buf_mem (\<lambda>_. 0xaa) dat)) 7 = \<lparr>bm_block = 0xaaaa, bm_mapped = 0xaaaa\<rparr>"
proof -
  let ?u = "upload_bmt 3 pg_desc pg_v2 (replicate 512 0, \<lambda>_ _. 0)"
  let ?r = "\<lambda>d'. bbt_nand_read pg_desc d' (blk_pg pg_desc 7) 48 4"
  have "case ?u of (idx, t', d') \<Rightarrow> idx = 3 \<and> bm_block (bmt_ent t' 3) = 7 \<and> fst (?r d') = 0" by code_simp
  then obtain t' d' where u: "?u = (3, t', d')" and blk: "bm_block (bmt_ent t' 3) = 7" and "fst (?r d') = 0"
    by (cases ?u) auto
  then obtain dat fdm d'' where r: "?r d' = (0, dat, fdm, d'')" by (cases "?r d'") auto
  have g: "unat (pg_shift pg_desc) \<le> unat (blk_shift pg_desc)" "bmt_store_len pg_desc = 48" "blk_size pg_desc = 64"
      "unat (oob_offset pg_desc) + 4 \<le> unat (mtd_oobsize pg_desc)" "unat (total_blks pg_desc) * 2 ^ unat (blk_shift pg_desc) \<le> 2 ^ 32"
      "bb_tbl pg_v2 = [0, 1, 4, 3, 0, 0, 0, 0]" "length (bmt_tbl pg_v2) = 8"
    by (simp_all add: pg_desc_def pg_v2_def sim_v2_def bmt_store_len_def push_bit_eq_mult)
  have ram: "rd_bbmt (\<lambda>_. 0xaa) 48 = \<lparr>bm_block = 0xaaaa, bm_mapped = 0xaaaa\<rparr>" by code_simp
  have rd: "bbt_nand_read pg_desc d' (blk_pg pg_desc (bm_block (bmt_ent t' (unat (3 :: u16))))) (ucast (bmt_store_len pg_desc)) 4 =
      (0, dat, fdm, d'')"
    using r by (simp add: blk g(2))
  have "is_valid_bmt dat fdm \<and> bb_tbl (v2_decode 8 (buf_mem (\<lambda>_. 0xaa) dat)) = [0, 1, 4, 3, 0, 0, 0, 0] \<and>
      bmt_ent (v2_decode 8 (buf_mem (\<lambda>_. 0xaa) dat)) 7 = rd_bbmt (\<lambda>_. 0xaa) 48"
    using v2_upload_reads_back [OF u _ _ pg_stores g(1) _ _ g(4,5) _ g(7) _ _ _ rd, where ram = "\<lambda>_. 0xaa"]
    by (simp add: g pg_v2_blocks)
  then show ?thesis using u r ram by auto
qed

end
