(* ===== verification/Nmbm_Base.thy ===== *)
theory Nmbm_Base
  imports Bmt_Core
begin

text \<open>
  The NMBM back end (\<open>mtk_bmt_nmbm.c\<close>), first part: its structures, the checksummed
  headers, the two-bit block state table, the walks over good blocks, and the page level
  operations with retry and verification. A function that changes the instance takes the
  instance and the device state and returns both.

  \<open>crc32_le\<close> of the kernel is the parameter \<open>crc\<close>. The scratch buffer \<open>page_cache\<close> is
  filled before every use in each function, so it is a local value here. Array accesses
  are written with \<open>nth_or\<close>, which is 0 out of range, and list update, which does nothing
  there; the theorems about them carry the bounds.
\<close>

section \<open>Structures and constants\<close>

abbreviation (input) NMBM_MAGIC_SIGNATURE :: u32 where "NMBM_MAGIC_SIGNATURE \<equiv> 0x304d4d4e"
abbreviation (input) NMBM_MAGIC_INFO_TABLE :: u32 where "NMBM_MAGIC_INFO_TABLE \<equiv> 0x314d4d4e"
abbreviation (input) NMBM_SPARE_BLOCK_MULTI :: u32 where "NMBM_SPARE_BLOCK_MULTI \<equiv> 1"
abbreviation (input) NMBM_SPARE_BLOCK_DIV :: u32 where "NMBM_SPARE_BLOCK_DIV \<equiv> 2"
abbreviation (input) NMBM_SPARE_BLOCK_MIN :: u32 where "NMBM_SPARE_BLOCK_MIN \<equiv> 2"
abbreviation (input) NMBM_MGMT_DIV :: u32 where "NMBM_MGMT_DIV \<equiv> 16"
abbreviation (input) NMBM_TRY_COUNT :: nat where "NMBM_TRY_COUNT \<equiv> 3"
abbreviation (input) BLOCK_ST_BAD :: u32 where "BLOCK_ST_BAD \<equiv> 0"
abbreviation (input) BLOCK_ST_NEED_REMAP :: u32 where "BLOCK_ST_NEED_REMAP \<equiv> 2"
abbreviation (input) BLOCK_ST_GOOD :: u32 where "BLOCK_ST_GOOD \<equiv> 3"
abbreviation (input) BLOCK_ST_MASK :: u32 where "BLOCK_ST_MASK \<equiv> 3"

definition NMBM_VERSION_MAKE :: "u32 \<Rightarrow> u32 \<Rightarrow> u32" where
  "NMBM_VERSION_MAKE major minor = (major AND 0xffff) OR push_bit 16 (minor AND 0xffff)"

definition NMBM_VER :: u32 where
  "NMBM_VER = NMBM_VERSION_MAKE 1 0"

record nmbm_header =
  h_magic :: u32
  h_version :: u32
  h_size :: u32
  h_checksum :: u32

record nmbm_signature =
  sig_header :: nmbm_header
  nand_size :: u64
  block_size :: u32
  page_size :: u32
  spare_size :: u32
  mgmt_start_pb :: u32
  max_try_count :: u8

record nmbm_info_table_header =
  it_header :: nmbm_header
  write_count :: u32
  state_table_off :: u32
  mapping_table_off :: u32
  it_padding :: u32

record nmbm_instance =
  rawpage_size :: u32
  rawblock_size :: u32
  rawchip_size :: u32
  signature :: nmbm_signature
  info_table_cache :: bytes
  info_table_size :: u32
  info_table_spare_blocks :: u32
  info_table :: nmbm_info_table_header
  block_state :: "u32 list"
  block_state_changed :: u32
  state_table_size :: u32
  block_mapping :: "u32 list"
  block_mapping_changed :: u32
  mapping_table_size :: u32
  protected :: int
  block_count :: u32
  data_block_count :: u32
  mgmt_start_ba :: u32
  main_table_ba :: u32
  backup_table_ba :: u32
  mapping_blocks_ba :: u32
  mapping_blocks_top_ba :: u32
  signature_ba :: u32
  max_ratio :: u32
  max_reserved_blocks :: u32
  empty_page_ecc_ok :: bool
  force_create :: bool

text \<open>Object representations. \<open>struct nmbm_signature\<close> ends in 3 explicit and 4 implicit padding bytes.\<close>

definition hdr_bytes :: "nmbm_header \<Rightarrow> bytes" where
  "hdr_bytes h = le32 (h_magic h) @ le32 (h_version h) @ le32 (h_size h) @ le32 (h_checksum h)"

definition hdr_read :: "bytes \<Rightarrow> nmbm_header" where
  "hdr_read bs = \<lparr>h_magic = rd32 bs 0, h_version = rd32 bs 4, h_size = rd32 bs 8, h_checksum = rd32 bs 12\<rparr>"

definition sig_bytes :: "nmbm_signature \<Rightarrow> bytes" where
  "sig_bytes s = hdr_bytes (sig_header s) @ le64 (nand_size s) @ le32 (block_size s) @ le32 (page_size s) @
     le32 (spare_size s) @ le32 (mgmt_start_pb s) @ [max_try_count s, 0, 0, 0, 0, 0, 0, 0]"

definition sig_read :: "bytes \<Rightarrow> nmbm_signature" where
  "sig_read bs = \<lparr>sig_header = hdr_read bs, nand_size = rd64 bs 16, block_size = rd32 bs 24,
     page_size = rd32 bs 28, spare_size = rd32 bs 32, mgmt_start_pb = rd32 bs 36, max_try_count = rd8 bs 40\<rparr>"

definition it_bytes :: "nmbm_info_table_header \<Rightarrow> bytes" where
  "it_bytes t = hdr_bytes (it_header t) @ le32 (write_count t) @ le32 (state_table_off t) @
     le32 (mapping_table_off t) @ le32 (it_padding t)"

definition it_read :: "bytes \<Rightarrow> nmbm_info_table_header" where
  "it_read bs = \<lparr>it_header = hdr_read bs, write_count = rd32 bs 16, state_table_off = rd32 bs 20,
     mapping_table_off = rd32 bs 24, it_padding = rd32 bs 28\<rparr>"

definition memcpy_at :: "bytes \<Rightarrow> nat \<Rightarrow> bytes \<Rightarrow> bytes" where
  "memcpy_at buf off src = take off buf @ src @ drop (off + length src) buf"

definition nth_or :: "u32 list \<Rightarrow> nat \<Rightarrow> u32" where
  "nth_or xs n = (if n < length xs then xs ! n else 0)"

section \<open>Address conversion\<close>

definition ba2addr :: "'d bmt_desc \<Rightarrow> u32 \<Rightarrow> u64" where
  "ba2addr b ba = shl64 (ucast ba) (blk_shift b)"

definition size2blk :: "'d bmt_desc \<Rightarrow> u64 \<Rightarrow> u32" where
  "size2blk b sz = ucast (shr64 (sz + ucast (blk_size b) - 1) (blk_shift b))"

section \<open>Page and block operations with retry\<close>

text \<open>All callers pass a data buffer and no OOB buffer. \<open>n\<close> is the number of tries left.\<close>

definition pg_ops :: "'d bmt_desc \<Rightarrow> bytes \<Rightarrow> mtd_oob_ops" where
  "pg_ops b dat = \<lparr>oo_len = ucast (pg_size b), oo_retlen = 0, oo_ooblen = 0, oo_oobretlen = 0,
                   oo_ooboffs = 0, oo_datbuf = dat, oo_oobbuf = []\<rparr>"

fun nmbm_read_try :: "nat \<Rightarrow> 'd bmt_desc \<Rightarrow> 'd \<Rightarrow> u64 \<Rightarrow> int \<Rightarrow> bytes \<Rightarrow> int \<times> bytes \<times> 'd" where
  "nmbm_read_try 0 b d addr ret dat = (ret, dat, d)"
| "nmbm_read_try (Suc n) b d addr ret dat =
     (let (ret1, ops, d1) = lo_read_oob b d addr (pg_ops b [])
      in if ret1 = - EUCLEAN then
           (sint (min (mtd_bitflip_threshold b + 1) (mtd_ecc_strength b)), oo_datbuf ops, d1)
         else if ret1 \<ge> 0 then (0, oo_datbuf ops, d1)
         else nmbm_read_try n b d1 addr ret1 (oo_datbuf ops))"

definition nmbm_read_phys_page :: "'d bmt_desc \<Rightarrow> 'd \<Rightarrow> u64 \<Rightarrow> int \<times> bytes \<times> 'd" where
  "nmbm_read_phys_page b d addr = nmbm_read_try NMBM_TRY_COUNT b d addr 0 []"

fun nmbm_write_try :: "nat \<Rightarrow> 'd bmt_desc \<Rightarrow> 'd \<Rightarrow> u64 \<Rightarrow> bytes \<Rightarrow> bool \<times> 'd" where
  "nmbm_write_try 0 b d addr dat = (False, d)"
| "nmbm_write_try (Suc n) b d addr dat =
     (let (ret, ops, d1) = lo_write_oob b d addr (pg_ops b dat)
      in if ret = 0 then (True, d1) else nmbm_write_try n b d1 addr dat)"

definition nmbm_write_phys_page :: "'d bmt_desc \<Rightarrow> 'd \<Rightarrow> u64 \<Rightarrow> bytes \<Rightarrow> bool \<times> 'd" where
  "nmbm_write_phys_page b d addr dat = nmbm_write_try NMBM_TRY_COUNT b d addr dat"

fun nmbm_erase_try :: "nat \<Rightarrow> 'd bmt_desc \<Rightarrow> 'd \<Rightarrow> u64 \<Rightarrow> bool \<times> 'd" where
  "nmbm_erase_try 0 b d addr = (False, d)"
| "nmbm_erase_try (Suc n) b d addr =
     (let (ret, d1) = lo_erase b d addr (ucast (mtd_erasesize b))
      in if ret = 0 then (True, d1) else nmbm_erase_try n b d1 addr)"

definition nmbm_erase_phys_block :: "'d bmt_desc \<Rightarrow> 'd \<Rightarrow> u64 \<Rightarrow> bool \<times> 'd" where
  "nmbm_erase_phys_block b d addr = nmbm_erase_try NMBM_TRY_COUNT b d addr"

definition nmbm_check_bad_phys_block :: "'d bmt_desc \<Rightarrow> 'd \<Rightarrow> u32 \<Rightarrow> bool" where
  "nmbm_check_bad_phys_block b d ba \<longleftrightarrow> lo_block_isbad b d (ba2addr b ba) \<noteq> 0"

definition nmbm_mark_phys_bad_block :: "'d bmt_desc \<Rightarrow> 'd \<Rightarrow> u32 \<Rightarrow> int \<times> 'd" where
  "nmbm_mark_phys_bad_block b d ba = lo_block_markbad b d (ba2addr b ba)"

section \<open>Checksummed headers\<close>

text \<open>The length of the next run of \<open>crc32_le\<close>: all that is left, but at most \<open>UINT_MAX\<close>.\<close>

definition crc_chunk :: "bytes \<Rightarrow> nat" where
  "crc_chunk buf = (if int (length buf) > 0xffffffff then nat 0xffffffff else length buf)"

lemma crc_chunk_pos: "buf \<noteq> [] \<Longrightarrow> 0 < crc_chunk buf"
  by (simp add: crc_chunk_def)

function nmbm_crc32 :: "(u32 \<Rightarrow> bytes \<Rightarrow> u32) \<Rightarrow> u32 \<Rightarrow> bytes \<Rightarrow> u32" where
  "nmbm_crc32 crc crcval buf =
     (if buf = [] then crcval
      else
        let chksz = crc_chunk buf
        in nmbm_crc32 crc (crc crcval (take chksz buf)) (drop chksz buf))"
  by pat_completeness auto
termination
  by (relation "measure (\<lambda>(crc, v, buf). length buf)") (auto simp: crc_chunk_pos)

declare nmbm_crc32.simps [simp del]

definition nmbm_check_header :: "(u32 \<Rightarrow> bytes \<Rightarrow> u32) \<Rightarrow> bytes \<Rightarrow> u32 \<Rightarrow> bool" where
  "nmbm_check_header crc dat sz =
     (let header = hdr_read dat
      in if h_size header > sz then False
         else
           let c0 = nmbm_crc32 crc 0 (hdr_bytes (header\<lparr>h_checksum := 0\<rparr>));
               c1 = (if h_size header > 16
                     then nmbm_crc32 crc c0 (drop 16 (take (unat (h_size header)) dat))
                     else c0)
           in h_checksum header = c1)"

definition nmbm_update_checksum :: "(u32 \<Rightarrow> bytes \<Rightarrow> u32) \<Rightarrow> bytes \<Rightarrow> bytes" where
  "nmbm_update_checksum crc dat =
     (let dat0 = memcpy_at dat 12 (le32 0)
      in memcpy_at dat0 12 (le32 (nmbm_crc32 crc 0 (take (unat (rd32 dat0 8)) dat0))))"

section \<open>Spare blocks and the block state table\<close>

definition nmbm_get_spare_block_count :: "u32 \<Rightarrow> u32" where
  "nmbm_get_spare_block_count cnt =
     (let v = (cnt + NMBM_SPARE_BLOCK_DIV div 2) div NMBM_SPARE_BLOCK_DIV * NMBM_SPARE_BLOCK_MULTI
      in if v < NMBM_SPARE_BLOCK_MIN then NMBM_SPARE_BLOCK_MIN else v)"

definition st_unit :: "u32 \<Rightarrow> nat" where
  "st_unit ba = unat (ba div 16)"

definition st_shift :: "u32 \<Rightarrow> nat" where
  "st_shift ba = unat (ba mod 16 * 2)"

definition nmbm_get_block_state_raw :: "u32 list \<Rightarrow> u32 \<Rightarrow> u32" where
  "nmbm_get_block_state_raw bs ba = drop_bit (st_shift ba) (nth_or bs (st_unit ba)) AND BLOCK_ST_MASK"

definition nmbm_get_block_state :: "nmbm_instance \<Rightarrow> u32 \<Rightarrow> u32" where
  "nmbm_get_block_state ni ba = nmbm_get_block_state_raw (block_state ni) ba"

definition nmbm_set_block_state :: "nmbm_instance \<Rightarrow> u32 \<Rightarrow> u32 \<Rightarrow> bool \<times> nmbm_instance" where
  "nmbm_set_block_state ni ba state =
     (let unit = st_unit ba; shift = st_shift ba;
          w = nth_or (block_state ni) unit;
          orig = drop_bit shift w AND BLOCK_ST_MASK;
          st = state AND BLOCK_ST_MASK;
          uv = (w AND NOT (push_bit shift BLOCK_ST_MASK)) OR push_bit shift st;
          ni1 = ni\<lparr>block_state := (block_state ni)[unit := uv]\<rparr>
      in if orig \<noteq> st then (True, ni1\<lparr>block_state_changed := block_state_changed ni1 + 1\<rparr>)
         else (False, ni1))"

definition set_bad :: "nmbm_instance \<Rightarrow> u32 \<Rightarrow> nmbm_instance" where
  "set_bad ni ba = snd (nmbm_set_block_state ni ba BLOCK_ST_BAD)"

section \<open>Walking over good blocks\<close>

definition walk_limit :: "nmbm_instance \<Rightarrow> u32 \<Rightarrow> u32" where
  "walk_limit ni limit = (if limit \<ge> block_count ni then block_count ni - 1 else limit)"

function walk_asc_loop :: "nmbm_instance \<Rightarrow> u32 \<Rightarrow> u32 \<Rightarrow> int \<Rightarrow> u32 option" where
  "walk_asc_loop ni limit ba nblock =
     (if ba < limit then
        let nb = (if nmbm_get_block_state ni ba = BLOCK_ST_GOOD then nblock - 1 else nblock)
        in if nb < 0 then Some ba else walk_asc_loop ni limit (ba + 1) nb
      else None)"
  by pat_completeness auto
termination
  by (relation "measure (\<lambda>(ni, limit, ba, nb). unat limit - unat ba)") (auto simp: word_less_unat)

declare walk_asc_loop.simps [simp del]

definition nmbm_block_walk_asc :: "nmbm_instance \<Rightarrow> u32 \<Rightarrow> u32 \<Rightarrow> u32 \<Rightarrow> u32 option" where
  "nmbm_block_walk_asc ni ba cnt limit = walk_asc_loop ni (walk_limit ni limit) ba (sint cnt)"

function walk_desc_loop :: "nmbm_instance \<Rightarrow> u32 \<Rightarrow> u32 \<Rightarrow> int \<Rightarrow> u32 option" where
  "walk_desc_loop ni limit ba nblock =
     (if ba > limit then
        let nb = (if nmbm_get_block_state ni ba = BLOCK_ST_GOOD then nblock - 1 else nblock)
        in if nb < 0 then Some ba else walk_desc_loop ni limit (ba - 1) nb
      else None)"
  by pat_completeness auto
termination
  by (relation "measure (\<lambda>(ni, limit, ba, nb). unat ba)") (auto simp: word_less_unat unat_minus_one)

declare walk_desc_loop.simps [simp del]

definition nmbm_block_walk_desc :: "nmbm_instance \<Rightarrow> u32 \<Rightarrow> u32 \<Rightarrow> u32 \<Rightarrow> u32 option" where
  "nmbm_block_walk_desc ni ba cnt limit = walk_desc_loop ni (walk_limit ni limit) ba (sint cnt)"

definition nmbm_block_walk :: "nmbm_instance \<Rightarrow> bool \<Rightarrow> u32 \<Rightarrow> u32 \<Rightarrow> u32 \<Rightarrow> u32 option" where
  "nmbm_block_walk ni ascending ba cnt limit =
     (if ascending then nmbm_block_walk_asc ni ba cnt limit else nmbm_block_walk_desc ni ba cnt limit)"

section \<open>Initial tables\<close>

function scan_bad_loop :: "'d bmt_desc \<Rightarrow> 'd \<Rightarrow> u32 \<Rightarrow> nmbm_instance \<Rightarrow> nmbm_instance" where
  "scan_bad_loop b d ba ni =
     (if ba < block_count ni then
        scan_bad_loop b d (ba + 1) (if nmbm_check_bad_phys_block b d ba then set_bad ni ba else ni)
      else ni)"
  by pat_completeness auto
termination
  by (relation "measure (\<lambda>(b, d, ba, ni). unat (block_count ni) - unat ba)")
    (auto simp: word_less_unat set_bad_def nmbm_set_block_state_def Let_def)

declare scan_bad_loop.simps [simp del]

definition nmbm_scan_badblocks :: "'d bmt_desc \<Rightarrow> 'd \<Rightarrow> nmbm_instance \<Rightarrow> nmbm_instance" where
  "nmbm_scan_badblocks b d ni = scan_bad_loop b d 0 ni"

function build_map_loop :: "nmbm_instance \<Rightarrow> u32 \<Rightarrow> u32 \<Rightarrow> u32 list \<Rightarrow> u32 \<times> u32 list" where
  "build_map_loop ni pb lb mp =
     (if pb < mgmt_start_ba ni then
        (if nmbm_get_block_state ni pb = BLOCK_ST_BAD then build_map_loop ni (pb + 1) lb mp
         else build_map_loop ni (pb + 1) (lb + 1) (mp[unat lb := pb]))
      else (lb, mp))"
  by pat_completeness auto
termination
  by (relation "measure (\<lambda>(ni, pb, lb, mp). unat (mgmt_start_ba ni) - unat pb)") (auto simp: word_less_unat)

declare build_map_loop.simps [simp del]

function unmap_tail_loop :: "u32 \<Rightarrow> u32 \<Rightarrow> u32 list \<Rightarrow> u32 list" where
  "unmap_tail_loop cnt pb mp = (if pb < cnt then unmap_tail_loop cnt (pb + 1) (mp[unat pb := - 1]) else mp)"
  by pat_completeness auto
termination
  by (relation "measure (\<lambda>(cnt, pb, mp). unat cnt - unat pb)") (auto simp: word_less_unat)

declare unmap_tail_loop.simps [simp del]

definition nmbm_build_mapping_table :: "nmbm_instance \<Rightarrow> nmbm_instance" where
  "nmbm_build_mapping_table ni =
     (let (lb, mp) = build_map_loop ni 0 0 (block_mapping ni)
      in ni\<lparr>data_block_count := lb, block_mapping := unmap_tail_loop (block_count ni) lb mp\<rparr>)"

section \<open>Erasing\<close>

text \<open>The page offsets of a block; \<open>pg_size\<close> is not 0 (the C loops would not end).\<close>

definition page_offs :: "'d bmt_desc \<Rightarrow> u64 list" where
  "page_offs b = map (\<lambda>i. of_nat (i * unat (pg_size b)))
     [0..<(unat (blk_size b) + unat (pg_size b) - 1) div unat (pg_size b)]"

fun check_pages :: "'d bmt_desc \<Rightarrow> u64 \<Rightarrow> u64 list \<Rightarrow> 'd \<Rightarrow> bool \<times> 'd" where
  "check_pages b addr [] d = (True, d)"
| "check_pages b addr (off # offs) d =
     (let (ret, dat, d1) = nmbm_read_phys_page b d (addr + off)
      in if ret = - EBADMSG then (False, d1) else check_pages b addr offs d1)"

definition nmbm_erase_block_and_check :: "'d bmt_desc \<Rightarrow> nmbm_instance \<Rightarrow> 'd \<Rightarrow> u32 \<Rightarrow> bool \<times> 'd" where
  "nmbm_erase_block_and_check b ni d ba =
     (let (success, d1) = nmbm_erase_phys_block b d (ba2addr b ba)
      in if \<not> success then (False, d1)
         else if \<not> empty_page_ecc_ok ni then (True, d1)
         else check_pages b (ba2addr b ba) (page_offs b) d1)"

definition mark_bad :: "'d bmt_desc \<Rightarrow> nmbm_instance \<Rightarrow> 'd \<Rightarrow> u32 \<Rightarrow> nmbm_instance \<times> 'd" where
  "mark_bad b ni d ba = (set_bad ni ba, snd (nmbm_mark_phys_bad_block b d ba))"

function nmbm_erase_range :: "'d bmt_desc \<Rightarrow> nmbm_instance \<Rightarrow> 'd \<Rightarrow> u32 \<Rightarrow> u32 \<Rightarrow> nmbm_instance \<times> 'd" where
  "nmbm_erase_range b ni d ba limit =
     (if ba < limit then
        (if nmbm_get_block_state ni ba \<noteq> BLOCK_ST_GOOD then nmbm_erase_range b ni d (ba + 1) limit
         else if nmbm_check_bad_phys_block b d ba then nmbm_erase_range b (set_bad ni ba) d (ba + 1) limit
         else
           let (success, d1) = nmbm_erase_block_and_check b ni d ba
           in if success then nmbm_erase_range b ni d1 (ba + 1) limit
              else let (ni2, d2) = mark_bad b ni d1 ba in nmbm_erase_range b ni2 d2 (ba + 1) limit)
      else (ni, d))"
  by pat_completeness auto
termination
  by (relation "measure (\<lambda>(b, ni, d, ba, limit). unat limit - unat ba)") (auto simp: word_less_unat)

declare nmbm_erase_range.simps [simp del]

section \<open>Writing and reading data\<close>

fun write_pages :: "'d bmt_desc \<Rightarrow> u64 \<Rightarrow> bytes \<Rightarrow> bytes \<Rightarrow> u64 list \<Rightarrow> 'd \<Rightarrow> bool \<times> 'd" where
  "write_pages b addr page dat [] d = (True, d)"
| "write_pages b addr page dat (off # offs) d =
     (let (success, d1) = nmbm_write_phys_page b d (addr + off) page
      in if \<not> success then (False, d1)
         else
           let (ret, rb, d2) = nmbm_read_phys_page b d1 (addr + off)
           in if ret < 0 then (False, d2)
              else if take (length dat) rb \<noteq> dat then (False, d2)
              else write_pages b addr page dat offs d2)"

definition nmbm_write_repeated_data ::
    "'d bmt_desc \<Rightarrow> nmbm_instance \<Rightarrow> 'd \<Rightarrow> u32 \<Rightarrow> bytes \<Rightarrow> u32 \<Rightarrow> bool \<times> 'd" where
  "nmbm_write_repeated_data b ni d ba dat sz =
     (if sz > pg_size b then (False, d)
      else
        let src = take (unat sz) dat
        in write_pages b (ba2addr b ba) (src @ replicate (unat (rawpage_size ni - sz)) 0xff) src (page_offs b) d)"

function write_sig_loop ::
    "'d bmt_desc \<Rightarrow> nmbm_instance \<Rightarrow> 'd \<Rightarrow> bytes \<Rightarrow> u32 \<Rightarrow> u32 \<Rightarrow> u32 option \<times> nmbm_instance \<times> 'd" where
  "write_sig_loop b ni d sig ba limit =
     (if ba > limit then
        (if nmbm_get_block_state ni ba \<noteq> BLOCK_ST_GOOD then write_sig_loop b ni d sig (ba - 1) limit
         else if nmbm_check_bad_phys_block b d ba then write_sig_loop b (set_bad ni ba) d sig (ba - 1) limit
         else
           let (success, d1) = nmbm_erase_block_and_check b ni d ba;
               (written, d2) = (if success then nmbm_write_repeated_data b ni d1 ba sig 48 else (False, d1))
           in if written then (Some ba, ni, d2)
              else let (ni3, d3) = mark_bad b ni d2 ba in write_sig_loop b ni3 d3 sig (ba - 1) limit)
      else (None, ni, d))"
  by pat_completeness auto
termination
  by (relation "measure (\<lambda>(b, ni, d, sig, ba, limit). unat ba)") (auto simp: word_less_unat unat_minus_one)

declare write_sig_loop.simps [simp del]

definition nmbm_write_signature ::
    "'d bmt_desc \<Rightarrow> nmbm_instance \<Rightarrow> 'd \<Rightarrow> u32 \<Rightarrow> nmbm_signature \<Rightarrow> u32 option \<times> nmbm_instance \<times> 'd" where
  "nmbm_write_signature b ni d limit sig = write_sig_loop b ni d (sig_bytes sig) (block_count ni - 1) limit"

text \<open>One page transfer of the read and write loops: the bytes before \<open>off\<close> in its page, and the chunk.\<close>

definition pg_leading :: "'d bmt_desc \<Rightarrow> u64 \<Rightarrow> u32" where
  "pg_leading b off = ucast (off AND ucast (pg_size b - 1))"

definition pg_chunk :: "'d bmt_desc \<Rightarrow> u64 \<Rightarrow> u32 \<Rightarrow> u32" where
  "pg_chunk b off remain = min (pg_size b - pg_leading b off) remain"

lemma pg_chunk_pos:
  assumes "pg_size b \<noteq> 0" "remain \<noteq> 0"
  shows "0 < unat (pg_chunk b off remain)" "unat (pg_chunk b off remain) \<le> unat remain"
proof -
  have "off AND ucast (pg_size b - 1) \<le> ucast (pg_size b - 1)"
    by (rule word_and_le1)
  then have "unat (off AND ucast (pg_size b - 1)) \<le> unat (pg_size b - 1)"
    by (simp add: word_le_unat)
  moreover have "unat (pg_size b - 1) < unat (pg_size b)"
    using assms(1) by (simp add: unat_minus_one unat_gt_0)
  ultimately have "unat (pg_leading b off) < unat (pg_size b)"
    using unat_less_2p [of "pg_size b"] unfolding pg_leading_def by (subst unat_ucast_small) simp_all
  then have "pg_size b - pg_leading b off \<noteq> 0"
    by auto
  with assms(2) show "0 < unat (pg_chunk b off remain)"
    by (simp add: pg_chunk_def min_def unat_gt_0)
  show "unat (pg_chunk b off remain) \<le> unat remain"
    by (simp add: pg_chunk_def min_def word_le_unat)
qed

function read_data_loop :: "'d bmt_desc \<Rightarrow> 'd \<Rightarrow> u64 \<Rightarrow> u32 \<Rightarrow> bytes \<Rightarrow> int \<times> bytes \<times> 'd" where
  "read_data_loop b d off remain acc =
     (if remain = 0 \<or> pg_size b = 0 then (0, acc, d)
      else
        let leading = pg_leading b off; chunk = pg_chunk b off remain;
            (ret, dat, d1) = nmbm_read_phys_page b d (off - ucast leading)
        in if ret < 0 then (ret, acc, d1)
           else read_data_loop b d1 (off + ucast chunk) (remain - chunk)
                  (acc @ take (unat chunk) (drop (unat leading) dat)))"
  by pat_completeness auto
termination
proof (relation "measure (\<lambda>(b, d, off, remain, acc). unat remain)", goal_cases)
  case (2 b d off remain)
  then show ?case
    using pg_chunk_pos [of b remain off] by (auto simp: unat_sub word_le_unat)
qed simp

declare read_data_loop.simps [simp del]

definition nmbn_read_data :: "'d bmt_desc \<Rightarrow> 'd \<Rightarrow> u64 \<Rightarrow> u32 \<Rightarrow> int \<times> bytes \<times> 'd" where
  "nmbn_read_data b d addr sz = read_data_loop b d addr sz []"

function write_verify_loop :: "'d bmt_desc \<Rightarrow> u32 \<Rightarrow> 'd \<Rightarrow> u64 \<Rightarrow> bytes \<Rightarrow> u32 \<Rightarrow> bool \<times> 'd" where
  "write_verify_loop b rawpage d off ptr remain =
     (if remain = 0 \<or> pg_size b = 0 then (True, d)
      else
        let leading = pg_leading b off; chunk = pg_chunk b off remain;
            part = take (unat chunk) ptr;
            page = memcpy_at (replicate (unat rawpage) 0xff) (unat leading) part;
            (success, d1) = nmbm_write_phys_page b d (off - ucast leading) page
        in if \<not> success then (False, d1)
           else
             let (ret, rb, d2) = nmbm_read_phys_page b d1 (off - ucast leading)
             in if ret < 0 then (False, d2)
                else if take (unat chunk) (drop (unat leading) rb) \<noteq> part then (False, d2)
                else write_verify_loop b rawpage d2 (off + ucast chunk) (drop (unat chunk) ptr) (remain - chunk))"
  by pat_completeness auto
termination
proof (relation "measure (\<lambda>(b, rawpage, d, off, ptr, remain). unat remain)", goal_cases)
  case (2 b rawpage d off ptr remain)
  then show ?case
    using pg_chunk_pos [of b remain off] by (auto simp: unat_sub word_le_unat)
qed simp

declare write_verify_loop.simps [simp del]

definition nmbn_write_verify_data ::
    "'d bmt_desc \<Rightarrow> nmbm_instance \<Rightarrow> 'd \<Rightarrow> u64 \<Rightarrow> bytes \<Rightarrow> u32 \<Rightarrow> bool \<times> 'd" where
  "nmbn_write_verify_data b ni d addr dat sz = write_verify_loop b (rawpage_size ni) d addr dat sz"

section \<open>The state table as an array of two-bit fields\<close>

lemma two_bit_field:
  assumes "s + 2 \<le> 32" "s' + 2 \<le> 32" "s' = s \<or> s' + 2 \<le> s \<or> s + 2 \<le> s'"
  shows "drop_bit s' ((w AND NOT (push_bit s 3)) OR push_bit s (st AND 3)) AND (3 :: u32) =
    (if s' = s then st AND 3 else drop_bit s' w AND 3)"
proof (rule bit_word_eqI)
  fix n
  assume "n < LENGTH(32)"
  show "bit (drop_bit s' ((w AND NOT (push_bit s 3)) OR push_bit s (st AND 3)) AND (3 :: u32)) n =
      bit (if s' = s then st AND 3 else drop_bit s' w AND 3) n"
  proof (cases "n < 2")
    case True
    with assms show ?thesis by (auto simp: bit_simps)
  qed (simp add: bit_simps)
qed

lemma unat_st_shift: "st_shift ba = 2 * (unat ba mod 16)"
proof -
  have m: "unat (ba mod 16) = unat ba mod 16" by (simp add: unat_mod)
  have "unat ba mod 16 < 16" by simp
  then have "(unat ba mod 16 * 2) mod 4294967296 = unat ba mod 16 * 2"
    by (intro mod_less) linarith
  then show ?thesis
    unfolding st_shift_def by (simp add: unat_word_ariths m)
qed

lemma unat_st_unit: "st_unit ba = unat ba div 16"
  by (simp add: st_unit_def unat_div)

lemma st_slot_eq:
  assumes "st_unit x = st_unit y" "st_shift x = st_shift y"
  shows "x = y"
proof -
  have "unat x div 16 = unat y div 16" "unat x mod 16 = unat y mod 16"
    using assms by (simp_all add: unat_st_unit unat_st_shift)
  then have "unat x = unat y" by (metis div_mult_mod_eq)
  then show ?thesis by (rule unsigned_word_eqI)
qed

lemma st_shift_bounds:
  "st_shift x + 2 \<le> 32" "st_shift y + 2 \<le> 32"
  "st_shift y = st_shift x \<or> st_shift y + 2 \<le> st_shift x \<or> st_shift x + 2 \<le> st_shift y"
proof -
  have "unat x mod 16 < 16" "unat y mod 16 < 16" by simp_all
  then show "st_shift x + 2 \<le> 32" "st_shift y + 2 \<le> 32"
    unfolding unat_st_shift by linarith+
  show "st_shift y = st_shift x \<or> st_shift y + 2 \<le> st_shift x \<or> st_shift x + 2 \<le> st_shift y"
    unfolding unat_st_shift
    by (cases "unat y mod 16" "unat x mod 16" rule: linorder_cases) auto
qed

lemma get_set_block_state:
  assumes "st_unit x < length (block_state ni)"
  shows "nmbm_get_block_state (snd (nmbm_set_block_state ni x st)) y =
    (if y = x then st AND 3 else nmbm_get_block_state ni y)"
proof (cases "st_unit x = st_unit y")
  case False
  then have "x \<noteq> y" by auto
  with False show ?thesis
    by (auto simp: nmbm_get_block_state_def nmbm_get_block_state_raw_def nmbm_set_block_state_def Let_def nth_or_def)
next
  case True
  from two_bit_field [OF st_shift_bounds] True assms
  have "nmbm_get_block_state (snd (nmbm_set_block_state ni x st)) y =
      (if st_shift y = st_shift x then st AND 3 else nmbm_get_block_state ni y)"
    by (simp add: nmbm_get_block_state_def nmbm_get_block_state_raw_def nmbm_set_block_state_def Let_def nth_or_def)
  with True show ?thesis
    using st_slot_eq [of x y] by auto
qed

lemma get_block_state_outside: "\<not> st_unit x < length (block_state ni) \<Longrightarrow> nmbm_get_block_state ni x = 0"
  by (simp add: nmbm_get_block_state_def nmbm_get_block_state_raw_def nth_or_def)

lemma length_set_block_state [simp]:
  "length (block_state (snd (nmbm_set_block_state ni x st))) = length (block_state ni)"
  by (simp add: nmbm_set_block_state_def Let_def)

interpretation nst: state_table nmbm_get_block_state "\<lambda>ni x s. snd (nmbm_set_block_state ni x s)"
    "\<lambda>ni x. st_unit x < length (block_state ni)" "\<lambda>s. s AND 3 = s"
  by unfold_locales (simp_all add: get_set_block_state)

section \<open>Wear\<close>

text \<open>
  What the writing functions do to the instance: they change nothing but block states,
  from good to bad, and count each change. \<open>goods\<close> is the set of good blocks.
\<close>

abbreviation goods :: "nmbm_instance \<Rightarrow> u32 set" where
  "goods \<equiv> in_state nmbm_get_block_state BLOCK_ST_GOOD"

definition wears :: "nmbm_instance \<Rightarrow> nmbm_instance \<Rightarrow> bool" where
  "wears ni ni' \<longleftrightarrow>
     ni' = ni\<lparr>block_state := block_state ni', block_state_changed := block_state_changed ni'\<rparr> \<and>
     length (block_state ni') = length (block_state ni) \<and>
     (\<forall>x. nmbm_get_block_state ni' x = nmbm_get_block_state ni x \<or>
          nmbm_get_block_state ni x = BLOCK_ST_GOOD \<and> nmbm_get_block_state ni' x = BLOCK_ST_BAD) \<and>
     (block_state_changed ni' = block_state_changed ni \<or>
      (\<exists>x. nmbm_get_block_state ni x = BLOCK_ST_GOOD \<and> nmbm_get_block_state ni' x = BLOCK_ST_BAD))"

lemma wears_refl [simp]: "wears ni ni"
  by (simp add: wears_def)

lemma wears_frame:
  assumes "wears ni ni'"
  shows "block_count ni' = block_count ni" "mgmt_start_ba ni' = mgmt_start_ba ni"
    "info_table_size ni' = info_table_size ni" "info_table_cache ni' = info_table_cache ni"
    "info_table ni' = info_table ni" "block_mapping ni' = block_mapping ni"
    "block_mapping_changed ni' = block_mapping_changed ni" "rawpage_size ni' = rawpage_size ni"
    "mapping_blocks_ba ni' = mapping_blocks_ba ni" "mapping_blocks_top_ba ni' = mapping_blocks_top_ba ni"
    "main_table_ba ni' = main_table_ba ni" "backup_table_ba ni' = backup_table_ba ni"
    "data_block_count ni' = data_block_count ni" "signature_ba ni' = signature_ba ni"
    "signature ni' = signature ni" "protected ni' = protected ni"
    "info_table_spare_blocks ni' = info_table_spare_blocks ni"
    "state_table_size ni' = state_table_size ni" "mapping_table_size ni' = mapping_table_size ni"
    "length (block_state ni') = length (block_state ni)" "empty_page_ecc_ok ni' = empty_page_ecc_ok ni"
proof -
  have e: "ni' = ni\<lparr>block_state := block_state ni', block_state_changed := block_state_changed ni'\<rparr>"
    using assms by (simp add: wears_def)
  show "length (block_state ni') = length (block_state ni)" using assms by (simp add: wears_def)
  show "block_count ni' = block_count ni" "mgmt_start_ba ni' = mgmt_start_ba ni"
    "info_table_size ni' = info_table_size ni" "info_table_cache ni' = info_table_cache ni"
    "info_table ni' = info_table ni" "block_mapping ni' = block_mapping ni"
    "block_mapping_changed ni' = block_mapping_changed ni" "rawpage_size ni' = rawpage_size ni"
    "mapping_blocks_ba ni' = mapping_blocks_ba ni" "mapping_blocks_top_ba ni' = mapping_blocks_top_ba ni"
    "main_table_ba ni' = main_table_ba ni" "backup_table_ba ni' = backup_table_ba ni"
    "data_block_count ni' = data_block_count ni" "signature_ba ni' = signature_ba ni"
    "signature ni' = signature ni" "protected ni' = protected ni"
    "info_table_spare_blocks ni' = info_table_spare_blocks ni"
    "state_table_size ni' = state_table_size ni" "mapping_table_size ni' = mapping_table_size ni"
    "empty_page_ecc_ok ni' = empty_page_ecc_ok ni"
    by (subst e, simp)+
qed

lemma wears_state:
  "wears ni ni' \<Longrightarrow> nmbm_get_block_state ni' x = nmbm_get_block_state ni x \<or>
     nmbm_get_block_state ni x = BLOCK_ST_GOOD \<and> nmbm_get_block_state ni' x = BLOCK_ST_BAD"
  by (simp add: wears_def)

lemma wears_goods:
  assumes "wears ni ni'"
  shows "goods ni' \<subseteq> goods ni"
proof
  fix x
  assume "x \<in> goods ni'"
  with wears_state [OF assms, of x] show "x \<in> goods ni" by (auto simp: in_state_def)
qed

lemma wears_changed:
  assumes "wears ni ni'"
  shows "block_state_changed ni' = block_state_changed ni \<or> goods ni' \<subset> goods ni"
proof (cases "block_state_changed ni' = block_state_changed ni")
  case False
  with assms obtain x where "nmbm_get_block_state ni x = 3" "nmbm_get_block_state ni' x = 0"
    unfolding wears_def by blast
  then have "x \<in> goods ni" "x \<notin> goods ni'" by (simp_all add: in_state_def)
  with wears_goods [OF assms] show ?thesis by blast
qed simp

lemma wears_trans:
  assumes "wears x y" "wears y z"
  shows "wears x z"
proof -
  have y: "y = x\<lparr>block_state := block_state y, block_state_changed := block_state_changed y\<rparr>"
    and z: "z = y\<lparr>block_state := block_state z, block_state_changed := block_state_changed z\<rparr>"
    using assms by (simp_all add: wears_def)
  have frame: "z = x\<lparr>block_state := block_state z, block_state_changed := block_state_changed z\<rparr>"
    by (subst z, subst y) simp
  have st: "nmbm_get_block_state z a = nmbm_get_block_state x a \<or>
      nmbm_get_block_state x a = 3 \<and> nmbm_get_block_state z a = 0" for a
    using wears_state [OF assms(1), of a] wears_state [OF assms(2), of a] by auto
  have "\<exists>a. nmbm_get_block_state x a = 3 \<and> nmbm_get_block_state z a = 0"
    if "block_state_changed z \<noteq> block_state_changed x"
  proof -
    from that consider a where "nmbm_get_block_state x a = 3" "nmbm_get_block_state y a = 0"
      | a where "nmbm_get_block_state y a = 3" "nmbm_get_block_state z a = 0"
      using assms unfolding wears_def by auto
    then show ?thesis
    proof cases
      case (1 a)
      with wears_state [OF assms(2), of a] show ?thesis by auto
    next
      case (2 a)
      with wears_state [OF assms(1), of a] show ?thesis by auto
    qed
  qed
  with frame st show ?thesis
    using assms unfolding wears_def [of x z] by (simp only: wears_frame) blast
qed

lemma wears_set_bad:
  assumes "nmbm_get_block_state ni x = BLOCK_ST_GOOD"
  shows "wears ni (set_bad ni x)"
proof -
  have inb: "st_unit x < length (block_state ni)"
    using assms get_block_state_outside [of x ni] by fastforce
  have "set_bad ni x = ni\<lparr>block_state := block_state (set_bad ni x),
      block_state_changed := block_state_changed (set_bad ni x)\<rparr>"
    by (simp add: set_bad_def nmbm_set_block_state_def Let_def)
  moreover have "nmbm_get_block_state (set_bad ni x) y = (if y = x then 0 else nmbm_get_block_state ni y)" for y
    using get_set_block_state [OF inb] by (simp add: set_bad_def)
  ultimately show ?thesis
    using assms unfolding wears_def by (auto simp: set_bad_def)
qed

lemmas wears_set_bad_trans = wears_trans [OF wears_set_bad]

lemma erase_range_wears: "nmbm_erase_range b ni d ba limit = (ni', d') \<Longrightarrow> wears ni ni'"
proof (induction b ni d ba limit rule: nmbm_erase_range.induct)
  case (1 b ni d ba limit)
  obtain ok d1 where e: "nmbm_erase_block_and_check b ni d ba = (ok, d1)" by fastforce
  show ?case
  proof (cases "ba < limit")
    case False
    with "1.prems" show ?thesis by (subst (asm) nmbm_erase_range.simps) simp
  next
    case True
    show ?thesis
    proof (cases "nmbm_get_block_state ni ba = 3")
      case False
      with True "1.prems" "1.IH"(1) show ?thesis by (subst (asm) nmbm_erase_range.simps) simp
    next
      case good: True
      with True "1.prems" "1.IH"(2-) e show ?thesis
        by (subst (asm) nmbm_erase_range.simps)
          (auto simp: mark_bad_def intro: wears_set_bad_trans split: if_splits)
    qed
  qed
qed

end
