(* ===== verification/Nmbm_Table.thy ===== *)
theory Nmbm_Table
  imports Nmbm_Base
begin

text \<open>
  The NMBM back end, second part: the management data (\<open>nmbm_write_mgmt_range\<close>), the info
  table with its main and backup copies, the rescue procedures for a copy that cannot be
  written, and \<open>nmbm_update_info_table\<close>, the loop that is meant to write the tables until
  no new bad block shows up (what it stores is in \<open>Nmbm_Layout\<close>). The loop is total: every round that is not the last one has lost a good
  block, which \<open>wears\<close> and \<open>settled\<close> below express.
\<close>

section \<open>Writing management data\<close>

text \<open>
  The result is the start and end block address of the data (\<open>actual_start_ba\<close> and
  \<open>actual_end_ba\<close>), or \<open>None\<close> where the C function returns false; \<open>start\<close> is the
  start recorded so far.
\<close>

function write_mgmt_loop ::
    "'d bmt_desc \<Rightarrow> nmbm_instance \<Rightarrow> 'd \<Rightarrow> u32 \<Rightarrow> u32 \<Rightarrow> bytes \<Rightarrow> u32 \<Rightarrow> u32 \<Rightarrow> u32
       \<Rightarrow> (u32 \<times> u32) option \<times> nmbm_instance \<times> 'd" where
  "write_mgmt_loop b ni d ba limit ptr sz remain start =
     (if remain \<noteq> 0 \<and> ba < limit then
        let chunk = min remain (blk_size b)
        in if nmbm_get_block_state ni ba \<noteq> BLOCK_ST_GOOD then
             write_mgmt_loop b ni d (ba + 1) limit ptr sz remain start
           else if nmbm_check_bad_phys_block b d ba then
             write_mgmt_loop b (set_bad ni ba) d (ba + 1) limit ptr sz remain start
           else
             let (erased, d1) = nmbm_erase_block_and_check b ni d ba;
                 (written, d2) = (if erased then nmbn_write_verify_data b ni d1 (ba2addr b ba) ptr chunk
                                  else (False, d1))
             in if written then
                  write_mgmt_loop b ni d2 (ba + 1) limit (drop (unat chunk) ptr) sz (remain - chunk)
                    (if remain = sz then ba else start)
                else
                  let (ni3, d3) = mark_bad b ni d2 ba
                  in write_mgmt_loop b ni3 d3 (ba + 1) limit ptr sz remain start
      else (if remain \<noteq> 0 then None else Some (start, ba), ni, d))"
  by pat_completeness auto
termination
  by (relation "measure (\<lambda>(b, ni, d, ba, limit, ptr, sz, remain, start). unat limit - unat ba)")
    (auto simp: word_less_unat)

declare write_mgmt_loop.simps [simp del]

definition nmbm_write_mgmt_range ::
    "'d bmt_desc \<Rightarrow> nmbm_instance \<Rightarrow> 'd \<Rightarrow> u32 \<Rightarrow> u32 \<Rightarrow> bytes \<Rightarrow> u32
       \<Rightarrow> (u32 \<times> u32) option \<times> nmbm_instance \<times> 'd" where
  "nmbm_write_mgmt_range b ni d ba limit dat sz = write_mgmt_loop b ni d ba limit dat sz sz 0"

section \<open>The info table\<close>

definition nmbm_generate_info_table_cache ::
    "(u32 \<Rightarrow> bytes \<Rightarrow> u32) \<Rightarrow> nmbm_instance \<Rightarrow> bool \<times> nmbm_instance" where
  "nmbm_generate_info_table_cache crc ni =
     (let it = info_table ni;
          c0 = replicate (unat (info_table_size ni)) 0xff;
          c1 = memcpy_at c0 (unat (state_table_off it))
                 (take (unat (state_table_size ni)) (le32s (block_state ni)));
          c2 = memcpy_at c1 (unat (mapping_table_off it))
                 (take (unat (mapping_table_size ni)) (le32s (block_mapping ni)));
          changed = (block_state_changed ni \<noteq> 0 \<or> block_mapping_changed ni \<noteq> 0);
          it1 = it\<lparr>it_header := (it_header it)\<lparr>h_magic := NMBM_MAGIC_INFO_TABLE, h_version := NMBM_VER,
                                               h_size := info_table_size ni\<rparr>,
                   write_count := (if changed then write_count it + 1 else write_count it)\<rparr>;
          c3 = memcpy_at c2 0 (it_bytes it1)
      in (changed, ni\<lparr>info_table := it1, info_table_cache := nmbm_update_checksum crc c3\<rparr>))"

definition nmbm_write_info_table ::
    "'d bmt_desc \<Rightarrow> nmbm_instance \<Rightarrow> 'd \<Rightarrow> u32 \<Rightarrow> u32 \<Rightarrow> (u32 \<times> u32) option \<times> nmbm_instance \<times> 'd" where
  "nmbm_write_info_table b ni d ba limit =
     nmbm_write_mgmt_range b ni d ba limit (info_table_cache ni) (info_table_size ni)"

definition nmbm_mark_tables_clean :: "nmbm_instance \<Rightarrow> nmbm_instance" where
  "nmbm_mark_tables_clean ni = ni\<lparr>block_state_changed := 0, block_mapping_changed := 0\<rparr>"

function nmbm_try_reserve_blocks :: "nmbm_instance \<Rightarrow> u32 \<Rightarrow> int \<Rightarrow> int \<Rightarrow> u32 \<Rightarrow> u32 option" where
  "nmbm_try_reserve_blocks ni ba nblocks min_count limit =
     (if nblocks \<ge> min_count then
        (case nmbm_block_walk ni True ba (word_of_int nblocks) limit of
           Some nba \<Rightarrow> Some nba
         | None \<Rightarrow> nmbm_try_reserve_blocks ni ba (nblocks - 1) min_count limit)
      else None)"
  by pat_completeness auto
termination
  by (relation "measure (\<lambda>(ni, ba, n, m, limit). nat (n - m + 1))") auto

declare nmbm_try_reserve_blocks.simps [simp del]

definition reserve_spare :: "'d bmt_desc \<Rightarrow> nmbm_instance \<Rightarrow> u32 \<Rightarrow> u32 option" where
  "reserve_spare b ni ba =
     nmbm_try_reserve_blocks ni ba (sint (info_table_spare_blocks ni)) 0
       (mapping_blocks_top_ba ni - size2blk b (ucast (info_table_size ni)))"

definition nmbm_rebuild_info_table :: "'d bmt_desc \<Rightarrow> nmbm_instance \<Rightarrow> 'd \<Rightarrow> bool \<times> nmbm_instance \<times> 'd" where
  "nmbm_rebuild_info_table b ni0 d =
     (let ni = ni0\<lparr>main_table_ba := 0, backup_table_ba := 0, mapping_blocks_ba := mapping_blocks_top_ba ni0\<rparr>
      in case nmbm_write_info_table b ni d (mgmt_start_ba ni) (mapping_blocks_top_ba ni) of
           (None, ni1, d1) \<Rightarrow> (False, ni1\<lparr>protected := 1\<rparr>, d1)
         | (Some (ts, te), ni1, d1) \<Rightarrow>
             let ni2 = nmbm_mark_tables_clean (ni1\<lparr>main_table_ba := ts, mapping_blocks_ba := te\<rparr>)
             in case reserve_spare b ni2 te of
                  None \<Rightarrow> (True, ni2, d1)
                | Some nsb \<Rightarrow>
                    (case nmbm_write_info_table b ni2 d1 nsb (mapping_blocks_top_ba ni2) of
                       (None, ni3, d3) \<Rightarrow> (True, ni3, d3)
                     | (Some (ts2, te2), ni3, d3) \<Rightarrow>
                         let ni4 = ni3\<lparr>backup_table_ba := ts2, mapping_blocks_ba := te2\<rparr>;
                             (ni5, d5) = nmbm_erase_range b ni4 d3 te (backup_table_ba ni4)
                         in (True, ni5, d5)))"

text \<open>
  \<open>while (write_ba >= lo) { ... write_ba--; }\<close>: \<open>n\<close> is the number of candidates
  \<open>write_ba - lo + 1\<close>; \<open>lo\<close> is a block of the management area and not 0, else the C
  counter would wrap.
\<close>

fun write_table_down ::
    "nat \<Rightarrow> 'd bmt_desc \<Rightarrow> nmbm_instance \<Rightarrow> 'd \<Rightarrow> u32 \<Rightarrow> (u32 \<times> u32) option \<times> nmbm_instance \<times> 'd" where
  "write_table_down 0 b ni d write_ba = (None, ni, d)"
| "write_table_down (Suc n) b ni d write_ba =
     (case nmbm_write_info_table b ni d write_ba (mapping_blocks_top_ba ni) of
        (Some r, ni1, d1) \<Rightarrow> (Some r, ni1, d1)
      | (None, ni1, d1) \<Rightarrow> write_table_down n b ni1 d1 (write_ba - 1))"

definition down_count :: "u32 \<Rightarrow> u32 \<Rightarrow> nat" where
  "down_count write_ba lo = (if write_ba \<ge> lo then Suc (unat (write_ba - lo)) else 0)"

definition nmbm_rescue_single_info_table ::
    "'d bmt_desc \<Rightarrow> nmbm_instance \<Rightarrow> 'd \<Rightarrow> bool \<times> nmbm_instance \<times> 'd" where
  "nmbm_rescue_single_info_table b ni d =
     (case nmbm_write_info_table b ni d (mgmt_start_ba ni) (main_table_ba ni) of
        (Some (ts, te), ni1, d1) \<Rightarrow>
          let ni2 = nmbm_mark_tables_clean (ni1\<lparr>backup_table_ba := main_table_ba ni1, main_table_ba := ts\<rparr>);
              (ni3, d3) = nmbm_erase_range b ni2 d1 te (backup_table_ba ni2)
          in (True, ni3, d3)
      | (None, ni1, d1) \<Rightarrow>
          case reserve_spare b ni1 (mapping_blocks_ba ni1) of
            None \<Rightarrow> (False, ni1, d1)
          | Some write_ba \<Rightarrow>
              (case write_table_down (down_count write_ba (mapping_blocks_ba ni1)) b ni1 d1 write_ba of
                 (Some (ts, te), ni2, d2) \<Rightarrow>
                   let (ni3, d3) = nmbm_erase_range b ni2 d2 (mapping_blocks_ba ni2) ts
                   in (True, nmbm_mark_tables_clean (ni3\<lparr>backup_table_ba := ts, mapping_blocks_ba := te\<rparr>), d3)
               | (None, ni2, d2) \<Rightarrow> (False, ni2, d2)))"

definition nmbm_update_single_info_table ::
    "'d bmt_desc \<Rightarrow> nmbm_instance \<Rightarrow> 'd \<Rightarrow> bool \<Rightarrow> bool \<times> nmbm_instance \<times> 'd" where
  "nmbm_update_single_info_table b ni d update_main_table =
     (let (wstart, wlimit) = (if update_main_table then (main_table_ba ni, backup_table_ba ni)
                              else (backup_table_ba ni, mapping_blocks_top_ba ni))
      in case nmbm_write_info_table b ni d wstart wlimit of
           (Some (ts, te), ni1, d1) \<Rightarrow>
             (True, nmbm_mark_tables_clean
                (if update_main_table then ni1\<lparr>main_table_ba := ts\<rparr>
                 else ni1\<lparr>backup_table_ba := ts, mapping_blocks_ba := te\<rparr>), d1)
         | (None, ni1, d1) \<Rightarrow>
             if update_main_table then
               nmbm_rescue_single_info_table b
                 (ni1\<lparr>main_table_ba := backup_table_ba ni1, backup_table_ba := 0\<rparr>) d1
             else (False, ni1\<lparr>mapping_blocks_ba := backup_table_ba ni1, backup_table_ba := 0\<rparr>, d1))"

definition backup_to_main :: "nmbm_instance \<Rightarrow> nmbm_instance" where
  "backup_to_main ni = ni\<lparr>main_table_ba := backup_table_ba ni, backup_table_ba := 0\<rparr>"

text \<open>The last part of \<open>nmbm_rescue_main_info_table\<close>: a new backup table behind the new main one.\<close>

definition rescue_new_backup ::
    "'d bmt_desc \<Rightarrow> nmbm_instance \<Rightarrow> 'd \<Rightarrow> u32 \<Rightarrow> bool \<times> nmbm_instance \<times> 'd" where
  "rescue_new_backup b ni d main_end =
     (case reserve_spare b ni main_end of
        None \<Rightarrow> (True, ni\<lparr>backup_table_ba := 0\<rparr>, d)
      | Some write_ba \<Rightarrow>
          (case write_table_down (down_count write_ba main_end) b ni d write_ba of
             (None, ni1, d1) \<Rightarrow> (True, ni1\<lparr>backup_table_ba := 0\<rparr>, d1)
           | (Some (ts, te), ni1, d1) \<Rightarrow>
               let ni2 = ni1\<lparr>backup_table_ba := ts, mapping_blocks_ba := te\<rparr>;
                   (ni3, d3) = nmbm_erase_range b ni2 d1 main_end (backup_table_ba ni2)
               in (True, ni3, d3)))"

definition nmbm_rescue_main_info_table ::
    "'d bmt_desc \<Rightarrow> nmbm_instance \<Rightarrow> 'd \<Rightarrow> bool \<times> nmbm_instance \<times> 'd" where
  "nmbm_rescue_main_info_table b ni d =
     (case reserve_spare b ni (mapping_blocks_ba ni) of
        None \<Rightarrow> (True, backup_to_main ni, d)
      | Some write_ba \<Rightarrow>
          (case write_table_down (down_count write_ba (mapping_blocks_ba ni)) b ni d write_ba of
             (None, ni1, d1) \<Rightarrow> (True, backup_to_main ni1, d1)
           | (Some (tmp_s, tmp_e), ni1, d1) \<Rightarrow>
               let ni2 = ni1\<lparr>mapping_blocks_ba := tmp_e\<rparr>
               in case nmbm_write_info_table b ni2 d1 (mgmt_start_ba ni2) tmp_s of
                    (None, ni3, d3) \<Rightarrow>
                      (True, nmbm_mark_tables_clean (ni3\<lparr>main_table_ba := tmp_s, backup_table_ba := 0\<rparr>), d3)
                  | (Some (ms, me), ni3, d3) \<Rightarrow>
                      let ni4 = nmbm_mark_tables_clean (ni3\<lparr>main_table_ba := ms\<rparr>)
                      in if me \<le> tmp_s then (True, ni4\<lparr>backup_table_ba := tmp_s\<rparr>, d3)
                         else rescue_new_backup b (ni4\<lparr>mapping_blocks_ba := me\<rparr>) d3 me))"

text \<open>\<open>nmbm_update_info_table_once\<close> from the label \<open>write_main_table\<close> on.\<close>

definition update_write_main ::
    "'d bmt_desc \<Rightarrow> nmbm_instance \<Rightarrow> 'd \<Rightarrow> u32 \<Rightarrow> bool \<times> nmbm_instance \<times> 'd" where
  "update_write_main b ni d main_table_limit =
     (if main_table_ba ni = 0 then nmbm_rebuild_info_table b ni d
      else case nmbm_write_info_table b ni d (main_table_ba ni) main_table_limit of
             (None, ni1, d1) \<Rightarrow>
               if backup_table_ba ni1 = 0 then nmbm_rebuild_info_table b ni1 d1
               else nmbm_rescue_main_info_table b ni1 d1
           | (Some (ts, te), ni1, d1) \<Rightarrow>
               let ni2 = ni1\<lparr>main_table_ba := ts\<rparr>;
                   ni3 = (if backup_table_ba ni2 = 0 then ni2\<lparr>mapping_blocks_ba := te\<rparr> else ni2)
               in (True, nmbm_mark_tables_clean ni3, d1))"

definition nmbm_update_info_table_once ::
    "(u32 \<Rightarrow> bytes \<Rightarrow> u32) \<Rightarrow> 'd bmt_desc \<Rightarrow> nmbm_instance \<Rightarrow> 'd \<Rightarrow> bool \<Rightarrow> bool \<times> nmbm_instance \<times> 'd" where
  "nmbm_update_info_table_once crc b ni0 d force =
     (let (changed, ni) = nmbm_generate_info_table_cache crc ni0
      in if \<not> changed \<and> \<not> force then (True, ni, d)
         else if backup_table_ba ni = 0 then update_write_main b ni d (mapping_blocks_top_ba ni)
         else case nmbm_write_info_table b ni d (backup_table_ba ni) (mapping_blocks_top_ba ni) of
                (None, ni1, d1) \<Rightarrow>
                  let ni2 = ni1\<lparr>mapping_blocks_ba := backup_table_ba ni1, backup_table_ba := 0\<rparr>
                  in update_write_main b ni2 d1 (mapping_blocks_top_ba ni2)
              | (Some (ts, te), ni1, d1) \<Rightarrow>
                  let ni2 = nmbm_mark_tables_clean (ni1\<lparr>backup_table_ba := ts, mapping_blocks_ba := te\<rparr>)
                  in update_write_main b ni2 d1 (backup_table_ba ni2))"

section \<open>Progress of the update\<close>

lemma write_mgmt_loop_wears:
  "write_mgmt_loop b ni d ba limit ptr sz remain start = (r, ni', d') \<Longrightarrow> wears ni ni'"
proof (induction b ni d ba limit ptr sz remain start rule: write_mgmt_loop.induct)
  case (1 b ni d ba limit ptr sz remain start)
  obtain er d1 where e: "nmbm_erase_block_and_check b ni d ba = (er, d1)" by fastforce
  obtain wr d2 where w: "(if er then nmbn_write_verify_data b ni d1 (ba2addr b ba) ptr (min remain (blk_size b))
      else (False, d1)) = (wr, d2)" by fastforce
  show ?case
  proof (cases "remain \<noteq> 0 \<and> ba < limit")
    case False
    with "1.prems" show ?thesis by (subst (asm) write_mgmt_loop.simps) auto
  next
    case True
    note eq = "1.prems" [unfolded write_mgmt_loop.simps [of b ni d ba limit ptr sz remain start] Let_def e prod.case w if_P [OF True]]
    consider "nmbm_get_block_state ni ba \<noteq> 3"
      | "nmbm_get_block_state ni ba = 3" "nmbm_check_bad_phys_block b d ba"
      | "nmbm_get_block_state ni ba = 3" "\<not> nmbm_check_bad_phys_block b d ba" "wr"
      | "nmbm_get_block_state ni ba = 3" "\<not> nmbm_check_bad_phys_block b d ba" "\<not> wr"
      by blast
    then show ?thesis
    proof cases
      case 1
      with eq "1.IH"(1) [OF True refl] show ?thesis by simp
    next
      case 2
      with eq "1.IH"(2) [OF True refl] show ?thesis by (auto intro: wears_set_bad_trans)
    next
      case 3
      with eq "1.IH"(3) [OF True refl _ _ e [symmetric] refl w [symmetric] refl] show ?thesis by simp
    next
      case 4
      obtain ni3 d3 where m: "mark_bad b ni d2 ba = (ni3, d3)" by fastforce
      with 4 have "wears ni ni3" by (auto simp: mark_bad_def intro: wears_set_bad)
      moreover have "wears ni3 ni'"
        using eq 4 m "1.IH"(4) [OF True refl _ _ e [symmetric] refl w [symmetric] refl _ m [symmetric] refl] by simp
      ultimately show ?thesis by (rule wears_trans)
    qed
  qed
qed

lemma write_info_table_wears: "nmbm_write_info_table b ni d ba limit = (r, ni', d') \<Longrightarrow> wears ni ni'"
  unfolding nmbm_write_info_table_def nmbm_write_mgmt_range_def by (rule write_mgmt_loop_wears)

lemma write_table_down_wears: "write_table_down n b ni d wba = (r, ni', d') \<Longrightarrow> wears ni ni'"
proof (induction n arbitrary: ni d wba)
  case (Suc n)
  obtain r1 ni1 d1 where w: "nmbm_write_info_table b ni d wba (mapping_blocks_top_ba ni) = (r1, ni1, d1)"
    by (cases "nmbm_write_info_table b ni d wba (mapping_blocks_top_ba ni)")
  show ?case
    using Suc.prems w write_info_table_wears [OF w] wears_trans [OF _ Suc.IH]
    by (cases r1) auto
qed simp

text \<open>
  \<open>settled S ni\<close>: since the good blocks were \<open>S\<close> the tables have been written, and either
  nothing has changed since or a good block has been lost.
\<close>

definition settled :: "u32 set \<Rightarrow> nmbm_instance \<Rightarrow> bool" where
  "settled S ni \<longleftrightarrow> goods ni \<subseteq> S \<and> block_mapping_changed ni = 0 \<and>
     (block_state_changed ni = 0 \<or> goods ni \<subset> S)"

lemma goods_upd [simp]:
  "goods (ni\<lparr>main_table_ba := u\<rparr>) = goods ni" "goods (ni\<lparr>backup_table_ba := u\<rparr>) = goods ni"
  "goods (ni\<lparr>mapping_blocks_ba := u\<rparr>) = goods ni" "goods (ni\<lparr>mapping_blocks_top_ba := u\<rparr>) = goods ni"
  "goods (ni\<lparr>protected := p\<rparr>) = goods ni" "goods (nmbm_mark_tables_clean ni) = goods ni"
  "goods (ni\<lparr>info_table := t, info_table_cache := c\<rparr>) = goods ni"
  by (simp_all add: in_state_def nmbm_get_block_state_def nmbm_mark_tables_clean_def)

lemma settled_upd [simp]:
  "settled S (ni\<lparr>main_table_ba := u\<rparr>) = settled S ni" "settled S (ni\<lparr>backup_table_ba := u\<rparr>) = settled S ni"
  "settled S (ni\<lparr>mapping_blocks_ba := u\<rparr>) = settled S ni"
  by (simp_all add: settled_def)

lemma settled_wears: "settled S ni \<Longrightarrow> wears ni ni' \<Longrightarrow> settled S ni'"
  using wears_goods [of ni ni'] wears_changed [of ni ni'] wears_frame(7) [of ni ni']
  unfolding settled_def by auto

lemma settled_clean: "goods ni \<subseteq> S \<Longrightarrow> settled S (nmbm_mark_tables_clean ni)"
  by (simp add: settled_def) (simp add: nmbm_mark_tables_clean_def)

lemmas settled_write = settled_wears [OF _ write_info_table_wears]
lemmas settled_down = settled_wears [OF _ write_table_down_wears]
lemmas settled_erase = settled_wears [OF _ erase_range_wears]
lemma settled_erase_upd:
  "nmbm_erase_range b (ni\<lparr>backup_table_ba := u, mapping_blocks_ba := v\<rparr>) d x y = (ni', d') \<Longrightarrow>
    settled S ni \<Longrightarrow> settled S ni'"
  by (erule settled_erase [rotated]) simp

lemmas goods_write = order_trans [OF wears_goods [OF write_info_table_wears]]

lemma rebuild_settled:
  assumes "nmbm_rebuild_info_table b ni d = (True, ni', d')" "goods ni \<subseteq> S"
  shows "settled S ni'"
proof -
  let ?n0 = "ni\<lparr>main_table_ba := 0, backup_table_ba := 0, mapping_blocks_ba := mapping_blocks_top_ba ni\<rparr>"
  obtain r ni1 d1 where w: "nmbm_write_info_table b ?n0 d (mgmt_start_ba ni) (mapping_blocks_top_ba ni) = (r, ni1, d1)"
    by (cases "nmbm_write_info_table b ?n0 d (mgmt_start_ba ni) (mapping_blocks_top_ba ni)")
  have g: "goods ni1 \<subseteq> S"
    using goods_write [OF w] assms(2) by simp
  show ?thesis
  proof (cases r)
    case None
    with assms(1) w show ?thesis by (simp add: nmbm_rebuild_info_table_def)
  next
    case (Some p)
    obtain ts te where p: "p = (ts, te)" by fastforce
    define ni2 where "ni2 = nmbm_mark_tables_clean (ni1\<lparr>main_table_ba := ts, mapping_blocks_ba := te\<rparr>)"
    have s: "settled S ni2" unfolding ni2_def using g by (intro settled_clean) simp
    show ?thesis
      using assms(1) w Some p s
      unfolding nmbm_rebuild_info_table_def Let_def
      by (auto simp: ni2_def [symmetric] split: option.splits prod.splits
          dest!: settled_write [OF s] intro: settled_erase_upd)
  qed
qed

lemma rescue_new_backup_settled:
  assumes "rescue_new_backup b ni d me = (r, ni', d')" "settled S ni"
  shows "settled S ni'"
  using assms unfolding rescue_new_backup_def Let_def
  by (auto split: option.splits prod.splits dest!: settled_down [OF assms(2)] intro: settled_erase_upd)

lemma rescue_main_settled:
  assumes "nmbm_rescue_main_info_table b ni d = (r, ni', d')" "settled S ni"
  shows "settled S ni'"
proof (cases "reserve_spare b ni (mapping_blocks_ba ni)")
  case None
  with assms show ?thesis by (auto simp: nmbm_rescue_main_info_table_def backup_to_main_def)
next
  case (Some wba)
  obtain r1 ni1 d1 where w: "write_table_down (down_count wba (mapping_blocks_ba ni)) b ni d wba = (r1, ni1, d1)"
    by (cases "write_table_down (down_count wba (mapping_blocks_ba ni)) b ni d wba")
  have s1: "settled S ni1" by (rule settled_down [OF assms(2) w])
  show ?thesis
  proof (cases r1)
    case None
    with assms Some w s1 show ?thesis by (auto simp: nmbm_rescue_main_info_table_def backup_to_main_def)
  next
    case (Some p)
    obtain ts te where p: "p = (ts, te)" by fastforce
    let ?n2 = "ni1\<lparr>mapping_blocks_ba := te\<rparr>"
    obtain r3 ni3 d3 where w3: "nmbm_write_info_table b ?n2 d1 (mgmt_start_ba ni1) ts = (r3, ni3, d3)"
      by (cases "nmbm_write_info_table b ?n2 d1 (mgmt_start_ba ni1) ts")
    have "goods ni3 \<subseteq> S" using goods_write [OF w3] s1 by (simp add: settled_def)
    then have s4: "settled S (nmbm_mark_tables_clean (ni3\<lparr>main_table_ba := m\<rparr>))"
        "settled S (nmbm_mark_tables_clean (ni3\<lparr>main_table_ba := m, backup_table_ba := 0\<rparr>))" for m
      by (simp_all add: settled_clean)
    note eq = assms(1) [unfolded nmbm_rescue_main_info_table_def Let_def]
    show ?thesis
    proof (cases r3)
      case None
      with eq \<open>reserve_spare _ _ _ = _\<close> w \<open>r1 = _\<close> p w3 s4 show ?thesis by auto
    next
      case (Some q)
      obtain ms me where q: "q = (ms, me)" by fastforce
      show ?thesis
      proof (cases "me \<le> ts")
        case True
        with eq \<open>reserve_spare _ _ _ = _\<close> w \<open>r1 = _\<close> p w3 s4 Some q show ?thesis by auto
      next
        case False
        with eq \<open>reserve_spare _ _ _ = _\<close> w \<open>r1 = _\<close> p w3 Some q
        have "rescue_new_backup b ((nmbm_mark_tables_clean (ni3\<lparr>main_table_ba := ms\<rparr>))
            \<lparr>mapping_blocks_ba := me\<rparr>) d3 me = (r, ni', d')" by simp
        then show ?thesis by (rule rescue_new_backup_settled) (simp add: s4)
      qed
    qed
  qed
qed

lemma update_write_main_settled:
  assumes "update_write_main b ni d lim = (True, ni', d')" "goods ni \<subseteq> S"
    and "backup_table_ba ni = 0 \<or> settled S ni"
  shows "settled S ni'"
proof (cases "main_table_ba ni = 0")
  case True
  with assms show ?thesis by (auto simp: update_write_main_def intro: rebuild_settled)
next
  case False
  obtain r1 ni1 d1 where w: "nmbm_write_info_table b ni d (main_table_ba ni) lim = (r1, ni1, d1)"
    by (cases "nmbm_write_info_table b ni d (main_table_ba ni) lim")
  have g: "goods ni1 \<subseteq> S" using goods_write [OF w] assms(2) by simp
  have bk: "backup_table_ba ni1 = backup_table_ba ni" using wears_frame(12) [OF write_info_table_wears [OF w]] .
  show ?thesis
  proof (cases r1)
    case None
    with assms(1) False w have "(if backup_table_ba ni1 = 0 then nmbm_rebuild_info_table b ni1 d1
        else nmbm_rescue_main_info_table b ni1 d1) = (True, ni', d')"
      by (simp add: update_write_main_def)
    with assms(3) bk g settled_write [OF _ w] show ?thesis
      by (auto intro: rebuild_settled rescue_main_settled split: if_splits)
  next
    case (Some p)
    with assms(1) False w g show ?thesis
      by (cases p; cases "backup_table_ba ni1 = 0")
        (auto simp: update_write_main_def Let_def intro!: settled_clean)
  qed
qed

lemma generate_cache_goods:
  assumes "nmbm_generate_info_table_cache crc ni = (changed, ni')"
  shows "goods ni' = goods ni" "changed \<longleftrightarrow> block_state_changed ni \<noteq> 0 \<or> block_mapping_changed ni \<noteq> 0"
  using assms by (auto simp: nmbm_generate_info_table_cache_def Let_def)

lemma update_once_settled:
  assumes "nmbm_update_info_table_once crc b ni d force = (True, ni', d')"
    and "block_state_changed ni \<noteq> 0 \<or> block_mapping_changed ni \<noteq> 0"
  shows "settled (goods ni) ni'"
proof -
  obtain ch ni0 where gen: "nmbm_generate_info_table_cache crc ni = (ch, ni0)" by fastforce
  have ch: ch and g: "goods ni0 = goods ni"
    using generate_cache_goods [OF gen] assms(2) by simp_all
  note eq = assms(1) [unfolded nmbm_update_info_table_once_def gen Let_def prod.case]
  show ?thesis
  proof (cases "backup_table_ba ni0 = 0")
    case True
    with eq ch g show ?thesis by (auto intro: update_write_main_settled)
  next
    case False
    obtain r1 ni1 d1 where
      w: "nmbm_write_info_table b ni0 d (backup_table_ba ni0) (mapping_blocks_top_ba ni0) = (r1, ni1, d1)"
      by (cases "nmbm_write_info_table b ni0 d (backup_table_ba ni0) (mapping_blocks_top_ba ni0)")
    have g1: "goods ni1 \<subseteq> goods ni" using goods_write [OF w] g by simp
    show ?thesis
    proof (cases r1)
      case None
      with eq ch False w have "update_write_main b (ni1\<lparr>mapping_blocks_ba := backup_table_ba ni1, backup_table_ba := 0\<rparr>)
          d1 (mapping_blocks_top_ba ni1) = (True, ni', d')" by simp
      then show ?thesis by (rule update_write_main_settled) (use g1 in simp_all)
    next
      case (Some p)
      obtain ts te where p: "p = (ts, te)" by fastforce
      let ?n2 = "nmbm_mark_tables_clean (ni1\<lparr>backup_table_ba := ts, mapping_blocks_ba := te\<rparr>)"
      have "settled (goods ni) ?n2" using g1 by (intro settled_clean) simp
      moreover have "update_write_main b ?n2 d1 (backup_table_ba ?n2) = (True, ni', d')"
        using eq ch False w Some p by simp
      ultimately show ?thesis
        using update_write_main_settled [of b ?n2 d1 _ ni' d' "goods ni"] by (simp add: settled_def)
    qed
  qed
qed

definition tables_changed :: "nmbm_instance \<Rightarrow> bool" where
  "tables_changed ni \<longleftrightarrow> block_state_changed ni \<noteq> 0 \<or> block_mapping_changed ni \<noteq> 0"

lemma settled_card:
  assumes "settled (goods ni) ni'" "tables_changed ni'"
  shows "card (goods ni') < card (goods ni)"
  using assms by (auto simp: settled_def tables_changed_def intro!: psubset_card_mono)

lemma settled_card_le: "settled (goods ni) ni' \<Longrightarrow> card (goods ni') \<le> card (goods ni)"
  by (auto simp: settled_def intro: card_mono)

section \<open>nmbm\_update\_info\_table\<close>

function update_info_table_loop ::
    "(u32 \<Rightarrow> bytes \<Rightarrow> u32) \<Rightarrow> 'd bmt_desc \<Rightarrow> nmbm_instance \<Rightarrow> 'd \<Rightarrow> bool \<times> nmbm_instance \<times> 'd" where
  "update_info_table_loop crc b ni d =
     (if tables_changed ni then
        (case nmbm_update_info_table_once crc b ni d False of
           (True, ni1, d1) \<Rightarrow> update_info_table_loop crc b ni1 d1
         | (False, ni1, d1) \<Rightarrow> (False, ni1, d1))
      else (True, ni, d))"
  by pat_completeness auto
termination
proof (relation "measure (\<lambda>(crc, b, ni, d). card (goods ni) + (if tables_changed ni then 1 else 0))", goal_cases)
  case 1
  then show ?case by simp
next
  case (2 crc b ni d r y ni1 d1)
  then have "settled (goods ni) ni1"
    using update_once_settled [of crc b ni d False ni1 d1] by (auto simp: tables_changed_def)
  with 2(1) show ?case
    using settled_card [of ni ni1] settled_card_le [of ni ni1] by auto
qed

declare update_info_table_loop.simps [simp del]

definition nmbm_update_info_table ::
    "(u32 \<Rightarrow> bytes \<Rightarrow> u32) \<Rightarrow> 'd bmt_desc \<Rightarrow> nmbm_instance \<Rightarrow> 'd \<Rightarrow> bool \<times> nmbm_instance \<times> 'd" where
  "nmbm_update_info_table crc b ni d =
     (if protected ni \<noteq> 0 then (True, ni, d) else update_info_table_loop crc b ni d)"

end
