(* ===== verification/Nmbm_Attach.thy ===== *)
theory Nmbm_Attach
  imports Nmbm_Table
begin

text \<open>
  The NMBM back end, third part: mapping a bad block to a spare one, creating the tables on
  a new chip, finding and loading them on a used one, and the four operations the
  translation layer calls. \<open>nmbm_find_signature\<close> counts an unsigned block address down
  past its limit, so with a limit of 0 it need not end; it and what calls it return an
  option.
\<close>

section \<open>Mapping a block\<close>

definition nmbm_map_block ::
    "(u32 \<Rightarrow> bytes \<Rightarrow> u32) \<Rightarrow> 'd bmt_desc \<Rightarrow> nmbm_instance \<Rightarrow> 'd \<Rightarrow> u32 \<Rightarrow> bool \<times> nmbm_instance \<times> 'd" where
  "nmbm_map_block crc b ni d lb =
     (if mapping_blocks_ba ni = mapping_blocks_top_ba ni then (False, ni, d)
      else case nmbm_block_walk ni False (mapping_blocks_top_ba ni) 0 (mapping_blocks_ba ni) of
             None \<Rightarrow>
               let (_, ni1, d1) = nmbm_update_info_table crc b ni d
               in (False, ni1\<lparr>mapping_blocks_top_ba := mapping_blocks_ba ni1\<rparr>, d1)
           | Some pb \<Rightarrow>
               (True, ni\<lparr>block_mapping := (block_mapping ni)[unat lb := pb],
                         mapping_blocks_top_ba := mapping_blocks_top_ba ni - 1,
                         block_mapping_changed := block_mapping_changed ni + 1\<rparr>, d))"

section \<open>Creating the tables\<close>

text \<open>\<open>lim\<close> is \<open>ni->mgmt_start_ba\<close>, which the loop does not change.\<close>

function remap_tail_loop ::
    "(u32 \<Rightarrow> bytes \<Rightarrow> u32) \<Rightarrow> 'd bmt_desc \<Rightarrow> u32 \<Rightarrow> u32 \<Rightarrow> nmbm_instance \<Rightarrow> 'd \<Rightarrow> nmbm_instance \<times> 'd" where
  "remap_tail_loop crc b lim lb ni d =
     (if lb < lim then
        (case nmbm_map_block crc b ni d lb of
           (False, ni1, d1) \<Rightarrow> (ni1, d1)
         | (True, ni1, d1) \<Rightarrow>
             remap_tail_loop crc b lim (lb + 1) (ni1\<lparr>data_block_count := data_block_count ni1 + 1\<rparr>) d1)
      else (ni, d))"
  by pat_completeness auto
termination
  by (relation "measure (\<lambda>(crc, b, lim, lb, ni, d). unat lim - unat lb)") (auto simp: word_less_unat)

declare remap_tail_loop.simps [simp del]

definition nmbm_create_info_table ::
    "(u32 \<Rightarrow> bytes \<Rightarrow> u32) \<Rightarrow> 'd bmt_desc \<Rightarrow> nmbm_instance \<Rightarrow> 'd \<Rightarrow> bool \<times> nmbm_instance \<times> 'd" where
  "nmbm_create_info_table crc b ni d =
     (case nmbm_block_walk ni False (signature_ba ni) 1 (mgmt_start_ba ni) of
        None \<Rightarrow> (False, ni, d)
      | Some tba \<Rightarrow>
          let (_, ni1) = nmbm_generate_info_table_cache crc (ni\<lparr>mapping_blocks_top_ba := tba\<rparr>)
          in case nmbm_rebuild_info_table b ni1 d of
               (False, ni2, d2) \<Rightarrow> (False, ni2, d2)
             | (True, ni2, d2) \<Rightarrow>
                 let (ni3, d3) = remap_tail_loop crc b (mgmt_start_ba ni2) (data_block_count ni2) ni2 d2
                 in nmbm_update_info_table crc b ni3 d3)"

definition nmbm_mgmt_start :: "nmbm_instance \<Rightarrow> u32" where
  "nmbm_mgmt_start ni =
     (let m = block_count ni * (NMBM_MGMT_DIV - max_ratio ni) div NMBM_MGMT_DIV
      in if max_reserved_blocks ni \<noteq> 0 \<and> block_count ni - m > max_reserved_blocks ni
         then block_count ni - max_reserved_blocks ni else m)"

text \<open>\<open>bmtd.total_blks << bmtd.blk_shift\<close>, an int that is converted to 64 bits.\<close>

definition chip_size :: "'d bmt_desc \<Rightarrow> u64" where
  "chip_size b = scast (push_bit (unat (blk_shift b)) (ucast (total_blks b) :: u32))"

definition new_signature :: "'d bmt_desc \<Rightarrow> nmbm_instance \<Rightarrow> nmbm_signature" where
  "new_signature b ni =
     (signature ni)\<lparr>sig_header := (sig_header (signature ni))
                       \<lparr>h_magic := NMBM_MAGIC_SIGNATURE, h_version := NMBM_VER, h_size := 48\<rparr>,
        nand_size := chip_size b, block_size := blk_size b, page_size := pg_size b,
        spare_size := mtd_oobsize b, mgmt_start_pb := mgmt_start_ba ni, max_try_count := 3\<rparr>"

definition nmbm_create_new ::
    "(u32 \<Rightarrow> bytes \<Rightarrow> u32) \<Rightarrow> 'd bmt_desc \<Rightarrow> nmbm_instance \<Rightarrow> 'd \<Rightarrow> bool \<times> nmbm_instance \<times> 'd" where
  "nmbm_create_new crc b ni0 d =
     (let ni1 = nmbm_build_mapping_table (nmbm_scan_badblocks b d (ni0\<lparr>mgmt_start_ba := nmbm_mgmt_start ni0\<rparr>));
          ni2 = ni1\<lparr>signature := sig_read (nmbm_update_checksum crc (sig_bytes (new_signature b ni1)))\<rparr>
      in case nmbm_write_signature b ni2 d (mgmt_start_ba ni2) (signature ni2) of
           (None, ni3, d3) \<Rightarrow> (False, ni3, d3)
         | (Some sba, ni3, d3) \<Rightarrow> nmbm_create_info_table crc b (ni3\<lparr>signature_ba := sba\<rparr>) d3)"

section \<open>Checking an info table\<close>

definition nmbm_check_info_table_header :: "nmbm_instance \<Rightarrow> bytes \<Rightarrow> bool" where
  "nmbm_check_info_table_header ni dat =
     (let ifthdr = it_read dat
      in if h_magic (it_header ifthdr) \<noteq> NMBM_MAGIC_INFO_TABLE then False
         else if h_size (it_header ifthdr) \<noteq> info_table_size ni then False
         else if mapping_table_off ifthdr - state_table_off ifthdr < state_table_size ni then False
         else if info_table_size ni - mapping_table_off ifthdr < mapping_table_size ni then False
         else True)"

definition words_at :: "bytes \<Rightarrow> u32 \<Rightarrow> u32 list" where
  "words_at dat off = rd32s ((length dat - unat off) div 4) dat (unat off)"

text \<open>The two loops: block addresses \<open>ba\<close> in rising order. The mapping entries compare as unsigned.\<close>

fun check_mapping_loop :: "nmbm_instance \<Rightarrow> u32 \<Rightarrow> u32 list \<Rightarrow> u32 list \<Rightarrow> u32 \<Rightarrow> u32 option" where
  "check_mapping_loop ni end_ba mp [] mn = Some mn"
| "check_mapping_loop ni end_ba mp (ba # bas) mn =
     (let m = nth_or mp (unat ba)
      in if m \<ge> data_block_count ni \<and> m < end_ba \<or> m = signature_ba ni then None
         else check_mapping_loop ni end_ba mp bas (if m \<ge> end_ba \<and> m < mn then m else mn))"

definition u32_range :: "u32 \<Rightarrow> u32 \<Rightarrow> u32 list" where
  "u32_range lo hi = map of_nat [unat lo..<unat hi]"

definition nmbm_check_info_table :: "nmbm_instance \<Rightarrow> u32 \<Rightarrow> u32 \<Rightarrow> bytes \<Rightarrow> u32 option" where
  "nmbm_check_info_table ni start_ba end_ba dat =
     (let ifthdr = it_read dat;
          mp = words_at dat (mapping_table_off ifthdr);
          st = words_at dat (state_table_off ifthdr)
      in case check_mapping_loop ni end_ba mp (u32_range 0 (data_block_count ni)) (signature_ba ni) of
           None \<Rightarrow> None
         | Some mn \<Rightarrow>
             if list_ex (\<lambda>ba. nmbm_get_block_state ni ba = BLOCK_ST_GOOD \<and>
                              nmbm_get_block_state_raw st ba \<noteq> BLOCK_ST_GOOD) (u32_range start_ba end_ba)
             then None else Some (mn - 1))"

section \<open>Loading an info table\<close>

text \<open>
  The reading loop of \<open>nmbm_try_load_info_table\<close>. \<open>buf\<close> is what has been read into
  \<open>info_table_cache\<close>; \<open>start\<close> is \<open>None\<close> while \<open>checkhdr\<close> is set. The result is the table's
  start and end and its bytes, or \<open>None\<close> where the function returns false.
\<close>

function try_load_loop ::
    "'d bmt_desc \<Rightarrow> nmbm_instance \<Rightarrow> 'd \<Rightarrow> u32 \<Rightarrow> u32 \<Rightarrow> u32 \<Rightarrow> u32 option \<Rightarrow> bytes
       \<Rightarrow> (u32 \<times> u32 \<times> bytes) option \<times> nmbm_instance \<times> 'd" where
  "try_load_loop b ni d ba limit remain start buf =
     (if remain \<noteq> 0 \<and> ba < limit then
        (if nmbm_get_block_state ni ba \<noteq> BLOCK_ST_GOOD then
           try_load_loop b ni d (ba + 1) limit remain start buf
         else if nmbm_check_bad_phys_block b d ba then
           try_load_loop b (set_bad ni ba) d (ba + 1) limit remain start buf
         else
           let chunk = min remain (blk_size b);
               (ret, dat, d1) = nmbn_read_data b d (ba2addr b ba) chunk
           in if ret < 0 then try_load_loop b (set_bad ni ba) d1 (ba + 1) limit remain start buf
              else if ret > 0 then (None, ni, d1)
              else if start = None \<and> \<not> nmbm_check_info_table_header ni dat then (None, ni, d1)
              else try_load_loop b ni d1 (ba + 1) limit (remain - chunk)
                     (if start = None then Some ba else start) (buf @ dat))
      else (if remain \<noteq> 0 then None
            else Some (case start of None \<Rightarrow> 0 | Some s \<Rightarrow> s, ba, buf), ni, d))"
  by pat_completeness auto
termination
  by (relation "measure (\<lambda>(b, ni, d, ba, limit, remain, start, buf). unat limit - unat ba)")
    (auto simp: word_less_unat)

declare try_load_loop.simps [simp del]

text \<open>The result of a load: \<open>eba\<close>, \<open>write_count\<close> and \<open>mapping_blocks_top_ba\<close>.\<close>

definition nmbm_try_load_info_table ::
    "(u32 \<Rightarrow> bytes \<Rightarrow> u32) \<Rightarrow> 'd bmt_desc \<Rightarrow> nmbm_instance \<Rightarrow> 'd \<Rightarrow> u32 \<Rightarrow> bool
       \<Rightarrow> (u32 \<times> u32 \<times> u32) option \<times> nmbm_instance \<times> 'd" where
  "nmbm_try_load_info_table crc b ni d ba table_loaded =
     (case try_load_loop b ni d ba (ba + size2blk b (ucast (info_table_size ni))) (info_table_size ni) None [] of
        (None, ni1, d1) \<Rightarrow> (None, ni1, d1)
      | (Some (start_ba, eba, buf), ni1, d1) \<Rightarrow>
          let ni2 = ni1\<lparr>info_table_cache := buf\<rparr>; ifthdr = it_read buf
          in if \<not> nmbm_check_header crc buf (info_table_size ni2) then (None, ni2, d1)
             else case nmbm_check_info_table ni2 start_ba eba buf of
                    None \<Rightarrow> (None, ni2, d1)
                  | Some mtop \<Rightarrow>
                      (Some (eba, write_count ifthdr, mtop),
                       if \<not> table_loaded \<or> write_count ifthdr > write_count (info_table ni2)
                       then ni2\<lparr>info_table := ifthdr,
                                block_state := rd32s (unat (state_table_size ni2) div 4) buf (unat (state_table_off ifthdr)),
                                block_mapping := rd32s (unat (mapping_table_size ni2) div 4) buf (unat (mapping_table_off ifthdr))\<rparr>
                       else ni2, d1))"

text \<open>\<open>lim\<close> is \<open>limit - size2blk(ni, ni->info_table_size)\<close>, which the loop does not change.\<close>

function search_loop ::
    "(u32 \<Rightarrow> bytes \<Rightarrow> u32) \<Rightarrow> 'd bmt_desc \<Rightarrow> u32 \<Rightarrow> u32 \<Rightarrow> bool \<Rightarrow> nmbm_instance \<Rightarrow> 'd
       \<Rightarrow> (u32 \<times> u32 \<times> u32 \<times> u32) option \<times> nmbm_instance \<times> 'd" where
  "search_loop crc b ba lim table_loaded ni d =
     (if ba < lim then
        (case nmbm_try_load_info_table crc b ni d ba table_loaded of
           (Some (eba, wc, mtop), ni1, d1) \<Rightarrow> (Some (ba, eba, wc, mtop), ni1, d1)
         | (None, ni1, d1) \<Rightarrow> search_loop crc b (ba + 1) lim table_loaded ni1 d1)
      else (None, ni, d))"
  by pat_completeness auto
termination
  by (relation "measure (\<lambda>(crc, b, ba, lim, tl, ni, d). unat lim - unat ba)") (auto simp: word_less_unat)

declare search_loop.simps [simp del]

definition nmbm_search_info_table ::
    "(u32 \<Rightarrow> bytes \<Rightarrow> u32) \<Rightarrow> 'd bmt_desc \<Rightarrow> nmbm_instance \<Rightarrow> 'd \<Rightarrow> u32 \<Rightarrow> u32 \<Rightarrow> bool
       \<Rightarrow> (u32 \<times> u32 \<times> u32 \<times> u32) option \<times> nmbm_instance \<times> 'd" where
  "nmbm_search_info_table crc b ni d ba limit table_loaded =
     search_loop crc b ba (limit - size2blk b (ucast (info_table_size ni))) table_loaded ni d"

fun last_mapped :: "u32 list \<Rightarrow> nat \<Rightarrow> nat option" where
  "last_mapped mp 0 = None"
| "last_mapped mp (Suc i) = (if sint (nth_or mp i) \<ge> 0 then Some (Suc i) else last_mapped mp i)"

text \<open>The end of \<open>nmbm_load_info_table\<close>: repair the copies, then decide on write protection.\<close>

definition load_finish ::
    "'d bmt_desc \<Rightarrow> nmbm_instance \<Rightarrow> 'd \<Rightarrow> u32 \<Rightarrow> u32 \<Rightarrow> nmbm_instance \<times> 'd" where
  "load_finish b ni d main_wc backup_wc =
     (let (success, ni1, d1) =
            (if backup_table_ba ni = 0 then nmbm_rescue_single_info_table b ni d
             else if main_wc \<noteq> backup_wc then
               nmbm_update_single_info_table b
                 (ni\<lparr>block_state_changed := 1, block_mapping_changed := 1\<rparr>) d (main_wc < backup_wc)
             else (True, ni, d))
      in if mapping_blocks_ba ni1 = mapping_blocks_top_ba ni1 then (ni1\<lparr>protected := 1\<rparr>, d1)
         else if \<not> success then (ni1\<lparr>protected := 1\<rparr>, d1)
         else (ni1, d1))"

definition nmbm_load_info_table ::
    "(u32 \<Rightarrow> bytes \<Rightarrow> u32) \<Rightarrow> 'd bmt_desc \<Rightarrow> nmbm_instance \<Rightarrow> 'd \<Rightarrow> u32 \<Rightarrow> u32
       \<Rightarrow> bool \<times> nmbm_instance \<times> 'd" where
  "nmbm_load_info_table crc b ni0 d ba limit =
     (let ni = ni0\<lparr>main_table_ba := 0, backup_table_ba := 0,
                   info_table := (info_table ni0)\<lparr>write_count := 0\<rparr>,
                   mapping_blocks_top_ba := signature_ba ni0 - 1,
                   data_block_count := mgmt_start_pb (signature ni0)\<rparr>
      in case nmbm_search_info_table crc b ni d ba limit False of
           (None, ni1, d1) \<Rightarrow> (False, ni1, d1)
         | (Some (mba, main_end, main_wc, main_top), ni1, d1) \<Rightarrow>
             let ni2 = ni1\<lparr>main_table_ba := mba\<rparr>;
                 (r, ni3, d3) = nmbm_search_info_table crc b ni2 d1 main_end limit True;
                 (ni4, table_end, backup_wc, backup_top) =
                   (case r of None \<Rightarrow> (ni3, main_end, 0, 0)
                    | Some (bba, bend, bwc, btop) \<Rightarrow> (ni3\<lparr>backup_table_ba := bba\<rparr>, bend, bwc, btop));
                 ni5 = ni4\<lparr>mapping_blocks_top_ba :=
                             (if backup_table_ba ni4 = 0 then main_top
                              else if main_wc \<ge> backup_wc then main_top else backup_top),
                           mapping_blocks_ba := table_end\<rparr>;
                 ni6 = (case last_mapped (block_mapping ni5) (unat (mgmt_start_pb (signature ni5))) of
                          None \<Rightarrow> ni5 | Some i \<Rightarrow> ni5\<lparr>data_block_count := of_nat i\<rparr>);
                 (_, ni7) = nmbm_generate_info_table_cache crc ni6;
                 (ni8, d8) = load_finish b ni7 d3 main_wc backup_wc
             in (True, ni8, d8))"

definition nmbm_load_existing ::
    "(u32 \<Rightarrow> bytes \<Rightarrow> u32) \<Rightarrow> 'd bmt_desc \<Rightarrow> nmbm_instance \<Rightarrow> 'd \<Rightarrow> bool \<times> nmbm_instance \<times> 'd" where
  "nmbm_load_existing crc b ni0 d =
     (let ni = ni0\<lparr>mgmt_start_ba := mgmt_start_pb (signature ni0)\<rparr>
      in case nmbm_load_info_table crc b ni d (mgmt_start_ba ni) (signature_ba ni) of
           (True, ni1, d1) \<Rightarrow> (True, ni1, d1)
         | (False, ni1, d1) \<Rightarrow>
             if \<not> force_create ni1 then (False, ni1, d1)
             else nmbm_create_info_table crc b (nmbm_build_mapping_table (nmbm_scan_badblocks b d1 ni1)) d1)"

section \<open>Attaching\<close>

fun find_sig_page ::
    "(u32 \<Rightarrow> bytes \<Rightarrow> u32) \<Rightarrow> 'd bmt_desc \<Rightarrow> u64 \<Rightarrow> u64 list \<Rightarrow> 'd \<Rightarrow> nmbm_signature option \<times> 'd" where
  "find_sig_page crc b addr [] d = (None, d)"
| "find_sig_page crc b addr (off # offs) d =
     (let (ret, sig, d1) = nmbn_read_data b d (addr + off) 48
      in if ret \<noteq> 0 then find_sig_page crc b addr offs d1
         else if \<not> nmbm_check_header crc sig 48 then find_sig_page crc b addr offs d1
         else if h_magic (sig_header (sig_read sig)) = NMBM_MAGIC_SIGNATURE then (Some (sig_read sig), d1)
         else find_sig_page crc b addr offs d1)"

definition find_sig_limit :: "'d bmt_desc \<Rightarrow> nmbm_instance \<Rightarrow> u32" where
  "find_sig_limit b ni =
     (let cnt = (ucast (total_blks b) :: u32);
          limit = cnt div NMBM_MGMT_DIV * (NMBM_MGMT_DIV - max_ratio ni)
      in if max_reserved_blocks ni \<noteq> 0 \<and> cnt - limit > max_reserved_blocks ni
         then cnt - max_reserved_blocks ni else limit)"

partial_function (option) find_sig_loop ::
    "(u32 \<Rightarrow> bytes \<Rightarrow> u32) \<Rightarrow> 'd bmt_desc \<Rightarrow> u32 \<Rightarrow> u32 \<Rightarrow> 'd \<Rightarrow> ((nmbm_signature \<times> u32) option \<times> 'd) option" where
  "find_sig_loop crc b limit ba d =
     (if ba \<ge> limit then
        (if nmbm_check_bad_phys_block b d (ba - 1) then find_sig_loop crc b limit (ba - 1) d
         else case find_sig_page crc b (ba2addr b (ba - 1)) (page_offs b) d of
                (Some sig, d1) \<Rightarrow> Some (Some (sig, ba - 1), d1)
              | (None, d1) \<Rightarrow> find_sig_loop crc b limit (ba - 1) d1)
      else Some (None, d))"

declare find_sig_loop.simps [code]

definition nmbm_find_signature ::
    "(u32 \<Rightarrow> bytes \<Rightarrow> u32) \<Rightarrow> 'd bmt_desc \<Rightarrow> nmbm_instance \<Rightarrow> 'd
       \<Rightarrow> ((nmbm_signature \<times> u32) option \<times> 'd) option" where
  "nmbm_find_signature crc b ni d = find_sig_loop crc b (find_sig_limit b ni) (ucast (total_blks b)) d"

definition align_pg :: "'d bmt_desc \<Rightarrow> u32 \<Rightarrow> u32" where
  "align_pg b x = (x + (pg_size b - 1)) AND NOT (pg_size b - 1)"

definition nmbm_state_size :: "u32 \<Rightarrow> u32" where
  "nmbm_state_size cnt = (cnt + 16 - 1) div 16 * 4"

definition nmbm_calc_structure_size :: "'d bmt_desc \<Rightarrow> u64 \<Rightarrow> u64" where
  "nmbm_calc_structure_size b sizeof_instance =
     (let cnt = ucast (total_blks b); st = nmbm_state_size cnt; mp = cnt * 4;
          it = align_pg b 32 + align_pg b st + align_pg b mp
      in ucast (it + st + mp) + sizeof_instance)"

definition nmbm_init_structure :: "'d bmt_desc \<Rightarrow> nmbm_instance \<Rightarrow> nmbm_instance" where
  "nmbm_init_structure b ni =
     (let cnt = ucast (total_blks b);
          st = nmbm_state_size cnt; mp = cnt * 4;
          soff = align_pg b 32; moff = soff + align_pg b st; its = moff + align_pg b mp;
          raw = pg_size b + mtd_oobsize b; rawblk = blk_size b div pg_size b * raw
      in ni\<lparr>rawpage_size := raw, rawblock_size := rawblk, rawchip_size := cnt * rawblk,
            block_count := cnt, state_table_size := st, mapping_table_size := mp,
            info_table_size := its,
            info_table := (info_table ni)\<lparr>state_table_off := soff, mapping_table_off := moff\<rparr>,
            info_table_spare_blocks := nmbm_get_spare_block_count (size2blk b (ucast its)),
            info_table_cache := replicate (unat its) 0,
            block_state := replicate (unat st div 4) 0xffffffff, block_state_changed := 0,
            block_mapping := replicate (unat mp div 4) 0, block_mapping_changed := 0\<rparr>)"

definition nmbm_attach ::
    "(u32 \<Rightarrow> bytes \<Rightarrow> u32) \<Rightarrow> 'd bmt_desc \<Rightarrow> nmbm_instance \<Rightarrow> 'd \<Rightarrow> (int \<times> nmbm_instance \<times> 'd) option" where
  "nmbm_attach crc b ni0 d =
     (let ni = nmbm_init_structure b ni0
      in case nmbm_find_signature crc b ni d of
           None \<Rightarrow> None
         | Some (None, d1) \<Rightarrow>
             if \<not> force_create ni then Some (- ENODEV, ni, d1)
             else (let (success, ni2, d2) = nmbm_create_new crc b ni d1
                   in Some (if success then 0 else - ENODEV, ni2, d2))
         | Some (Some (sig, sba), d1) \<Rightarrow>
             let ni1 = ni\<lparr>signature := sig, signature_ba := sba\<rparr>
             in if h_version (sig_header sig) \<noteq> NMBM_VER then Some (- EINVAL, ni1, d1)
                else if nand_size sig \<noteq> chip_size b \<or> block_size sig \<noteq> blk_size b \<or>
                        page_size sig \<noteq> pg_size b \<or> spare_size sig \<noteq> mtd_oobsize b
                then Some (- EINVAL, ni1, d1)
                else (let (success, ni2, d2) = nmbm_load_existing crc b ni1 d1
                      in Some (if success then 0 else - ENODEV, ni2, d2)))"

section \<open>The operations of the back end\<close>

definition remap_block_nmbm ::
    "(u32 \<Rightarrow> bytes \<Rightarrow> u32) \<Rightarrow> 'd bmt_desc \<Rightarrow> u16 \<Rightarrow> u16 \<Rightarrow> int \<Rightarrow> nmbm_instance \<Rightarrow> 'd \<Rightarrow> bool \<times> nmbm_instance \<times> 'd" where
  "remap_block_nmbm crc b block mapped_block copy_len ni d =
     (if ucast block \<ge> data_block_count ni then (False, ni, d)
      else
        let (_, ni1) = nmbm_set_block_state ni (ucast mapped_block) BLOCK_ST_BAD
        in case nmbm_map_block crc b ni1 d (ucast block) of
             (False, ni2, d2) \<Rightarrow> (False, ni2, d2)
           | (True, ni2, d2) \<Rightarrow>
               let new_block = (ucast (nth_or (block_mapping ni2) (unat block)) :: u16);
                   (_, d3) = bbt_nand_erase b d2 new_block;
                   d4 = (if copy_len > 0 then snd (bbt_nand_copy b d3 new_block mapped_block copy_len) else d3);
                   (_, ni5, d5) = nmbm_update_info_table crc b ni2 d4
               in (True, ni5, d5))"

definition get_mapping_block_index_nmbm :: "'d bmt_desc \<Rightarrow> int \<Rightarrow> nmbm_instance \<Rightarrow> int" where
  "get_mapping_block_index_nmbm b block ni =
     (if (word_of_int block :: u32) \<ge> data_block_count ni then - 1
      else sint (nth_or (block_mapping ni) (nat block)))"

fun unmap_start :: "nmbm_instance \<Rightarrow> nat \<Rightarrow> nat option" where
  "unmap_start ni s =
     (if nth_or (block_mapping ni) s \<ge> mapping_blocks_ba ni then
        (case s of 0 \<Rightarrow> None | Suc p \<Rightarrow> unmap_start ni p)
      else Some s)"

declare unmap_start.simps [simp del]

definition unmap_top :: "nmbm_instance \<Rightarrow> u32" where
  "unmap_top ni =
     fold (\<lambda>i nb. let cur = nth_or (block_mapping ni) i
                  in if cur < mapping_blocks_ba ni then nb
                     else if sint cur \<le> sint nb then cur - 1 else nb)
       [0..<unat (data_block_count ni)] (signature_ba ni - 1)"

definition unmap_block_nmbm ::
    "(u32 \<Rightarrow> bytes \<Rightarrow> u32) \<Rightarrow> 'd bmt_desc \<Rightarrow> u16 \<Rightarrow> nmbm_instance \<Rightarrow> 'd \<Rightarrow> nmbm_instance \<times> 'd" where
  "unmap_block_nmbm crc b block ni d =
     (if ucast block \<ge> data_block_count ni then (ni, d)
      else case unmap_start ni (unat block) of
             None \<Rightarrow> (ni, d)
           | Some start \<Rightarrow>
               if start = unat block then (ni, d)
               else
                 let new_block = nth_or (block_mapping ni) start + of_nat (unat block - start);
                     (_, ni1) = nmbm_set_block_state ni new_block BLOCK_ST_GOOD;
                     ni2 = ni1\<lparr>block_mapping := (block_mapping ni1)[unat block := new_block],
                               block_mapping_changed := block_mapping_changed ni1 + 1\<rparr>;
                     ni3 = ni2\<lparr>mapping_blocks_top_ba := unmap_top ni2\<rparr>;
                     (_, ni4, d4) = nmbm_update_info_table crc b ni3 d
                 in (ni4, d4))"

definition mtk_bmt_nmbm_ops :: "(u32 \<Rightarrow> bytes \<Rightarrow> u32) \<Rightarrow> (nmbm_instance, 'd) mtk_bmt_ops" where
  "mtk_bmt_nmbm_ops crc =
     \<lparr>remap_block = remap_block_nmbm crc, unmap_block = unmap_block_nmbm crc,
      get_mapping_block = get_mapping_block_index_nmbm\<rparr>"

text \<open>The blocks \<open>mtk_bmt_debug_nmbm\<close> prints for the value 0, each with its physical block.\<close>

definition mtk_bmt_debug_nmbm :: "nmbm_instance \<Rightarrow> u64 \<Rightarrow> (nat \<times> u32) list" where
  "mtk_bmt_debug_nmbm ni val =
     (if val = 0 then
        map (\<lambda>i. (i, nth_or (block_mapping ni) i))
          (filter (\<lambda>i. \<not> nth_or (block_mapping ni) i < mapping_blocks_ba ni) [1..<unat (data_block_count ni)])
      else [])"

text \<open>The instance is zeroed memory (\<open>zero_ni\<close> up to the fields \<open>nmbm_init_structure\<close> sets).\<close>

definition zero_hdr :: nmbm_header where
  "zero_hdr = \<lparr>h_magic = 0, h_version = 0, h_size = 0, h_checksum = 0\<rparr>"

definition zero_ni :: nmbm_instance where
  "zero_ni = \<lparr>rawpage_size = 0, rawblock_size = 0, rawchip_size = 0,
     signature = \<lparr>sig_header = zero_hdr, nand_size = 0, block_size = 0, page_size = 0, spare_size = 0,
                  mgmt_start_pb = 0, max_try_count = 0\<rparr>,
     info_table_cache = [], info_table_size = 0, info_table_spare_blocks = 0,
     info_table = \<lparr>it_header = zero_hdr, write_count = 0, state_table_off = 0, mapping_table_off = 0, it_padding = 0\<rparr>,
     block_state = [], block_state_changed = 0, state_table_size = 0,
     block_mapping = [], block_mapping_changed = 0, mapping_table_size = 0,
     protected = 0, block_count = 0, data_block_count = 0, mgmt_start_ba = 0, main_table_ba = 0,
     backup_table_ba = 0, mapping_blocks_ba = 0, mapping_blocks_top_ba = 0, signature_ba = 0,
     max_ratio = 0, max_reserved_blocks = 0, empty_page_ecc_ok = False, force_create = False\<rparr>"

text \<open>The device tree properties are options (absent or a value) and flags.\<close>

definition mtk_bmt_init_nmbm ::
    "(u32 \<Rightarrow> bytes \<Rightarrow> u32) \<Rightarrow> 'd bmt_desc \<Rightarrow> u32 option \<Rightarrow> u32 option \<Rightarrow> bool \<Rightarrow> bool \<Rightarrow> bool \<Rightarrow> 'd
       \<Rightarrow> (int \<times> nmbm_instance option \<times> 'd bmt_desc \<times> 'd) option" where
  "mtk_bmt_init_nmbm crc b dt_max_ratio dt_max_reserved dt_ecc_ok dt_force kzalloc_ok d =
     (if \<not> kzalloc_ok then Some (- ENOMEM, None, b, d)
      else
        let ni = zero_ni\<lparr>max_ratio := (case dt_max_ratio of None \<Rightarrow> 1 | Some n \<Rightarrow> n),
                         max_reserved_blocks := (case dt_max_reserved of None \<Rightarrow> 256 | Some n \<Rightarrow> n),
                         empty_page_ecc_ok := dt_ecc_ok, force_create := dt_force\<rparr>
        in case nmbm_attach crc b ni d of
             None \<Rightarrow> None
           | Some (ret, ni1, d1) \<Rightarrow>
               if ret \<noteq> 0 then Some (ret, None, b, d1)
               else Some (0, Some ni1,
                      b\<lparr>mtd_size := ucast (push_bit (unat (blk_shift b)) (data_block_count ni1))\<rparr>, d1))"

end
