(* ===== verification/Nmbm_Facts.thy ===== *)
theory Nmbm_Facts
  imports Nmbm_Attach Bmt_Io Nand_Sim
begin

text \<open>
  What the NMBM back end guarantees: checksummed structures and info tables read back what
  was written, the bitmap behaves as an array of states, the initial mapping lists the
  usable blocks, the update loop ends with tables that match the state in memory, and a
  remap moves exactly one logical block to a good spare block.
\<close>

section \<open>Checksums\<close>

lemma length_memcpy_at [simp]: "off + length src \<le> length buf \<Longrightarrow> length (memcpy_at buf off src) = length buf"
  by (simp add: memcpy_at_def)

lemma rd32_memcpy_before: "k + 4 \<le> off \<Longrightarrow> off \<le> length buf \<Longrightarrow> rd32 (memcpy_at buf off src) k = rd32 buf k"
  by (simp add: memcpy_at_def rd32_append_left rd32_take)

lemma rd32_memcpy_inside:
  "off \<le> k \<Longrightarrow> k + 4 \<le> off + length src \<Longrightarrow> off \<le> length buf \<Longrightarrow> rd32 (memcpy_at buf off src) k = rd32 src (k - off)"
  by (simp add: memcpy_at_def rd32_append_right rd32_append_left)

lemma rd32_memcpy_after:
  "off + length src \<le> k \<Longrightarrow> off \<le> length buf \<Longrightarrow> rd32 (memcpy_at buf off src) k = rd32 buf k"
  by (simp add: memcpy_at_def rd32_append_right rd32_drop)

lemmas rd32_memcpy = rd32_memcpy_before rd32_memcpy_inside rd32_memcpy_after

text \<open>\<open>crc32_le\<close> is a streaming checksum: a run over two buffers is one run over both.\<close>

definition crc_streams :: "(u32 \<Rightarrow> bytes \<Rightarrow> u32) \<Rightarrow> bool" where
  "crc_streams crc \<longleftrightarrow> (\<forall>v xs ys. crc v (xs @ ys) = crc (crc v xs) ys)"

lemma nmbm_crc32_eq:
  assumes "crc_streams crc"
  shows "nmbm_crc32 crc v bs = (if bs = [] then v else crc v bs)"
  using assms
proof (induction crc v bs rule: nmbm_crc32.induct)
  case (1 crc v bs)
  show ?case
  proof (cases "bs = []")
    case True
    then show ?thesis by (subst nmbm_crc32.simps) simp
  next
    case False
    define n where "n = crc_chunk bs"
    have e: "nmbm_crc32 crc v bs = nmbm_crc32 crc (crc v (take n bs)) (drop n bs)"
      using False unfolding n_def by (subst nmbm_crc32.simps) (simp only: if_False Let_def)
    also have "\<dots> = (if drop n bs = [] then crc v (take n bs) else crc (crc v (take n bs)) (drop n bs))"
      using "1.IH" [OF False refl "1.prems"] unfolding n_def .
    also have "\<dots> = crc v bs"
    proof (cases "drop n bs = []")
      case True
      then show ?thesis by simp
    next
      case False
      have "crc v (take n bs @ drop n bs) = crc (crc v (take n bs)) (drop n bs)"
        using "1.prems" unfolding crc_streams_def by blast
      with False show ?thesis by simp
    qed
    finally show ?thesis using False by simp
  qed
qed

lemma nmbm_crc32_append:
  "crc_streams crc \<Longrightarrow> nmbm_crc32 crc v (xs @ ys) = nmbm_crc32 crc (nmbm_crc32 crc v xs) ys"
  by (simp add: nmbm_crc32_eq) (simp add: crc_streams_def)

lemma hdr_bytes_read: "16 \<le> length bs \<Longrightarrow> hdr_bytes (hdr_read bs) = take 16 bs"
proof -
  assume len: "16 \<le> length bs"
  have "take 16 bs = take 4 bs @ take 4 (drop 4 bs) @ take 4 (drop 8 bs) @ take 4 (drop 12 bs)"
    using take_add [of 4 4 bs] take_add [of 8 4 bs] take_add [of 12 4 bs] by simp
  with len show ?thesis
    by (simp add: hdr_bytes_def hdr_read_def le32_rd32)
qed

text \<open>
  An instance on the chip of \<open>Nand_Sim\<close>: four data blocks of which block 1 is bad, the info
  tables in block 4, spare blocks 5 and 6 and the signature in block 7; and a checksum that
  adds the bytes up.
\<close>

definition sum_crc :: "u32 \<Rightarrow> bytes \<Rightarrow> u32" where
  "sum_crc v bs = fold (\<lambda>x a. a + ucast x) bs v"

lemma sum_crc_streams: "crc_streams sum_crc"
  by (simp add: crc_streams_def sum_crc_def)

definition sim_ni :: nmbm_instance where
  "sim_ni = zero_ni\<lparr>block_state := [0xfffffff3], block_mapping := [0, 2, 3, -1, -1, -1, -1, -1],
     block_count := 8, data_block_count := 3, mgmt_start_ba := 4, main_table_ba := 4,
     backup_table_ba := 0, mapping_blocks_ba := 4, mapping_blocks_top_ba := 6, signature_ba := 7\<rparr>"

lemma sim_ni_fields:
  "mgmt_start_ba sim_ni = 4" "block_count sim_ni = 8" "length (block_mapping sim_ni) = 8"
  "mapping_blocks_top_ba sim_ni = 6" "mapping_blocks_ba sim_ni = 4" "protected sim_ni = 0"
  "block_mapping sim_ni = [0, 2, 3, -1, -1, -1, -1, -1]"
  by (simp_all add: sim_ni_def zero_ni_def)

text \<open>
  A chip as the list of its programmed pages, the latest first, on which a whole info table
  of four pages is written and read back.
\<close>

definition page_read :: "(u64 \<times> bytes) list \<Rightarrow> u64 \<Rightarrow> mtd_oob_ops \<Rightarrow> int \<times> mtd_oob_ops \<times> (u64 \<times> bytes) list" where
  "page_read d addr ops =
     (0, ops\<lparr>oo_datbuf := (case map_of d addr of Some p \<Rightarrow> p | None \<Rightarrow> replicate (unat (oo_len ops)) 0xff),
              oo_retlen := oo_len ops\<rparr>, d)"

definition page_write :: "(u64 \<times> bytes) list \<Rightarrow> u64 \<Rightarrow> mtd_oob_ops \<Rightarrow> int \<times> mtd_oob_ops \<times> (u64 \<times> bytes) list" where
  "page_write d addr ops = (0, ops\<lparr>oo_retlen := oo_len ops\<rparr>, (addr, take (unat (oo_len ops)) (oo_datbuf ops)) # d)"

definition page_erase :: "(u64 \<times> bytes) list \<Rightarrow> u64 \<Rightarrow> u64 \<Rightarrow> int \<times> (u64 \<times> bytes) list" where
  "page_erase d addr len = (0, filter (\<lambda>(a, _). a < addr \<or> addr + len \<le> a) d)"

definition page_desc :: "(u64 \<times> bytes) list bmt_desc" where
  "page_desc =
     \<lparr>mtd_size = 1024, mtd_erasesize = 128, mtd_erasesize_mask = 127, mtd_oobsize = 4,
      mtd_bitflip_threshold = 0, mtd_ecc_strength = 1, lo_read_oob = page_read,
      lo_write_oob = page_write, lo_erase = page_erase, lo_block_isbad = (\<lambda>d addr. 0),
      lo_block_markbad = (\<lambda>d addr. (0, d)), table_size = 8, pg_size = 32, blk_size = 128, pg_shift = 5,
      blk_shift = 7, pool_lba = 4, bb_max = 2, total_blks = 8, bmt_pgs = 1,
      remap_range = [], oob_offset = 0\<rparr>"

definition page_ni :: nmbm_instance where
  "page_ni = zero_ni\<lparr>rawpage_size := 36, info_table_size := 96, info_table_spare_blocks := 2,
     info_table := (info_table zero_ni)\<lparr>state_table_off := 32, mapping_table_off := 64\<rparr>,
     block_state := [0xffffffff], state_table_size := 4, block_state_changed := 1,
     block_mapping := [0, 1, -1, -1, -1, -1, -1, -1], mapping_table_size := 32, block_count := 8,
     data_block_count := 2, mgmt_start_ba := 2, main_table_ba := 2,
     backup_table_ba := 3, mapping_blocks_ba := 4, mapping_blocks_top_ba := 6, signature_ba := 7\<rparr>"

lemma sealed_header_checks:
  assumes "crc_streams crc" "16 \<le> unat (rd32 dat 8)" "unat (rd32 dat 8) \<le> length dat" "rd32 dat 8 \<le> sz"
  shows "nmbm_check_header crc (nmbm_update_checksum crc dat) sz"
proof -
  let ?z = "memcpy_at dat 12 (le32 0)" and ?s = "rd32 dat 8"
  define c where "c = nmbm_crc32 crc 0 (take (unat ?s) ?z)"
  let ?u = "memcpy_at ?z 12 (le32 c)"
  have len: "16 \<le> length dat" "length ?z = length dat" using assms(2,3) by simp_all
  have up: "nmbm_update_checksum crc dat = ?u"
    using len unfolding c_def by (simp add: nmbm_update_checksum_def Let_def rd32_memcpy)
  have f: "hdr_read ?u = (hdr_read dat)\<lparr>h_checksum := c\<rparr>"
    using len by (simp add: hdr_read_def rd32_memcpy)
  have "(hdr_read dat)\<lparr>h_checksum := 0\<rparr> = hdr_read ?z"
    using len by (simp add: hdr_read_def rd32_memcpy)
  then have hb: "hdr_bytes ((hdr_read dat)\<lparr>h_checksum := 0\<rparr>) = take 16 ?z"
    using len hdr_bytes_read [of ?z] by simp
  have tail: "drop 16 (take (unat ?s) ?u) = drop 16 (take (unat ?s) ?z)"
    using len by (simp add: memcpy_at_def drop_take)
  have split: "take (unat ?s) ?z = take 16 ?z @ drop 16 (take (unat ?s) ?z)"
    using assms(2) append_take_drop_id [of 16 "take (unat ?s) ?z"] by (simp add: min_def)
  have sz: "h_size (hdr_read dat) = ?s" by (simp add: hdr_read_def)
  have cc: "c = (if ?s > 16 then nmbm_crc32 crc (nmbm_crc32 crc 0 (take 16 ?z)) (drop 16 (take (unat ?s) ?z))
      else nmbm_crc32 crc 0 (take 16 ?z))"
  proof (cases "?s > 16")
    case True
    then show ?thesis unfolding c_def by (subst split) (simp add: nmbm_crc32_append [OF assms(1)])
  next
    case False
    with assms(2) have "unat ?s = 16" by (simp add: word_less_unat)
    with False show ?thesis unfolding c_def by simp
  qed
  have "h_checksum (hdr_read ?u) = c" "h_size (hdr_read ?u) = ?s" "(hdr_read ?u)\<lparr>h_checksum := 0\<rparr> = (hdr_read dat)\<lparr>h_checksum := 0\<rparr>"
    by (simp_all add: f sz)
  then show ?thesis
    unfolding up nmbm_check_header_def Let_def using assms(4) by (simp only: hb tail cc [symmetric] not_less [symmetric]) simp
qed

text \<open>
  C10. Round trip of a checksummed structure: what \<open>nmbm_update_checksum\<close> has sealed,
  \<open>nmbm_check_header\<close> accepts in any buffer at least as large as the size field.
\<close>

theorem nmbm_seal_then_check:
  assumes "crc_streams crc" "16 \<le> unat (rd32 dat 8)" "unat (rd32 dat 8) \<le> length dat" "rd32 dat 8 \<le> sz"
  shows "nmbm_check_header crc (nmbm_update_checksum crc dat) sz"
  using assms by (rule sealed_header_checks)

theorem nmbm_seal_then_check_witness:
  "crc_streams sum_crc \<and>
   nmbm_check_header sum_crc (nmbm_update_checksum sum_crc (sig_bytes (new_signature sim_desc sim_ni))) 48"
proof -
  have s: "rd32 (sig_bytes (new_signature sim_desc sim_ni)) 8 = 48"
    "length (sig_bytes (new_signature sim_desc sim_ni)) = 48"
    by code_simp+
  show ?thesis
    using sum_crc_streams nmbm_seal_then_check [OF sum_crc_streams, of "sig_bytes (new_signature sim_desc sim_ni)" 48]
    by (simp add: s)
qed

section \<open>Walks over good blocks\<close>

definition good_at :: "nmbm_instance \<Rightarrow> nat \<Rightarrow> bool" where
  "good_at ni i \<longleftrightarrow> nmbm_get_block_state ni (of_nat i) = BLOCK_ST_GOOD"

definition goods_in :: "nmbm_instance \<Rightarrow> u32 \<Rightarrow> u32 \<Rightarrow> nat" where
  "goods_in ni lo hi = length (filter (good_at ni) [unat lo..<unat hi])"

lemma goods_in_step:
  assumes "lo < hi"
  shows "goods_in ni lo hi = (if nmbm_get_block_state ni lo = 3 then 1 else 0) + goods_in ni (lo + 1) hi"
proof -
  have "[unat lo..<unat hi] = unat lo # [unat (lo + 1)..<unat hi]"
    using assms by (simp add: upt_conv_Cons word_less_unat)
  then show ?thesis by (simp add: goods_in_def good_at_def)
qed

lemma goods_in_empty [simp]: "hi \<le> lo \<Longrightarrow> goods_in ni lo hi = 0"
  by (simp add: goods_in_def word_le_unat)

lemma walk_asc_loop_spec:
  "0 \<le> n \<Longrightarrow> case walk_asc_loop ni limit ba n of
     Some r \<Rightarrow> ba \<le> r \<and> r < limit \<and> nmbm_get_block_state ni r = BLOCK_ST_GOOD \<and> int (goods_in ni ba r) = n
   | None \<Rightarrow> int (goods_in ni ba limit) \<le> n"
proof (induction ni limit ba n rule: walk_asc_loop.induct)
  case (1 ni limit ba n)
  let ?m = "if nmbm_get_block_state ni ba = 3 then n - 1 else n"
  show ?case
  proof (cases "ba < limit")
    case False
    then have "walk_asc_loop ni limit ba n = None" by (subst walk_asc_loop.simps) simp
    with "1.prems" False show ?thesis by (simp add: not_less)
  next
    case lt: True
    show ?thesis
    proof (cases "?m < 0")
      case True
      with "1.prems" have "nmbm_get_block_state ni ba = 3" "n = 0" by (auto split: if_splits)
      with lt True show ?thesis by (subst walk_asc_loop.simps) simp
    next
      case False
      then have rec: "walk_asc_loop ni limit ba n = walk_asc_loop ni limit (ba + 1) ?m"
        using lt by (subst walk_asc_loop.simps) simp
      have "ba \<le> r \<and> goods_in ni ba r = (if nmbm_get_block_state ni ba = 3 then 1 else 0) + goods_in ni (ba + 1) r"
        if "ba + 1 \<le> r" for r
        using that lt by (intro conjI goods_in_step) (simp_all add: word_le_unat word_less_unat)
      then show ?thesis
        using "1.IH" [OF lt refl False] False goods_in_step [OF lt, of ni] unfolding rec
        by (auto split: option.splits if_splits)
    qed
  qed
qed

text \<open>
  \<open>nmbm_block_walk_asc\<close> returns the good block that has exactly \<open>count\<close> good blocks
  between the start and itself, below the clamped limit; it fails only when the range holds
  no more than \<open>count\<close> good blocks.
\<close>

lemma nmbm_walk_asc_spec:
  assumes "0 \<le> sint cnt"
  shows "case nmbm_block_walk_asc ni ba cnt limit of
     Some nba \<Rightarrow> ba \<le> nba \<and> nba < walk_limit ni limit \<and> nmbm_get_block_state ni nba = BLOCK_ST_GOOD \<and>
                 int (goods_in ni ba nba) = sint cnt
   | None \<Rightarrow> int (goods_in ni ba (walk_limit ni limit)) \<le> sint cnt"
  unfolding nmbm_block_walk_asc_def using assms by (rule walk_asc_loop_spec)

lemma walk_desc_loop_spec:
  "0 \<le> n \<Longrightarrow> walk_desc_loop ni limit ba n = Some r \<Longrightarrow>
     limit < r \<and> r \<le> ba \<and> nmbm_get_block_state ni r = BLOCK_ST_GOOD"
proof (induction ni limit ba n rule: walk_desc_loop.induct)
  case (1 ni limit ba n)
  show ?case
  proof (cases "limit < ba")
    case False
    with "1.prems" show ?thesis by (subst (asm) walk_desc_loop.simps) simp
  next
    case lt: True
    let ?m = "if nmbm_get_block_state ni ba = 3 then n - 1 else n"
    show ?thesis
    proof (cases "?m < 0")
      case True
      with "1.prems" lt show ?thesis
        by (subst (asm) walk_desc_loop.simps) (auto split: if_splits)
    next
      case False
      then have "walk_desc_loop ni limit (ba - 1) ?m = Some r"
        using "1.prems"(2) lt by (subst (asm) walk_desc_loop.simps) simp
      with "1.IH" [OF lt refl False] False have "limit < r \<and> r \<le> ba - 1 \<and> nmbm_get_block_state ni r = 3"
        by simp
      then show ?thesis
        using lt by (auto simp: word_le_unat word_less_unat)
    qed
  qed
qed

section \<open>The initial mapping\<close>

definition usable :: "nmbm_instance \<Rightarrow> nat list" where
  "usable ni = filter (\<lambda>i. nmbm_get_block_state ni (of_nat i) \<noteq> BLOCK_ST_BAD) [0..<unat (mgmt_start_ba ni)]"

lemma filter_upt_Suc:
  "i < n \<Longrightarrow> filter P [i..<n] = (if P i then [i] else []) @ filter P [Suc i..<n]"
  by (simp add: upt_conv_Cons)

lemma build_map_loop_spec:
  assumes "build_map_loop ni pb lb mp = (k, mp')" "unat lb \<le> unat pb" "unat (mgmt_start_ba ni) \<le> length mp"
  shows "unat k = unat lb + length (filter (\<lambda>i. nmbm_get_block_state ni (of_nat i) \<noteq> 0) [unat pb..<unat (mgmt_start_ba ni)]) \<and>
    length mp' = length mp \<and>
    take (unat k) mp' = take (unat lb) mp @
      map of_nat (filter (\<lambda>i. nmbm_get_block_state ni (of_nat i) \<noteq> 0) [unat pb..<unat (mgmt_start_ba ni)])"
  using assms
proof (induction ni pb lb mp rule: build_map_loop.induct)
  case (1 ni pb lb mp)
  let ?P = "\<lambda>i. nmbm_get_block_state ni (of_nat i) \<noteq> 0"
  show ?case
  proof (cases "pb < mgmt_start_ba ni")
    case False
    with "1.prems" show ?thesis by (subst (asm) build_map_loop.simps) (simp add: word_less_unat)
  next
    case lt: True
    then have pb: "unat (pb + 1) = Suc (unat pb)" "unat pb < unat (mgmt_start_ba ni)"
      by (simp_all add: word_less_unat)
    show ?thesis
    proof (cases "nmbm_get_block_state ni pb = 0")
      case True
      then have "build_map_loop ni (pb + 1) lb mp = (k, mp')"
        using "1.prems"(1) lt by (subst (asm) build_map_loop.simps) simp
      with "1.IH"(1) [OF lt True] "1.prems"(2,3) pb True show ?thesis
        by (auto simp: filter_upt_Suc)
    next
      case False
      then have rec: "build_map_loop ni (pb + 1) (lb + 1) (mp[unat lb := pb]) = (k, mp')"
        using "1.prems"(1) lt by (subst (asm) build_map_loop.simps) simp
      have "lb < mgmt_start_ba ni" using "1.prems"(2) pb by (simp add: word_less_unat)
      then have lb: "unat (lb + 1) = Suc (unat lb)" by simp
      have "take (Suc (unat lb)) (mp[unat lb := pb]) = take (unat lb) mp @ [pb]"
        using "1.prems"(2,3) pb by (simp add: take_Suc_conv_app_nth)
      with "1.IH"(2) [OF lt False rec] "1.prems"(2,3) pb lb False show ?thesis
        by (auto simp: filter_upt_Suc)
    qed
  qed
qed

lemma unmap_tail_loop_spec:
  "unat cnt \<le> length mp \<Longrightarrow> length (unmap_tail_loop cnt pb mp) = length mp \<and>
     (\<forall>i < length mp. unmap_tail_loop cnt pb mp ! i = (if unat pb \<le> i \<and> i < unat cnt then - 1 else mp ! i))"
proof (induction cnt pb mp rule: unmap_tail_loop.induct)
  case (1 cnt pb mp)
  show ?case
  proof (cases "pb < cnt")
    case False
    then show ?thesis by (subst (1 2) unmap_tail_loop.simps) (auto simp: word_less_unat)
  next
    case True
    then have pb: "unat (pb + 1) = Suc (unat pb)" "unat pb < unat cnt" by (simp_all add: word_less_unat)
    have "unmap_tail_loop cnt pb mp = unmap_tail_loop cnt (pb + 1) (mp[unat pb := - 1])"
      using True by (subst unmap_tail_loop.simps) simp
    with "1.IH" [OF True] "1.prems" pb show ?thesis by (auto simp: nth_list_update)
  qed
qed

lemma build_mapping_table_facts:
  assumes "unat (mgmt_start_ba ni) \<le> unat (block_count ni)" "unat (block_count ni) \<le> length (block_mapping ni)"
  shows "unat (data_block_count (nmbm_build_mapping_table ni)) = length (usable ni)"
    "length (block_mapping (nmbm_build_mapping_table ni)) = length (block_mapping ni)"
    "\<And>i. i < unat (block_count ni) \<Longrightarrow> block_mapping (nmbm_build_mapping_table ni) ! i =
       (if i < length (usable ni) then of_nat (usable ni ! i) else - 1)"
proof -
  obtain k mp where b: "build_map_loop ni 0 0 (block_mapping ni) = (k, mp)" by fastforce
  have m: "unat k = length (usable ni)" "length mp = length (block_mapping ni)" "take (unat k) mp = map of_nat (usable ni)"
    using build_map_loop_spec [OF b] assms by (auto simp: usable_def)
  have "mp ! i = of_nat (usable ni ! i)" if "i < length (usable ni)" for i
    using m(1,3) that by (metis nth_map nth_take)
  moreover note unmap_tail_loop_spec [of "block_count ni" mp k]
  ultimately show "unat (data_block_count (nmbm_build_mapping_table ni)) = length (usable ni)"
    "length (block_mapping (nmbm_build_mapping_table ni)) = length (block_mapping ni)"
    "\<And>i. i < unat (block_count ni) \<Longrightarrow> block_mapping (nmbm_build_mapping_table ni) ! i =
       (if i < length (usable ni) then of_nat (usable ni ! i) else - 1)"
    using m assms by (simp_all add: nmbm_build_mapping_table_def b)
qed

text \<open>
  C11. The initial mapping of a new chip: logical block \<open>i\<close> of the data area maps to the
  \<open>i\<close>-th block below the management area that is not bad, every other entry is -1, and the
  number of data blocks is the number of such blocks.
\<close>

theorem nmbm_build_mapping_table_spec:
  assumes "unat (mgmt_start_ba ni) \<le> unat (block_count ni)" "unat (block_count ni) \<le> length (block_mapping ni)"
  shows "unat (data_block_count (nmbm_build_mapping_table ni)) = length (usable ni) \<and>
    length (block_mapping (nmbm_build_mapping_table ni)) = length (block_mapping ni) \<and>
    (\<forall>i < unat (block_count ni). block_mapping (nmbm_build_mapping_table ni) ! i =
       (if i < length (usable ni) then of_nat (usable ni ! i) else - 1))"
  using build_mapping_table_facts [OF assms] by blast

theorem nmbm_build_mapping_table_spec_witness:
  "unat (data_block_count (nmbm_build_mapping_table sim_ni)) = 3 \<and>
   block_mapping (nmbm_build_mapping_table sim_ni) ! 1 = 2 \<and>
   block_mapping (nmbm_build_mapping_table sim_ni) ! 3 = - 1"
proof -
  have u: "usable sim_ni = [0, 2, 3]" by code_simp
  show ?thesis
    using nmbm_build_mapping_table_spec [of sim_ni] by (simp add: u sim_ni_fields)
qed

section \<open>What an update of the info tables leaves alone\<close>

text \<open>The part of the instance that the table writers do not touch.\<close>

definition core :: "nmbm_instance \<Rightarrow> u32 list \<times> u32 \<times> u32 \<times> u32 \<times> u32 \<times> u32 \<times> nat" where
  "core ni = (block_mapping ni, mapping_blocks_top_ba ni, data_block_count ni, mgmt_start_ba ni,
              block_count ni, signature_ba ni, length (block_state ni))"

lemma core_upd [simp]:
  "core (ni\<lparr>main_table_ba := u\<rparr>) = core ni" "core (ni\<lparr>backup_table_ba := u\<rparr>) = core ni"
  "core (ni\<lparr>mapping_blocks_ba := u\<rparr>) = core ni" "core (ni\<lparr>protected := p\<rparr>) = core ni"
  "core (nmbm_mark_tables_clean ni) = core ni" "core (backup_to_main ni) = core ni"
  "core (ni\<lparr>info_table := t, info_table_cache := c\<rparr>) = core ni"
  by (simp_all add: core_def nmbm_mark_tables_clean_def backup_to_main_def)

lemma core_wears: "wears ni ni' \<Longrightarrow> core ni' = core ni"
  by (simp add: core_def wears_frame)

lemma core_write: "nmbm_write_info_table b ni d ba limit = (r, ni', d') \<Longrightarrow> core ni' = core ni"
  by (rule core_wears [OF write_info_table_wears])

lemma core_down: "write_table_down n b ni d wba = (r, ni', d') \<Longrightarrow> core ni' = core ni"
  by (rule core_wears [OF write_table_down_wears])

lemma core_erase: "nmbm_erase_range b ni d ba limit = (ni', d') \<Longrightarrow> core ni' = core ni"
  by (rule core_wears [OF erase_range_wears])

lemma core_generate: "nmbm_generate_info_table_cache crc ni = (ch, ni') \<Longrightarrow> core ni' = core ni"
  by (auto simp: nmbm_generate_info_table_cache_def Let_def)

lemmas core_dests = core_write core_down core_erase

lemma core_rebuild: "nmbm_rebuild_info_table b ni d = (r, ni', d') \<Longrightarrow> core ni' = core ni"
  unfolding nmbm_rebuild_info_table_def Let_def
  by (auto split: option.splits prod.splits dest!: core_dests)

lemma core_new_backup: "rescue_new_backup b ni d me = (r, ni', d') \<Longrightarrow> core ni' = core ni"
  unfolding rescue_new_backup_def Let_def
  by (auto split: option.splits prod.splits dest!: core_dests)

lemma core_rescue_main: "nmbm_rescue_main_info_table b ni d = (r, ni', d') \<Longrightarrow> core ni' = core ni"
  unfolding nmbm_rescue_main_info_table_def Let_def
  by (auto split: option.splits prod.splits if_splits dest!: core_dests core_new_backup)

lemma core_rescue_single: "nmbm_rescue_single_info_table b ni d = (r, ni', d') \<Longrightarrow> core ni' = core ni"
  unfolding nmbm_rescue_single_info_table_def Let_def
  by (auto split: option.splits prod.splits dest!: core_dests)

lemma core_write_main: "update_write_main b ni d lim = (r, ni', d') \<Longrightarrow> core ni' = core ni"
  unfolding update_write_main_def Let_def
  by (auto split: option.splits prod.splits if_splits dest!: core_dests core_rebuild core_rescue_main)

lemma core_update_once: "nmbm_update_info_table_once crc b ni d f = (r, ni', d') \<Longrightarrow> core ni' = core ni"
  unfolding nmbm_update_info_table_once_def Let_def
  by (auto split: option.splits prod.splits if_splits dest!: core_dests core_generate core_write_main)

lemma update_loop_result:
  "update_info_table_loop crc b ni d = (ok, ni', d') \<Longrightarrow> core ni' = core ni \<and> (ok \<longrightarrow> \<not> tables_changed ni')"
proof (induction crc b ni d rule: update_info_table_loop.induct)
  case (1 crc b ni d)
  obtain r ni1 d1 where u: "nmbm_update_info_table_once crc b ni d False = (r, ni1, d1)"
    by (cases "nmbm_update_info_table_once crc b ni d False")
  show ?case
  proof (cases "tables_changed ni")
    case False
    with "1.prems" show ?thesis by (subst (asm) update_info_table_loop.simps) auto
  next
    case True
    show ?thesis
    proof (cases r)
      case r: True
      have "update_info_table_loop crc b ni1 d1 = (ok, ni', d')"
        using "1.prems" True u r by (subst (asm) update_info_table_loop.simps) simp
      with "1.IH" [OF True] u r core_update_once [OF u] show ?thesis by simp
    next
      case False
      with "1.prems" True u core_update_once [OF u] show ?thesis
        by (subst (asm) update_info_table_loop.simps) auto
    qed
  qed
qed

lemma core_update: "nmbm_update_info_table crc b ni d = (ok, ni', d') \<Longrightarrow> core ni' = core ni"
  by (auto simp: nmbm_update_info_table_def dest: update_loop_result split: if_splits)

section \<open>Remapping a block\<close>

lemma map_block_cases:
  assumes "nmbm_map_block crc b ni d lb = (ok, ni', d')"
  obtains (full) "\<not> ok" "block_mapping ni' = block_mapping ni" "data_block_count ni' = data_block_count ni"
      "length (block_state ni') = length (block_state ni)"
  | (mapped) pb where ok "nmbm_get_block_state ni pb = BLOCK_ST_GOOD" "pb \<le> mapping_blocks_top_ba ni"
      "walk_limit ni (mapping_blocks_ba ni) < pb" "d' = d"
      "ni' = ni\<lparr>block_mapping := (block_mapping ni)[unat lb := pb],
                mapping_blocks_top_ba := mapping_blocks_top_ba ni - 1,
                block_mapping_changed := block_mapping_changed ni + 1\<rparr>"
proof (cases "mapping_blocks_ba ni = mapping_blocks_top_ba ni")
  case True
  with assms full show thesis by (auto simp: nmbm_map_block_def)
next
  case False
  show thesis
  proof (cases "nmbm_block_walk ni False (mapping_blocks_top_ba ni) 0 (mapping_blocks_ba ni)")
    case None
    obtain ok1 ni1 d1 where u: "nmbm_update_info_table crc b ni d = (ok1, ni1, d1)"
      by (cases "nmbm_update_info_table crc b ni d")
    with None False assms have "\<not> ok" "ni' = ni1\<lparr>mapping_blocks_top_ba := mapping_blocks_ba ni1\<rparr>"
      by (auto simp: nmbm_map_block_def)
    with core_update [OF u] full show thesis by (simp add: core_def)
  next
    case (Some pb)
    then have "walk_limit ni (mapping_blocks_ba ni) < pb \<and> pb \<le> mapping_blocks_top_ba ni \<and>
        nmbm_get_block_state ni pb = 3"
      using walk_desc_loop_spec [of 0 ni _ "mapping_blocks_top_ba ni" pb]
      by (simp add: nmbm_block_walk_def nmbm_block_walk_desc_def)
    with Some False assms mapped show thesis by (auto simp: nmbm_map_block_def)
  qed
qed

lemma remap_block_nmbm_result:
  assumes "remap_block_nmbm crc b block mapped_block copy_len ni d = (ok, ni', d')"
  defines "ni1 \<equiv> snd (nmbm_set_block_state ni (ucast mapped_block) BLOCK_ST_BAD)"
  shows "data_block_count ni' = data_block_count ni \<and> length (block_state ni') = length (block_state ni) \<and>
    (\<not> ok \<longrightarrow> block_mapping ni' = block_mapping ni) \<and>
    (ok \<longrightarrow> unat block < unat (data_block_count ni) \<and>
      (\<exists>pb. nmbm_get_block_state ni1 pb = BLOCK_ST_GOOD \<and>
            walk_limit ni (mapping_blocks_ba ni) < pb \<and> pb \<le> mapping_blocks_top_ba ni \<and>
            block_mapping ni' = (block_mapping ni)[unat block := pb]))"
proof (cases "ucast block \<ge> data_block_count ni")
  case True
  with assms(1) show ?thesis by (simp add: remap_block_nmbm_def)
next
  case False
  obtain c where s: "nmbm_set_block_state ni (ucast mapped_block) 0 = (c, ni1)"
    unfolding ni1_def by (cases "nmbm_set_block_state ni (ucast mapped_block) 0") simp
  obtain ok2 ni2 d2 where m: "nmbm_map_block crc b ni1 d (ucast block) = (ok2, ni2, d2)"
    by (cases "nmbm_map_block crc b ni1 d (ucast block)")
  have f1: "block_mapping ni1 = block_mapping ni" "data_block_count ni1 = data_block_count ni"
      "mapping_blocks_ba ni1 = mapping_blocks_ba ni" "mapping_blocks_top_ba ni1 = mapping_blocks_top_ba ni"
      "walk_limit ni1 = walk_limit ni" "length (block_state ni1) = length (block_state ni)"
    by (simp_all add: ni1_def nmbm_set_block_state_def Let_def walk_limit_def fun_eq_iff)
  from m show ?thesis
  proof (cases rule: map_block_cases)
    case full
    with assms(1) False m s show ?thesis
      by (auto simp: remap_block_nmbm_def f1)
  next
    case (mapped pb)
    obtain r5 d4 where "nmbm_update_info_table crc b ni2 d4 = (r5, ni', d')" "ok"
      using assms(1) False m s mapped(1)
      by (auto simp: remap_block_nmbm_def Let_def split: prod.splits)
    from core_update [OF this(1)] this(2) have "core ni' = core ni2" "ok" by simp_all
    moreover have "unat block < unat (data_block_count ni)" using False by (simp add: word_le_unat)
    ultimately show ?thesis
      using mapped f1 by (auto simp: core_def)
  qed
qed

text \<open>
  C8. A remap through NMBM: a logical block outside the data area is refused without any
  change; otherwise a successful remap gives the logical block a new physical block that
  the state table has as good, above the info tables and not the failed block itself, and
  leaves every other logical block where it was; a failed one leaves the whole mapping.
\<close>

theorem nmbm_remap_moves_one_block:
  assumes "remap_block_nmbm crc b block mapped_block copy_len ni d = (ok, ni', d')"
    and "st_unit (ucast mapped_block) < length (block_state ni)"
  shows "data_block_count ni' = data_block_count ni \<and>
    (\<not> ok \<longrightarrow> block_mapping ni' = block_mapping ni) \<and>
    (ok \<longrightarrow> unat block < unat (data_block_count ni) \<and>
      (\<exists>pb. nmbm_get_block_state ni pb = BLOCK_ST_GOOD \<and> pb \<noteq> ucast mapped_block \<and>
            walk_limit ni (mapping_blocks_ba ni) < pb \<and> pb \<le> mapping_blocks_top_ba ni \<and>
            block_mapping ni' = (block_mapping ni)[unat block := pb]))"
  using remap_block_nmbm_result [OF assms(1)] get_set_block_state [OF assms(2), of 0] by (auto split: if_splits)

theorem nmbm_remap_moves_one_block_witness:
  "\<exists>ni' d' pb. remap_block_nmbm sum_crc sim_desc 1 2 8 sim_ni sim_chip = (True, ni', d') \<and>
     4 < pb \<and> pb \<le> 6 \<and> block_mapping ni' = [0, pb, 3, -1, -1, -1, -1, -1]"
proof -
  obtain ok ni' d' where run: "remap_block_nmbm sum_crc sim_desc 1 2 8 sim_ni sim_chip = (ok, ni', d')"
    by (rule prod_cases3)
  obtain c ni1 where s: "nmbm_set_block_state sim_ni 2 0 = (c, ni1)" by fastforce
  obtain ok2 ni2 d2 where m: "nmbm_map_block sum_crc sim_desc ni1 sim_chip 1 = (ok2, ni2, d2)"
    by (rule prod_cases3)
  have "fst (nmbm_map_block sum_crc sim_desc (snd (nmbm_set_block_state sim_ni 2 0)) sim_chip 1)"
    by code_simp
  with s m have ok2: ok2 by simp
  have "\<not> data_block_count sim_ni \<le> 1" by code_simp
  with run s m ok2 have ok
    by (auto simp: remap_block_nmbm_def Let_def split: prod.splits)
  moreover have "st_unit 2 < length (block_state sim_ni)" by code_simp
  moreover have "walk_limit sim_ni (mapping_blocks_ba sim_ni) = 4"
    by (simp add: sim_ni_fields walk_limit_def)
  ultimately show ?thesis
    using nmbm_remap_moves_one_block [OF run] run by (auto simp: sim_ni_fields)
qed

section \<open>The driver's view of the back end\<close>

text \<open>
  \<open>n\<close> data blocks, each on one of the \<open>lim\<close> physical blocks whose state the state table holds
  (sixteen in a unit). A remap takes a block the state table has as good, so the law needs
  nothing of the spare area.
\<close>

definition nm_ok :: "nat \<Rightarrow> nat \<Rightarrow> nmbm_instance \<Rightarrow> bool" where
  "nm_ok n lim ni \<longleftrightarrow> unat (data_block_count ni) = n \<and> n \<le> length (block_mapping ni) \<and>
     (\<forall>i < n. unat (block_mapping ni ! i) < 16 * length (block_state ni)) \<and>
     16 * length (block_state ni) = lim \<and> lim < 2 ^ 31"

lemma state_covered: "nmbm_get_block_state ni pb \<noteq> 0 \<Longrightarrow> unat pb < 16 * length (block_state ni)"
  by (cases "st_unit pb < length (block_state ni)")
    (auto simp: nmbm_get_block_state_def nmbm_get_block_state_raw_def nth_or_def st_unit_def unat_div)

lemma remap_block_nmbm_ok:
  assumes "nm_ok n lim ni" "remap_block_nmbm crc b block mapped_block copy_len ni d = (ok, ni', d')"
  shows "nm_ok n lim ni'"
proof (cases ok)
  case False
  with remap_block_nmbm_result [OF assms(2)] assms(1) show ?thesis by (auto simp: nm_ok_def)
next
  case True
  then obtain pb where pb: "nmbm_get_block_state (snd (nmbm_set_block_state ni (ucast mapped_block) 0)) pb = 3"
      "block_mapping ni' = (block_mapping ni)[unat block := pb]"
    using remap_block_nmbm_result [OF assms(2)] by auto
  then have "unat pb < 16 * length (block_state ni)"
    using state_covered [of "snd (nmbm_set_block_state ni (ucast mapped_block) 0)" pb] by simp
  then have "unat (block_mapping ni' ! i) < 16 * length (block_state ni)" if "i < n" for i
    using assms(1) pb(2) that by (cases "i = unat block") (auto simp: nm_ok_def)
  then show ?thesis
    using remap_block_nmbm_result [OF assms(2)] assms(1) pb(2) by (auto simp: nm_ok_def)
qed

lemma get_mapping_nmbm_bound:
  assumes "nm_ok n lim ni" "unat (k :: u16) < n"
  shows "0 \<le> get_mapping_block_index_nmbm b (uint k) ni" "get_mapping_block_index_nmbm b (uint k) ni < int lim"
proof -
  have "ucast k < data_block_count ni" using assms by (simp add: nm_ok_def word_less_unat)
  moreover have "(word_of_int (uint k) :: u32) = ucast k" by simp
  ultimately have e: "get_mapping_block_index_nmbm b (uint k) ni = sint (block_mapping ni ! unat k)"
    using assms by (simp add: get_mapping_block_index_nmbm_def nth_or_def nm_ok_def not_le [symmetric])
  have "unat (block_mapping ni ! unat k) < lim" "lim < 2 ^ 31" using assms by (auto simp: nm_ok_def)
  then have "uint (block_mapping ni ! unat k) < int lim" "int lim < 2 ^ 31"
    by (simp_all only: uint_nat of_nat_less_iff) simp
  then show "0 \<le> get_mapping_block_index_nmbm b (uint k) ni" "get_mapping_block_index_nmbm b (uint k) ni < int lim"
    unfolding e by (simp_all add: sint_small)
qed

text \<open>A block outside the data area is refused, so every block may be asked for.\<close>

interpretation nm: bmt_backend b "mtk_bmt_nmbm_ops crc" "nm_ok n lim" "\<lambda>_. True" "\<lambda>_. False" "\<lambda>k. unat k < n" "int lim"
  for b :: "'d bmt_desc" and crc n lim
  by unfold_locales
    (simp_all only: mtk_bmt_nmbm_ops_def mtk_bmt_ops.select_convs get_mapping_nmbm_bound simp_thms remap_block_nmbm_ok)

end
