(* ===== verification/Nmbm_Inj.thy ===== *)
theory Nmbm_Inj
  imports Nmbm_Facts
begin

text \<open>
  When the logical blocks of the NMBM back end lie on different physical blocks: the mapping
  of a new chip is injective, a remap keeps it so while the highest unused spare block is
  good, and when that block is bad two logical blocks get the same physical block.
\<close>

section \<open>Remapping to the highest spare block\<close>

text \<open>
  The data blocks lie on different physical blocks, each below the management area or above
  the spare blocks that are still unused.
\<close>

definition nmbm_inj :: "nmbm_instance \<Rightarrow> bool" where
  "nmbm_inj ni \<longleftrightarrow> unat (data_block_count ni) \<le> length (block_mapping ni) \<and>
     inj_on ((!) (block_mapping ni)) {..<unat (data_block_count ni)} \<and>
     (\<forall>i < unat (data_block_count ni). block_mapping ni ! i < mgmt_start_ba ni \<or>
        mapping_blocks_top_ba ni < block_mapping ni ! i)"

lemma nmbm_inj_core: "core ni' = core ni \<Longrightarrow> nmbm_inj ni' = nmbm_inj ni"
  by (simp add: core_def nmbm_inj_def)

lemma nmbm_inj_map_top:
  assumes "nmbm_inj ni" "lb < unat (data_block_count ni)" "mgmt_start_ba ni \<le> mapping_blocks_top_ba ni"
    and "0 < mapping_blocks_top_ba ni"
  shows "nmbm_inj (ni\<lparr>block_mapping := (block_mapping ni)[lb := mapping_blocks_top_ba ni],
      mapping_blocks_top_ba := mapping_blocks_top_ba ni - 1, block_mapping_changed := c\<rparr>)"
proof -
  let ?m = "block_mapping ni" and ?t = "mapping_blocks_top_ba ni" and ?n = "unat (data_block_count ni)"
  have len: "?n \<le> length ?m" and inj: "inj_on ((!) ?m) {..<?n}"
    and out: "\<And>i. i < ?n \<Longrightarrow> ?m ! i < mgmt_start_ba ni \<or> ?t < ?m ! i"
    using assms(1) by (auto simp: nmbm_inj_def)
  have ne: "?m ! i \<noteq> ?t" if "i < ?n" for i
    using out [OF that] assms(3) by auto
  have dec: "?t - 1 < ?t"
    using assms(4) by (simp add: word_less_unat unat_minus_one unat_gt_0)
  have "inj_on ((!) (?m[lb := ?t])) {..<?n}"
  proof (rule inj_onI)
    fix i j assume ij: "i \<in> {..<?n}" "j \<in> {..<?n}" "?m[lb := ?t] ! i = ?m[lb := ?t] ! j"
    show "i = j"
      using ij len assms(2) ne [of i] ne [of j] inj_onD [OF inj, of i j]
      by (cases "i = lb"; cases "j = lb") (auto simp: nth_list_update)
  qed
  moreover have "?m[lb := ?t] ! i < mgmt_start_ba ni \<or> ?t - 1 < ?m[lb := ?t] ! i" if "i < ?n" for i
    using out [OF that] dec len that by (cases "i = lb") (auto simp: nth_list_update intro: order_less_trans)
  ultimately show ?thesis
    using len by (simp add: nmbm_inj_def)
qed

lemma walk_desc_good_top:
  assumes "nmbm_get_block_state ni ba = 3" "limit < ba"
  shows "walk_desc_loop ni limit ba 0 = Some ba"
  using assms by (subst walk_desc_loop.simps) simp

text \<open>
  C28. As long as the highest unused spare block is good, a remap of a data block succeeds and
  keeps the data blocks on different physical blocks.
\<close>

theorem nmbm_remap_keeps_injective:
  assumes run: "remap_block_nmbm crc b block mapped_block copy_len ni d = (ok, ni', d')"
    and inj: "nmbm_inj ni" and st: "st_unit (ucast mapped_block) < length (block_state ni)"
    and top: "nmbm_get_block_state ni (mapping_blocks_top_ba ni) = BLOCK_ST_GOOD"
      "mapping_blocks_top_ba ni \<noteq> ucast mapped_block"
    and order: "mgmt_start_ba ni \<le> mapping_blocks_ba ni" "mapping_blocks_ba ni < mapping_blocks_top_ba ni"
      "mapping_blocks_top_ba ni < block_count ni"
  shows "ok = (unat block < unat (data_block_count ni)) \<and> nmbm_inj ni'"
proof (cases "ucast block \<ge> data_block_count ni")
  case True
  with run inj show ?thesis by (simp add: remap_block_nmbm_def word_le_unat)
next
  case False
  obtain c ni1 where s: "nmbm_set_block_state ni (ucast mapped_block) 0 = (c, ni1)" by fastforce
  then have ni1_def: "ni1 = snd (nmbm_set_block_state ni (ucast mapped_block) 0)" by simp
  have f1: "block_mapping ni1 = block_mapping ni" "data_block_count ni1 = data_block_count ni"
      "mapping_blocks_ba ni1 = mapping_blocks_ba ni" "mapping_blocks_top_ba ni1 = mapping_blocks_top_ba ni"
      "mgmt_start_ba ni1 = mgmt_start_ba ni" "block_count ni1 = block_count ni"
    by (simp_all add: ni1_def nmbm_set_block_state_def Let_def)
  have inj1: "nmbm_inj ni1" using inj by (simp add: nmbm_inj_def f1)
  have st1: "nmbm_get_block_state ni1 (mapping_blocks_top_ba ni1) = 3"
    unfolding f1(4) unfolding ni1_def using get_set_block_state [OF st, of 0 "mapping_blocks_top_ba ni"] top by simp
  have lim: "walk_limit ni1 (mapping_blocks_ba ni1) = mapping_blocks_ba ni"
    using order_less_trans [OF order(2,3)] by (simp add: walk_limit_def f1 not_le [symmetric])
  have wk: "nmbm_block_walk ni1 False (mapping_blocks_top_ba ni1) 0 (mapping_blocks_ba ni1) = Some (mapping_blocks_top_ba ni1)"
    unfolding nmbm_block_walk_def nmbm_block_walk_desc_def using walk_desc_good_top [OF st1, of "mapping_blocks_ba ni"] order(2)
    by (simp add: lim) (simp add: f1)
  define ni2 where "ni2 = ni1\<lparr>block_mapping := (block_mapping ni1)[unat block := mapping_blocks_top_ba ni1],
      mapping_blocks_top_ba := mapping_blocks_top_ba ni1 - 1, block_mapping_changed := block_mapping_changed ni1 + 1\<rparr>"
  have m: "nmbm_map_block crc b ni1 d (ucast block) = (True, ni2, d)"
    using order(2) by (simp add: nmbm_map_block_def wk ni2_def) (simp add: f1)
  have lt: "unat block < unat (data_block_count ni)" using False by (simp add: word_le_unat)
  have "0 < mapping_blocks_top_ba ni" using order_le_less_trans [OF _ order(2), of 0] by simp
  then have "nmbm_inj ni2"
    unfolding ni2_def using inj1 lt order by (intro nmbm_inj_map_top) (simp_all add: f1)
  moreover obtain r5 d4 where u: "nmbm_update_info_table crc b ni2 d4 = (r5, ni', d')" and ok
    using run False m s by (auto simp: remap_block_nmbm_def Let_def split: prod.splits)
  ultimately show ?thesis
    using nmbm_inj_core [OF core_update [OF u]] lt by simp
qed

lemma less_3D: "(n :: nat) < 3 \<Longrightarrow> n = 0 \<or> n = Suc 0 \<or> n = Suc (Suc 0)"
  by linarith

lemma sim_ni_inj: "nmbm_inj sim_ni"
proof -
  let ?m = "[0, 2, 3, -1, -1, -1, -1, -1] :: u32 list"
  have "inj_on ((!) ?m) {..<3}"
    by (rule inj_onI) (auto dest!: less_3D)
  moreover have "?m ! i < 4" if "i < 3" for i
    using less_3D [OF that] by auto
  moreover have "unat (data_block_count sim_ni) = 3" by (simp add: sim_ni_def)
  ultimately show ?thesis
    unfolding nmbm_inj_def sim_ni_fields by simp
qed

theorem nmbm_remap_keeps_injective_witness:
  "\<exists>ni' d'. remap_block_nmbm sum_crc sim_desc 1 2 8 sim_ni sim_chip = (True, ni', d') \<and> nmbm_inj ni'"
proof -
  obtain ok ni' d' where run: "remap_block_nmbm sum_crc sim_desc 1 2 8 sim_ni sim_chip = (ok, ni', d')"
    by (rule prod_cases3)
  have st: "st_unit (ucast (2 :: u16)) < length (block_state sim_ni)"
      "nmbm_get_block_state sim_ni (mapping_blocks_top_ba sim_ni) = BLOCK_ST_GOOD"
      "1 < unat (data_block_count sim_ni)"
    by code_simp+
  show ?thesis
    using nmbm_remap_keeps_injective [OF run sim_ni_inj st(1,2)] run st(3) by (simp add: sim_ni_fields)
qed

section \<open>The mapping of a new chip\<close>

text \<open>
  C29. The mapping a new chip starts with puts the data blocks on different physical blocks,
  all below the management area.
\<close>

theorem nmbm_initial_mapping_injective:
  assumes "unat (mgmt_start_ba ni) \<le> unat (block_count ni)" "unat (block_count ni) \<le> length (block_mapping ni)"
  shows "nmbm_inj (nmbm_build_mapping_table ni) \<and>
    (\<forall>i < unat (data_block_count (nmbm_build_mapping_table ni)).
       block_mapping (nmbm_build_mapping_table ni) ! i < mgmt_start_ba ni)"
proof -
  let ?u = "usable ni" and ?n = "nmbm_build_mapping_table ni"
  note spec = build_mapping_table_facts [OF assms]
  have le: "length ?u \<le> unat (mgmt_start_ba ni)"
    unfolding usable_def by (rule order_trans [OF length_filter_le]) simp
  have sm: "?u ! i < unat (mgmt_start_ba ni)" if "i < length ?u" for i
    using nth_mem [OF that] by (auto simp: usable_def)
  have m: "block_mapping ?n ! i = of_nat (?u ! i)" "unat (of_nat (?u ! i) :: u32) = ?u ! i" if "i < length ?u" for i
    using spec(3) [of i] that le assms sm [OF that] unat_less_2p [of "mgmt_start_ba ni"]
    by (simp_all add: unat_of_nat_small)
  have "inj_on ((!) (block_mapping ?n)) {..<length ?u}"
  proof (rule inj_onI)
    fix i j assume ij: "i \<in> {..<length ?u}" "j \<in> {..<length ?u}" "block_mapping ?n ! i = block_mapping ?n ! j"
    then have "?u ! i = ?u ! j" using m [of i] m [of j] by (metis lessThan_iff)
    then show "i = j" using ij by (simp add: nth_eq_iff_index_eq usable_def)
  qed
  moreover have "mgmt_start_ba ?n = mgmt_start_ba ni"
    by (simp add: nmbm_build_mapping_table_def split: prod.split)
  ultimately show ?thesis
    unfolding nmbm_inj_def using spec(1,2) le assms m sm by (simp add: word_less_unat)
qed

theorem nmbm_initial_mapping_injective_witness:
  "nmbm_inj (nmbm_build_mapping_table sim_ni) \<and> data_block_count (nmbm_build_mapping_table sim_ni) = 3 \<and>
     block_mapping (nmbm_build_mapping_table sim_ni) ! 2 < 4"
proof -
  have "data_block_count (nmbm_build_mapping_table sim_ni) = 3" by code_simp
  then show ?thesis
    using nmbm_initial_mapping_injective [of sim_ni] by (simp add: sim_ni_fields)
qed

section \<open>A bad block at the top of the spare blocks\<close>

lemma walk_desc_loop_cong:
  "block_state ni' = block_state ni \<Longrightarrow> walk_desc_loop ni' l a n = walk_desc_loop ni l a n"
proof (induction ni l a n rule: walk_desc_loop.induct)
  case (1 ni l a n)
  then show ?case
    by (subst (1 2) walk_desc_loop.simps) (simp add: nmbm_get_block_state_def Let_def)
qed

text \<open>
  C30. When the highest unused spare block is not good, two remaps put two logical blocks on
  one physical block: \<open>nmbm_map_block\<close> takes the next good block below the top but lowers the
  top by one only, so the next call finds the same block again.
\<close>

theorem nmbm_map_block_reuses_block:
  assumes one: "nmbm_map_block crc b ni d lb1 = (True, ni1, d1)"
    and bad: "nmbm_get_block_state ni (mapping_blocks_top_ba ni) \<noteq> BLOCK_ST_GOOD"
    and base: "mapping_blocks_ba ni < block_count ni"
    and lb: "lb1 \<noteq> lb2" "unat lb1 < length (block_mapping ni)" "unat lb2 < length (block_mapping ni)"
  shows "\<exists>ni2. nmbm_map_block crc b ni1 d1 lb2 = (True, ni2, d1) \<and>
    block_mapping ni2 ! unat lb1 = block_mapping ni2 ! unat lb2"
proof -
  let ?t = "mapping_blocks_top_ba ni" and ?l = "mapping_blocks_ba ni"
  have lim: "walk_limit ni ?l = ?l" using base by (simp add: walk_limit_def not_le [symmetric])
  from one obtain pb where pb: "nmbm_block_walk ni False ?t 0 ?l = Some pb"
    and ni1: "ni1 = ni\<lparr>block_mapping := (block_mapping ni)[unat lb1 := pb], mapping_blocks_top_ba := ?t - 1,
                block_mapping_changed := block_mapping_changed ni + 1\<rparr>" "d1 = d"
    by (auto simp: nmbm_map_block_def Let_def split: if_splits option.splits prod.splits)
  have w: "walk_desc_loop ni ?l ?t 0 = Some pb"
    using pb by (simp add: nmbm_block_walk_def nmbm_block_walk_desc_def lim)
  then have gt: "?l < ?t" by (subst (asm) walk_desc_loop.simps) (simp split: if_splits)
  with w bad have w1: "walk_desc_loop ni ?l (?t - 1) 0 = Some pb"
    by (subst (asm) walk_desc_loop.simps) simp
  have "?l < pb" "pb \<le> ?t - 1"
    using walk_desc_loop_spec [OF _ w1] by simp_all
  then have ne: "?l \<noteq> ?t - 1" by auto
  have same: "walk_desc_loop ni1 l a n = walk_desc_loop ni l a n" for l a n
    by (rule walk_desc_loop_cong) (simp add: ni1)
  have "nmbm_block_walk ni1 False (?t - 1) 0 ?l = Some pb"
    using w1 base by (simp add: nmbm_block_walk_def nmbm_block_walk_desc_def same) (simp add: ni1 walk_limit_def not_le [symmetric])
  moreover have "unat lb1 \<noteq> unat lb2" using lb(1) by (simp add: word_unat_eq_iff)
  ultimately show ?thesis
    using ne ni1 lb by (auto simp: nmbm_map_block_def nth_list_update)
qed

text \<open>The instance with block 6, the highest unused spare block, bad as well.\<close>

definition sim_top_bad :: nmbm_instance where
  "sim_top_bad = sim_ni\<lparr>block_state := [0xffffcff3]\<rparr>"

theorem nmbm_map_block_reuses_block_witness:
  "\<exists>ni1 ni2. nmbm_map_block sum_crc sim_desc sim_top_bad sim_chip 0 = (True, ni1, sim_chip) \<and>
     nmbm_map_block sum_crc sim_desc ni1 sim_chip 1 = (True, ni2, sim_chip) \<and>
     block_mapping ni2 ! 0 = block_mapping ni2 ! 1"
proof -
  obtain ok ni1 d1 where run: "nmbm_map_block sum_crc sim_desc sim_top_bad sim_chip 0 = (ok, ni1, d1)"
    by (rule prod_cases3)
  moreover have "fst (nmbm_map_block sum_crc sim_desc sim_top_bad sim_chip 0)"
      "snd (snd (nmbm_map_block sum_crc sim_desc sim_top_bad sim_chip 0)) = sim_chip"
    by code_simp+
  ultimately have run1: "nmbm_map_block sum_crc sim_desc sim_top_bad sim_chip 0 = (True, ni1, sim_chip)"
    by simp
  have st: "nmbm_get_block_state sim_top_bad (mapping_blocks_top_ba sim_top_bad) \<noteq> BLOCK_ST_GOOD"
      "mapping_blocks_ba sim_top_bad < block_count sim_top_bad" "length (block_mapping sim_top_bad) = 8"
    by code_simp+
  show ?thesis
    using nmbm_map_block_reuses_block [OF run1 st(1,2), of 1] run1 st(3) by auto
qed

end
