(* ===== verification/Bmt_Data.thy ===== *)
theory Bmt_Data
  imports Bmt_Io
begin

text \<open>
  The data path of \<open>mtk_bmt.c\<close> over an arbitrary back end, on a device without faults: a read
  or a write of any number of bytes, across block boundaries, is the translation of every byte
  through the back end's mapping. With an injective mapping a read after a write returns what
  was written there and the old content everywhere else.
\<close>

section \<open>A device without faults as a memory\<close>

text \<open>
  \<open>mem d\<close> is the content of the device: a read returns it and changes nothing, a write to
  erased bytes stores the data there and nowhere else. \<open>N\<close> is the size of the device, \<open>D\<close> the
  set of its states.
\<close>

definition mem_reads :: "'d bmt_desc \<Rightarrow> nat \<Rightarrow> 'd set \<Rightarrow> ('d \<Rightarrow> nat \<Rightarrow> u8) \<Rightarrow> bool" where
  "mem_reads b N D mem \<longleftrightarrow> (\<forall>d a rq. d \<in> D \<longrightarrow> oo_ooblen rq = 0 \<longrightarrow> unat a + unat (oo_len rq) \<le> N \<longrightarrow>
     (\<exists>cur. lo_read_oob b d a rq = (0, cur, d) \<and> oo_len cur = oo_len rq \<and> oo_retlen cur = oo_len rq \<and>
        oo_ooblen cur = 0 \<and> oo_oobretlen cur = 0 \<and>
        oo_datbuf cur = map (\<lambda>i. mem d (unat a + i)) [0..<unat (oo_len rq)]))"

definition mem_writes :: "'d bmt_desc \<Rightarrow> nat \<Rightarrow> 'd set \<Rightarrow> ('d \<Rightarrow> nat \<Rightarrow> u8) \<Rightarrow> bool" where
  "mem_writes b N D mem \<longleftrightarrow> (\<forall>d a rq. d \<in> D \<longrightarrow> oo_ooblen rq = 0 \<longrightarrow> unat a + unat (oo_len rq) \<le> N \<longrightarrow>
     unat (oo_len rq) \<le> length (oo_datbuf rq) \<longrightarrow> (\<forall>i < unat (oo_len rq). mem d (unat a + i) = 0xff) \<longrightarrow>
     (\<exists>cur d'. lo_write_oob b d a rq = (0, cur, d') \<and> d' \<in> D \<and> oo_len cur = oo_len rq \<and> oo_retlen cur = oo_len rq \<and>
        oo_ooblen cur = 0 \<and> oo_oobretlen cur = 0 \<and>
        (\<forall>x. mem d' x = (if unat a \<le> x \<and> x < unat a + unat (oo_len rq) then oo_datbuf rq ! (x - unat a) else mem d x))))"

text \<open>The byte at which a logical byte lies when block \<open>j\<close> lies on block \<open>m j\<close>.\<close>

definition ptrans :: "(nat \<Rightarrow> nat) \<Rightarrow> nat \<Rightarrow> nat \<Rightarrow> nat" where
  "ptrans m k x = m (x div 2 ^ k) * 2 ^ k + x mod 2 ^ k"

definition maps_by :: "'d bmt_desc \<Rightarrow> ('t, 'd) mtk_bmt_ops \<Rightarrow> 't \<Rightarrow> nat \<Rightarrow> nat \<Rightarrow> nat \<Rightarrow> (nat \<Rightarrow> nat) \<Rightarrow> bool" where
  "maps_by b ops t k n N m \<longleftrightarrow> N < 2 ^ 64 \<and> inj_on m {..<n} \<and>
     (\<forall>j < n. get_mapping_block ops b (int j) t = int (m j) \<and> (m j + 1) * 2 ^ k \<le> N)"

lemma ptrans_within: "x mod 2 ^ k + i < 2 ^ k \<Longrightarrow> ptrans m k (x + i) = ptrans m k x + i"
  by (simp add: ptrans_def div_mod_within)

lemma ptrans_inj:
  assumes "inj_on m {..<n}"
  shows "inj_on (ptrans m k) {..<n * 2 ^ k}"
proof (rule inj_onI)
  fix x y assume xy: "x \<in> {..<n * 2 ^ k}" "y \<in> {..<n * 2 ^ k}" and eq: "ptrans m k x = ptrans m k y"
  have p: "ptrans m k z div 2 ^ k = m (z div 2 ^ k)" "ptrans m k z mod 2 ^ k = z mod 2 ^ k" for z
    by (simp_all add: ptrans_def)
  have "x div 2 ^ k < n" "y div 2 ^ k < n" using xy by (simp_all add: less_mult_imp_div_less)
  moreover have "m (x div 2 ^ k) = m (y div 2 ^ k)" using eq p(1) by metis
  ultimately have "x div 2 ^ k = y div 2 ^ k" using inj_onD [OF assms] by simp
  moreover have "x mod 2 ^ k = y mod 2 ^ k" using eq p(2) by metis
  ultimately show "x = y" by (metis mod_div_mult_eq)
qed

lemma unat_phys_addr:
  assumes "block_geom b k" "(p + 1) * 2 ^ k \<le> N" "N < 2 ^ 64"
  shows "unat (phys_addr b (int p) (io_offset b a)) = p * 2 ^ k + unat a mod 2 ^ k"
proof -
  have off: "unat (io_offset b a) = unat a mod 2 ^ k" by (rule unat_io_offset [OF assms(1)])
  have lt: "p * 2 ^ k + unat a mod 2 ^ k < 2 ^ 64"
  proof -
    have "unat a mod 2 ^ k < 2 ^ k" by simp
    moreover have "(p + 1) * 2 ^ k = p * 2 ^ k + 2 ^ k" by simp
    ultimately show ?thesis using assms(2,3) by linarith
  qed
  have "shl64 (word_of_int (int p)) (blk_shift b) = (of_nat (p * 2 ^ k) :: u64)"
    using assms(1) by (simp add: shl64_def block_geom_def push_bit_eq_mult)
  moreover have "unat (of_nat (p * 2 ^ k) :: u64) = p * 2 ^ k"
    using lt by (intro unat_of_nat_small) simp
  ultimately show ?thesis
    unfolding phys_addr_def using lt by (simp add: unat_word_ariths off)
qed

text \<open>What a round of either loop works on: a chunk that lies in one piece on the device.\<close>

lemma io_chunk_phys:
  assumes req: "req_within b k n from len" and maps: "maps_by b ops t k n N m" and r: "r < unat len"
  defines "a \<equiv> from + of_nat r"
  obtains c p where "0 < c" "r + c \<le> unat len" "io_chunk (mtd_erasesize b - io_offset b a) len (of_nat r) = of_nat c"
    "unat (of_nat c :: u64) = c"
    "get_mapping_block ops b (sint (io_block b a)) t = int p"
    "unat (phys_addr b (int p) (io_offset b a)) = ptrans m k (unat from + r)"
    "ptrans m k (unat from + r) + c \<le> N"
    "\<forall>i < c. ptrans m k (unat from + r + i) = ptrans m k (unat from + r) + i"
proof -
  let ?x = "unat from + r"
  have geom: "block_geom b k" using req by (simp add: req_within_def)
  have ua: "unat a = ?x"
    unfolding a_def using r req_within_small [OF req] by (simp add: unat_word_ariths unat_of_nat_small)
  define c where "c = min (2 ^ k - ?x mod 2 ^ k) (unat len - r)"
  have uc: "unat (io_chunk (mtd_erasesize b - io_offset b a) len (of_nat r)) = c"
    unfolding c_def ua [symmetric] using req r by (intro unat_io_chunk) (simp_all add: req_within_def)
  have off: "?x mod 2 ^ k < 2 ^ k" by simp
  then have c: "0 < c" "r + c \<le> unat len" "?x mod 2 ^ k + c \<le> 2 ^ k" unfolding c_def using r by linarith+
  have blk: "unat (shr64 a (blk_shift b)) = ?x div 2 ^ k"
    using geom unfolding shr64_def block_geom_def unat_drop_bit_eq ua by (simp only: drop_bit_eq_div)
  have j: "?x div 2 ^ k < n" using req r by (intro less_mult_imp_div_less) (simp add: req_within_def)
  have "sint (io_block b a) = int (?x div 2 ^ k)"
  proof -
    have "unat (ucast (io_block b a) :: u16) = ?x div 2 ^ k"
      unfolding io_block_def using blk j req by (simp add: req_within_def unat_ucast_small)
    then show ?thesis using io_block_within(2) [OF req r] unfolding a_def by (simp only: uint_nat)
  qed
  moreover define p where "p = m (?x div 2 ^ k)"
  ultimately have g: "get_mapping_block ops b (sint (io_block b a)) t = int p" and top: "(p + 1) * 2 ^ k \<le> N" "N < 2 ^ 64"
    using maps j by (simp_all add: maps_by_def)
  have phys: "unat (phys_addr b (int p) (io_offset b a)) = ptrans m k ?x"
    using unat_phys_addr [OF geom top, of a] unfolding ua ptrans_def p_def .
  have "ptrans m k ?x + c \<le> N"
  proof -
    have "(p + 1) * 2 ^ k = p * 2 ^ k + 2 ^ k" by simp
    then show ?thesis using top(1) c(3) unfolding ptrans_def p_def by linarith
  qed
  moreover have "ptrans m k (?x + i) = ptrans m k ?x + i" if "i < c" for i
    using c(3) that by (intro ptrans_within) linarith
  moreover have "io_chunk (mtd_erasesize b - io_offset b a) len (of_nat r) = of_nat c" unfolding uc [symmetric] by simp
  moreover have "unat (of_nat c :: u64) = c" unfolding uc [symmetric] by simp
  ultimately show thesis using that c(1,2) g phys by blast
qed


section \<open>Reads\<close>

definition rd_data :: "(nat \<Rightarrow> u8) \<Rightarrow> (nat \<Rightarrow> nat) \<Rightarrow> nat \<Rightarrow> nat \<Rightarrow> bytes" where
  "rd_data mem P x n = map (\<lambda>i. mem (P i)) [x..<x + n]"

lemma rd_data_append: "rd_data mem P x (r + c) = rd_data mem P x r @ rd_data mem P (x + r) c"
  using upt_add_eq_append [of x "x + r" c] by (simp add: rd_data_def add.assoc)

lemma rd_data_shift: "map (\<lambda>i. mem (P (x + i))) [0..<c] = rd_data mem P x c"
proof -
  have "[x..<x + c] = map (\<lambda>i. i + x) [0..<c]" by (simp add: map_add_upt add.commute)
  then show ?thesis by (simp add: rd_data_def add.commute)
qed

lemma read_data_round:
  assumes req: "req_within b k n from len" and maps: "maps_by b ops t k n N m" and dev: "mem_reads b N D mem" "d \<in> D"
    and r: "r < unat len" and at: "io_at from r st" and st: "io_ret st = 0" "io_maxbf st = 0"
  obtains c st' where "0 < c" "r + c \<le> unat len" "io_at from (r + c) st'" "io_ret st' = 0" "io_maxbf st' = 0"
    "mtk_bmt_read_loop b ops len 0 st t d = mtk_bmt_read_loop b ops len 0 st' t d"
    "io_dat st' = io_dat st @ rd_data (mem d) (ptrans m k) (unat from + r) c"
proof -
  let ?a = "from + of_nat r" and ?x = "unat from + r"
  obtain c p where c: "0 < c" "r + c \<le> unat len" "io_chunk (mtd_erasesize b - io_offset b ?a) len (of_nat r) = of_nat c"
      "unat (of_nat c :: u64) = c" "get_mapping_block ops b (sint (io_block b ?a)) t = int p"
      "unat (phys_addr b (int p) (io_offset b ?a)) = ptrans m k ?x" "ptrans m k ?x + c \<le> N"
      "\<forall>i < c. ptrans m k (?x + i) = ptrans m k ?x + i"
    by (rule io_chunk_phys [OF req maps r])
  have ret: "io_retlen st = of_nat r" "io_addr st = ?a" "io_ooblen st = 0"
    using at by (simp_all add: io_at_def)
  have go: "io_retlen st < len" using r req ret(1) by (simp add: word_less_unat req_within_def unat_of_nat_small)
  have rq: "oo_len (rd_cur_ops b len st) = of_nat c" "oo_ooblen (rd_cur_ops b len st) = 0"
    using c(3) ret by (simp_all add: rd_cur_ops_def)
  obtain cur where rd: "lo_read_oob b d (phys_addr b (int p) (io_offset b ?a)) (rd_cur_ops b len st) = (0, cur, d)"
    and cur: "oo_len cur = of_nat c" "oo_retlen cur = of_nat c" "oo_ooblen cur = 0" "oo_oobretlen cur = 0"
    and dat: "oo_datbuf cur = map (\<lambda>i. mem d (ptrans m k ?x + i)) [0..<c]"
    using dev(1) [unfolded mem_reads_def, rule_format, OF dev(2), of "rd_cur_ops b len st" "phys_addr b (int p) (io_offset b ?a)"]
    unfolding rq c(4,6) using c(7) by auto
  define st' where "st' = (io_advance b cur st)\<lparr>io_dat := io_dat st @ take (unat (oo_retlen cur)) (oo_datbuf cur),
                             io_oob := io_oob st @ take (unat (oo_oobretlen cur)) (oo_oobbuf cur)\<rparr>"
  have "(of_nat c :: u64) \<noteq> 0" using c(1,4) by (metis less_irrefl unat_0)
  then have "io_at from (r + c) st'" unfolding st'_def by (rule io_at_advance [OF at cur])
  moreover have "io_ret st' = 0" "io_maxbf st' = 0" using st by (simp_all add: st'_def)
  moreover have "mtk_bmt_read_loop b ops len 0 st t d = mtk_bmt_read_loop b ops len 0 st' t d"
  proof -
    have "st\<lparr>io_maxbf := max (io_maxbf st) 0\<rparr> = st" using st(2) by simp
    moreover have "\<not> (mtd_bitflip_threshold b \<noteq> 0 \<and> (word_of_int 0 :: u32) \<ge> mtd_bitflip_threshold b)"
      by (simp add: word_le_unat unat_eq_0)
    ultimately show ?thesis
      using go c(5) rd by (subst mtk_bmt_read_loop.simps) (simp add: Let_def ret(2) st'_def)
  qed
  moreover have "io_dat st' = io_dat st @ rd_data (mem d) (ptrans m k) ?x c"
  proof -
    have "oo_datbuf cur = map (\<lambda>i. mem d (ptrans m k (?x + i))) [0..<c]" unfolding dat using c(8) by simp
    then have "oo_datbuf cur = rd_data (mem d) (ptrans m k) ?x c" by (simp only: rd_data_shift)
    then show ?thesis by (simp add: st'_def cur(2) c(4) rd_data_def)
  qed
  ultimately show thesis using that c(1,2) by blast
qed

lemma read_loop_data:
  assumes req: "req_within b k n from len" and maps: "maps_by b ops t k n N m" and dev: "mem_reads b N D mem" "d \<in> D"
  shows "r \<le> unat len \<Longrightarrow> io_at from r st \<Longrightarrow> io_ret st = 0 \<Longrightarrow> io_maxbf st = 0 \<Longrightarrow>
    io_dat st = rd_data (mem d) (ptrans m k) (unat from) r \<Longrightarrow>
    \<exists>st'. mtk_bmt_read_loop b ops len 0 st t d = Some (0, st', t, d) \<and> io_retlen st' = len \<and>
      io_dat st' = rd_data (mem d) (ptrans m k) (unat from) (unat len)"
proof (induction "unat len - r" arbitrary: r st rule: less_induct)
  case less
  show ?case
  proof (cases "r < unat len")
    case False
    then have "r = unat len" using less.prems(1) by simp
    moreover from this have "mtk_bmt_read_loop b ops len 0 st t d = Some (0, st, t, d)"
      using less.prems by (subst mtk_bmt_read_loop.simps) (simp add: io_at_def rd_finish_def)
    ultimately show ?thesis using less.prems by (simp add: io_at_def)
  next
    case True
    obtain c st' where step: "0 < c" "r + c \<le> unat len" "io_at from (r + c) st'" "io_ret st' = 0" "io_maxbf st' = 0"
        "mtk_bmt_read_loop b ops len 0 st t d = mtk_bmt_read_loop b ops len 0 st' t d"
        "io_dat st' = io_dat st @ rd_data (mem d) (ptrans m k) (unat from + r) c"
      by (rule read_data_round [OF req maps dev True less.prems(2-4)])
    have "io_dat st' = rd_data (mem d) (ptrans m k) (unat from) (r + c)"
      unfolding step(7) less.prems(5) by (rule rd_data_append [symmetric])
    then show ?thesis
      unfolding step(6) using step(1,2) True by (intro less.hyps [OF _ step(2-5)]) simp_all
  qed
qed

lemma read_data:
  assumes "req_within b k n from (oo_len rq)" "maps_by b ops t k n N m" "mem_reads b N D mem" "d \<in> D" "oo_ooblen rq = 0"
  shows "\<exists>st. mtk_bmt_read b ops from rq t d = Some (0, st, t, d) \<and> io_retlen st = oo_len rq \<and>
    io_dat st = rd_data (mem d) (ptrans m k) (unat from) (unat (oo_len rq))"
  unfolding mtk_bmt_read_def assms(5)
  by (rule read_loop_data [OF assms(1-4), where r = 0]) (simp_all add: io_at_def rd_init_def rd_data_def assms(5))


section \<open>Writes\<close>

text \<open>The content after \<open>r\<close> bytes of \<open>dat\<close> have gone to the translated addresses from \<open>x\<close> on.\<close>

definition written :: "(nat \<Rightarrow> u8) \<Rightarrow> (nat \<Rightarrow> nat) \<Rightarrow> nat \<Rightarrow> bytes \<Rightarrow> nat \<Rightarrow> (nat \<Rightarrow> u8) \<Rightarrow> bool" where
  "written mem0 P x dat r mem \<longleftrightarrow>
     (\<forall>i < r. mem (P (x + i)) = dat ! i) \<and> (\<forall>y. y \<notin> P ` {x..<x + r} \<longrightarrow> mem y = mem0 y)"

lemma written_step:
  assumes w: "written mem0 P x dat r mem" and c: "\<forall>i < c. P (x + r + i) = P (x + r) + i"
    and inj: "inj_on P {x..<x + r + c}"
    and mem': "\<And>y. mem' y = (if P (x + r) \<le> y \<and> y < P (x + r) + c then drop r dat ! (y - P (x + r)) else mem y)"
    and len: "r + c \<le> length dat"
  shows "written mem0 P x dat (r + c) mem'"
proof -
  have chunk: "P (x + r) \<le> y \<and> y < P (x + r) + c \<longleftrightarrow> (\<exists>j < c. y = P (x + r + j))" for y
  proof
    assume "P (x + r) \<le> y \<and> y < P (x + r) + c"
    then have "y - P (x + r) < c" "y = P (x + r) + (y - P (x + r))" by linarith+
    then show "\<exists>j < c. y = P (x + r + j)" using c by metis
  qed (use c in auto)
  have "mem' (P (x + i)) = dat ! i" if i: "i < r + c" for i
  proof (cases "i < r")
    case True
    have "P (x + i) \<noteq> P (x + r + j)" if "j < c" for j
      using inj_onD [OF inj, of "x + i" "x + r + j"] True that by auto
    then show ?thesis using w True chunk [of "P (x + i)"] by (auto simp: mem' written_def)
  next
    case False
    then obtain j where j: "i = r + j" "j < c" using i by (metis le_add_diff_inverse not_less add_less_cancel_left)
    then have "P (x + i) = P (x + r) + j" using c by (simp add: add.assoc)
    then show ?thesis using j len by (simp add: mem')
  qed
  moreover have "mem' y = mem0 y" if "y \<notin> P ` {x..<x + (r + c)}" for y
  proof -
    have "\<not> (\<exists>j < c. y = P (x + r + j))" "y \<notin> P ` {x..<x + r}" using that by auto
    then show ?thesis using w chunk [of y] unfolding mem' written_def by auto
  qed
  ultimately show ?thesis by (simp add: written_def)
qed

lemma write_data_round:
  assumes req: "req_within b k n from len" and maps: "maps_by b ops t k n N m" and dev: "mem_writes b N D mem" "d \<in> D"
    and r: "r < unat len" and at: "io_at from r st" and dat: "io_dat st = drop r dat" "length dat = unat len"
    and w: "written mem0 (ptrans m k) (unat from) dat r (mem d)"
    and blank: "\<forall>i < unat len. mem0 (ptrans m k (unat from + i)) = 0xff"
  obtains c st' d' where "d' \<in> D" "0 < c" "r + c \<le> unat len" "io_at from (r + c) st'" "io_dat st' = drop (r + c) dat"
    "mtk_bmt_write_loop b ops len 0 st t d = mtk_bmt_write_loop b ops len 0 st' t d'"
    "written mem0 (ptrans m k) (unat from) dat (r + c) (mem d')"
proof -
  let ?a = "from + of_nat r" and ?x = "unat from + r" and ?P = "ptrans m k"
  obtain c p where c: "0 < c" "r + c \<le> unat len" "io_chunk (mtd_erasesize b - io_offset b ?a) len (of_nat r) = of_nat c"
      "unat (of_nat c :: u64) = c" "get_mapping_block ops b (sint (io_block b ?a)) t = int p"
      "unat (phys_addr b (int p) (io_offset b ?a)) = ?P ?x" "?P ?x + c \<le> N"
      "\<forall>i < c. ?P (?x + i) = ?P ?x + i"
    by (rule io_chunk_phys [OF req maps r])
  have ret: "io_retlen st = of_nat r" "io_addr st = ?a" "io_ooblen st = 0"
    using at by (simp_all add: io_at_def)
  have go: "io_retlen st < len" using r req ret(1) by (simp add: word_less_unat req_within_def unat_of_nat_small)
  have rq: "oo_len (wr_cur_ops b len st) = of_nat c" "oo_ooblen (wr_cur_ops b len st) = 0" "oo_datbuf (wr_cur_ops b len st) = drop r dat"
    using c(3) ret req dat(1) by (simp_all add: wr_cur_ops_def req_within_def block_geom_def)
  have "inj_on ?P {..<n * 2 ^ k}" using maps by (intro ptrans_inj) (simp add: maps_by_def)
  moreover have "{unat from..<?x + c} \<subseteq> {..<n * 2 ^ k}" using req c(2) by (auto simp: req_within_def)
  ultimately have inj: "inj_on ?P {unat from..<?x + c}" by (rule inj_on_subset)
  have erased: "mem d (?P ?x + i) = 0xff" if i: "i < c" for i
  proof -
    have "?P (?x + i) \<notin> ?P ` {unat from..<?x}"
      using inj_onD [OF inj, of "?x + i"] i by fastforce
    then have "mem d (?P (?x + i)) = mem0 (?P (?x + i))" using w by (simp add: written_def)
    then show ?thesis using blank c(2,8) i by (simp add: add.assoc)
  qed
  have le: "c \<le> length (drop r dat)" using c(2) dat(2) by simp
  obtain cur d' where wr: "lo_write_oob b d (phys_addr b (int p) (io_offset b ?a)) (wr_cur_ops b len st) = (0, cur, d')" "d' \<in> D"
    and cur: "oo_len cur = of_nat c" "oo_retlen cur = of_nat c" "oo_ooblen cur = 0" "oo_oobretlen cur = 0"
    and mem': "\<And>y. mem d' y = (if ?P ?x \<le> y \<and> y < ?P ?x + c then drop r dat ! (y - ?P ?x) else mem d y)"
    using dev(1) [unfolded mem_writes_def, rule_format, OF dev(2), of "wr_cur_ops b len st" "phys_addr b (int p) (io_offset b ?a)"]
    unfolding rq c(4,6) using c(7) erased le by auto
  define st' where "st' = (io_advance b cur st)\<lparr>io_dat := drop (unat (oo_retlen cur)) (io_dat st),
                             io_oob := drop (unat (oo_oobretlen cur)) (io_oob st)\<rparr>"
  have "(of_nat c :: u64) \<noteq> 0" using c(1,4) by (metis less_irrefl unat_0)
  then have "io_at from (r + c) st'" unfolding st'_def by (rule io_at_advance [OF at cur])
  moreover have "io_dat st' = drop (r + c) dat" by (simp add: st'_def cur(2) c(4) dat(1) add.commute)
  moreover have "mtk_bmt_write_loop b ops len 0 st t d = mtk_bmt_write_loop b ops len 0 st' t d'"
    using go c(5) wr(1) by (subst mtk_bmt_write_loop.simps) (simp add: Let_def ret(2) st'_def)
  moreover have "written mem0 ?P (unat from) dat (r + c) (mem d')"
    using w c(8) inj mem' c(2) dat(2) by (intro written_step [of mem0 ?P "unat from" dat r "mem d"]) simp_all
  ultimately show thesis using that c(1,2) wr(2) by blast
qed

lemma write_loop_data:
  assumes req: "req_within b k n from len" and maps: "maps_by b ops t k n N m" and dev: "mem_writes b N D mem"
    and len: "length dat = unat len" and blank: "\<forall>i < unat len. mem0 (ptrans m k (unat from + i)) = 0xff"
  shows "r \<le> unat len \<Longrightarrow> io_at from r st \<Longrightarrow> io_dat st = drop r dat \<Longrightarrow> d \<in> D \<Longrightarrow>
    written mem0 (ptrans m k) (unat from) dat r (mem d) \<Longrightarrow>
    \<exists>st' d'. mtk_bmt_write_loop b ops len 0 st t d = Some (0, st', t, d') \<and> d' \<in> D \<and> io_retlen st' = len \<and>
      written mem0 (ptrans m k) (unat from) dat (unat len) (mem d')"
proof (induction "unat len - r" arbitrary: r st d rule: less_induct)
  case less
  show ?case
  proof (cases "r < unat len")
    case False
    then have "r = unat len" using less.prems(1) by simp
    moreover from this have "mtk_bmt_write_loop b ops len 0 st t d = Some (0, st, t, d)"
      using less.prems by (subst mtk_bmt_write_loop.simps) (simp add: io_at_def)
    ultimately show ?thesis using less.prems by (simp add: io_at_def)
  next
    case True
    obtain c st' d' where d': "d' \<in> D" and step: "0 < c" "r + c \<le> unat len" "io_at from (r + c) st'" "io_dat st' = drop (r + c) dat"
        "mtk_bmt_write_loop b ops len 0 st t d = mtk_bmt_write_loop b ops len 0 st' t d'"
        "written mem0 (ptrans m k) (unat from) dat (r + c) (mem d')"
      by (rule write_data_round [OF req maps dev less.prems(4) True less.prems(2,3) len less.prems(5) blank])
    then show ?thesis
      unfolding step(5) using True by (intro less.hyps [OF _ step(2-4) d' step(6)]) simp
  qed
qed

lemma write_data:
  assumes "req_within b k n to (oo_len rq)" "maps_by b ops t k n N m" "mem_writes b N D mem" "d \<in> D" "oo_ooblen rq = 0"
    and "length (oo_datbuf rq) = unat (oo_len rq)"
    and "\<forall>i < unat (oo_len rq). mem d (ptrans m k (unat to + i)) = 0xff"
  shows "\<exists>st d'. mtk_bmt_write b ops to rq t d = Some (0, st, t, d') \<and> d' \<in> D \<and> io_retlen st = oo_len rq \<and>
    written (mem d) (ptrans m k) (unat to) (oo_datbuf rq) (unat (oo_len rq)) (mem d')"
  unfolding mtk_bmt_write_def assms(5)
  by (rule write_loop_data [OF assms(1-3) assms(6,7), where r = 0]) (simp_all add: io_at_def wr_init_def written_def assms(4,5))

section \<open>What is written is what is read\<close>

lemma written_lookup:
  assumes "written mem0 P x dat (length dat) mem" "inj_on P {..<n}" "x + length dat \<le> n" "y < n"
  shows "mem (P y) = (if x \<le> y \<and> y < x + length dat then dat ! (y - x) else mem0 (P y))"
proof (cases "x \<le> y \<and> y < x + length dat")
  case True
  then obtain i where "y = x + i" "i < length dat" by (metis le_Suc_ex add_less_cancel_left)
  with assms(1) True show ?thesis by (simp add: written_def)
next
  case False
  have "P y \<notin> P ` {x..<x + length dat}"
  proof
    assume "P y \<in> P ` {x..<x + length dat}"
    then obtain z where "P y = P z" "x \<le> z" "z < x + length dat" by auto
    with inj_onD [OF assms(2), of y z] assms(3,4) False show False by auto
  qed
  with assms(1) False show ?thesis by (auto simp: written_def)
qed

lemma write_then_read:
  assumes req: "req_within b k n to (oo_len rq)" "oo_ooblen rq = 0" "length (oo_datbuf rq) = unat (oo_len rq)"
    and maps: "maps_by b ops t k n N m" and dev: "mem_reads b N D mem" "mem_writes b N D mem" "d \<in> D"
    and blank: "\<forall>i < unat (oo_len rq). mem d (ptrans m k (unat to + i)) = 0xff"
  obtains st d' where "mtk_bmt_write b ops to rq t d = Some (0, st, t, d')" "io_retlen st = oo_len rq"
    "\<And>from rq2. req_within b k n from (oo_len rq2) \<Longrightarrow> oo_ooblen rq2 = 0 \<Longrightarrow>
      \<exists>st2. mtk_bmt_read b ops from rq2 t d' = Some (0, st2, t, d') \<and>
        io_dat st2 = map (\<lambda>y. if unat to \<le> y \<and> y < unat to + unat (oo_len rq) then oo_datbuf rq ! (y - unat to)
          else mem d (ptrans m k y)) [unat from..<unat from + unat (oo_len rq2)]"
proof -
  obtain st d' where wr: "mtk_bmt_write b ops to rq t d = Some (0, st, t, d')" "io_retlen st = oo_len rq"
      "written (mem d) (ptrans m k) (unat to) (oo_datbuf rq) (length (oo_datbuf rq)) (mem d')" "d' \<in> D"
    using write_data [OF req(1) maps dev(2,3) req(2,3) blank] unfolding req(3) by blast
  have inj: "inj_on (ptrans m k) {..<n * 2 ^ k}" using maps by (intro ptrans_inj) (simp add: maps_by_def)
  have to: "unat to + length (oo_datbuf rq) \<le> n * 2 ^ k" using req(1,3) by (simp add: req_within_def)
  have "\<exists>st2. mtk_bmt_read b ops a rq2 t d' = Some (0, st2, t, d') \<and>
        io_dat st2 = map (\<lambda>y. if unat to \<le> y \<and> y < unat to + unat (oo_len rq) then oo_datbuf rq ! (y - unat to)
          else mem d (ptrans m k y)) [unat a..<unat a + unat (oo_len rq2)]"
    if r2: "req_within b k n a (oo_len rq2)" "oo_ooblen rq2 = 0" for a rq2
  proof -
    have "rd_data (mem d') (ptrans m k) (unat a) (unat (oo_len rq2)) =
        map (\<lambda>y. if unat to \<le> y \<and> y < unat to + unat (oo_len rq) then oo_datbuf rq ! (y - unat to)
          else mem d (ptrans m k y)) [unat a..<unat a + unat (oo_len rq2)]"
      unfolding rd_data_def
    proof (rule map_cong [OF refl])
      fix y assume "y \<in> set [unat a..<unat a + unat (oo_len rq2)]"
      then have "y < n * 2 ^ k" using r2(1) by (simp add: req_within_def)
      from written_lookup [OF wr(3) inj to this] show "mem d' (ptrans m k y) =
          (if unat to \<le> y \<and> y < unat to + unat (oo_len rq) then oo_datbuf rq ! (y - unat to) else mem d (ptrans m k y))"
        unfolding req(3) .
    qed
    with read_data [OF r2(1) maps dev(1) wr(4) r2(2)] show ?thesis by auto
  qed
  with wr(1,2) show thesis by (rule that)
qed

end
