(* ===== verification/Bmt_Driver.thy ===== *)
theory Bmt_Driver
  imports Bmt_Bbt Bmt_V2 Nmbm_Inj Bmt_Data
begin

text \<open>
  Attaching the translation layer to an MTD device and detaching it (\<open>mtk_bmt_attach\<close>,
  \<open>mtk_bmt_replace_ops\<close> and \<open>mtk_bmt_detach\<close> of \<open>mtk_bmt.c\<close>), and the properties of the
  request loops through each of the three back ends.
\<close>

section \<open>The MTD device, the device tree node and the driver's global state\<close>

text \<open>
  A slot of \<open>struct mtd_info\<close> holds a function of the device or the driver's function of
  that slot.
\<close>

datatype 'f fnptr = Dev 'f | Bmt_fn

record 'd mtd_info =
  mi_id :: nat
  mi_size :: u64
  mi_erasesize :: u32
  mi_erasesize_mask :: u32
  mi_writesize :: u32
  mi_oobsize :: u32
  mi_bitflip_threshold :: u32
  mi_ecc_strength :: u32
  mi_read_oob :: "('d \<Rightarrow> u64 \<Rightarrow> mtd_oob_ops \<Rightarrow> int \<times> mtd_oob_ops \<times> 'd) fnptr"
  mi_write_oob :: "('d \<Rightarrow> u64 \<Rightarrow> mtd_oob_ops \<Rightarrow> int \<times> mtd_oob_ops \<times> 'd) fnptr"
  mi_erase :: "('d \<Rightarrow> u64 \<Rightarrow> u64 \<Rightarrow> int \<times> 'd) fnptr"
  mi_block_isbad :: "('d \<Rightarrow> u64 \<Rightarrow> int) fnptr"
  mi_block_markbad :: "('d \<Rightarrow> u64 \<Rightarrow> int \<times> 'd) fnptr"

text \<open>The properties of the device tree node that the driver reads; a property may be absent.\<close>

record bmt_node =
  np_bmt_v2 :: bool
  np_nmbm :: bool
  np_bbt :: bool
  np_remap_range :: "(u32 \<times> u32) list"
  np_oobsize :: "u32 option"
  np_pool_size :: "u32 option"
  np_oob_offset :: "u8 option"
  np_table_size :: "u32 option"
  np_max_ratio :: "u32 option"
  np_max_reserved :: "u32 option"
  np_ecc_ok :: bool
  np_force_create :: bool

datatype bmt_kind = Ops_v2 | Ops_nmbm | Ops_bbt

datatype bmt_table = No_table | V2_table bbbt | Bbt_table bbt_table | Nmbm_table nmbm_instance

text \<open>
  The variable \<open>bmtd\<close>. Its constants are a \<open>bmt_desc\<close> once they are set; its function
  pointers are kept apart, as they were read from the device.
\<close>

record 'd bmtd_state =
  bd_mtd :: "nat option"
  bd_ops :: "bmt_kind option"
  bd_read_oob :: "('d \<Rightarrow> u64 \<Rightarrow> mtd_oob_ops \<Rightarrow> int \<times> mtd_oob_ops \<times> 'd) fnptr option"
  bd_write_oob :: "('d \<Rightarrow> u64 \<Rightarrow> mtd_oob_ops \<Rightarrow> int \<times> mtd_oob_ops \<times> 'd) fnptr option"
  bd_erase :: "('d \<Rightarrow> u64 \<Rightarrow> u64 \<Rightarrow> int \<times> 'd) fnptr option"
  bd_block_isbad :: "('d \<Rightarrow> u64 \<Rightarrow> int) fnptr option"
  bd_block_markbad :: "('d \<Rightarrow> u64 \<Rightarrow> int \<times> 'd) fnptr option"
  bd_blk_shift :: u16
  bd_total_blks :: u16
  bd_desc :: "'d bmt_desc option"
  bd_table :: bmt_table
  bd_debugfs :: bool

definition bmtd_zero :: "'d bmtd_state" where
  "bmtd_zero =
     \<lparr>bd_mtd = None, bd_ops = None, bd_read_oob = None, bd_write_oob = None, bd_erase = None,
      bd_block_isbad = None, bd_block_markbad = None, bd_blk_shift = 0, bd_total_blks = 0,
      bd_desc = None, bd_table = No_table, bd_debugfs = False\<rparr>"

section \<open>mtk\_bmt\_replace\_ops and mtk\_bmt\_detach\<close>

definition mtk_bmt_replace_ops :: "'d mtd_info \<Rightarrow> 'd bmtd_state \<Rightarrow> 'd mtd_info \<times> 'd bmtd_state" where
  "mtk_bmt_replace_ops mi g =
     (mi\<lparr>mi_read_oob := Bmt_fn, mi_write_oob := Bmt_fn, mi_erase := Bmt_fn,
         mi_block_isbad := Bmt_fn, mi_block_markbad := Bmt_fn\<rparr>,
      g\<lparr>bd_read_oob := Some (mi_read_oob mi), bd_write_oob := Some (mi_write_oob mi),
        bd_erase := Some (mi_erase mi), bd_block_isbad := Some (mi_block_isbad mi),
        bd_block_markbad := Some (mi_block_markbad mi)\<rparr>)"

text \<open>
  A slot is restored from the saved pointer. \<open>None\<close> is the null pointer of a zeroed
  \<open>bmtd\<close>; it is never restored, because \<open>bmtd.mtd\<close> is set in the same places.
\<close>

definition restored :: "'f fnptr option \<Rightarrow> 'f fnptr \<Rightarrow> 'f fnptr" where
  "restored saved cur = (case saved of None \<Rightarrow> cur | Some p \<Rightarrow> p)"

definition mtk_bmt_detach :: "'d mtd_info \<Rightarrow> 'd bmtd_state \<Rightarrow> 'd mtd_info \<times> 'd bmtd_state" where
  "mtk_bmt_detach mi g =
     (if bd_mtd g \<noteq> Some (mi_id mi) then (mi, g)
      else
        (mi\<lparr>mi_read_oob := restored (bd_read_oob g) (mi_read_oob mi),
            mi_write_oob := restored (bd_write_oob g) (mi_write_oob mi),
            mi_erase := restored (bd_erase g) (mi_erase mi),
            mi_block_isbad := restored (bd_block_isbad g) (mi_block_isbad mi),
            mi_block_markbad := restored (bd_block_markbad g) (mi_block_markbad mi),
            mi_size := scast (push_bit (unat (bd_blk_shift g)) (ucast (bd_total_blks g) :: u32))\<rparr>,
         bmtd_zero))"

section \<open>mtk\_bmt\_attach\<close>

definition bmt_kind_of :: "bmt_node \<Rightarrow> bmt_kind option" where
  "bmt_kind_of np =
     (if np_bmt_v2 np then Some Ops_v2
      else if np_nmbm np then Some Ops_nmbm
      else if np_bbt np then Some Ops_bbt
      else None)"

definition ffs :: "u32 \<Rightarrow> nat" where
  "ffs x = (case find (bit x) [0..<32] of None \<Rightarrow> 0 | Some i \<Rightarrow> Suc i)"

definition shift_of :: "u32 \<Rightarrow> u16" where
  "shift_of x = of_nat (ffs x) - 1"

text \<open>
  The descriptor of the back ends, over the saved functions of the device. A saved pointer
  that is itself a function of the driver would make every access call itself without end:
  no descriptor then.
\<close>

definition bmt_desc_of :: "'d mtd_info \<Rightarrow> 'd bmtd_state \<Rightarrow> bmt_node \<Rightarrow> 'd bmt_desc option" where
  "bmt_desc_of mi g np =
     (case (bd_read_oob g, bd_write_oob g, bd_erase g, bd_block_isbad g, bd_block_markbad g) of
        (Some (Dev rd), Some (Dev wr), Some (Dev er), Some (Dev ib), Some (Dev mb)) \<Rightarrow>
          Some \<lparr>mtd_size = mi_size mi, mtd_erasesize = mi_erasesize mi,
                mtd_erasesize_mask = mi_erasesize_mask mi, mtd_oobsize = mi_oobsize mi,
                mtd_bitflip_threshold = mi_bitflip_threshold mi, mtd_ecc_strength = mi_ecc_strength mi,
                lo_read_oob = rd, lo_write_oob = wr, lo_erase = er, lo_block_isbad = ib,
                lo_block_markbad = mb, table_size = 0, pg_size = mi_writesize mi,
                blk_size = mi_erasesize mi, pg_shift = shift_of (mi_writesize mi),
                blk_shift = shift_of (mi_erasesize mi), pool_lba = 0, bb_max = 0,
                total_blks = ucast (shr64 (mi_size mi) (shift_of (mi_erasesize mi))), bmt_pgs = 0,
                remap_range = np_remap_range np, oob_offset = 0\<rparr>
      | _ \<Rightarrow> None)"

definition v2_zero :: bbbt where
  "v2_zero = \<lparr>bb_signature = [], bb_version = 0, bb_tbl = [], bmt_tbl = [],
     bmt_past = (\<lambda>_. \<lparr>bm_block = 0, bm_mapped = 0\<rparr>), pool_pba = 0, bmt_blk_idx = 0, bb_lost = False\<rparr>"

definition bbt_zero :: bbt_table where
  "bbt_zero = \<lparr>bbt_buf = [], bbt_blk_idx = 0\<rparr>"

text \<open>
  \<open>bmtd.ops->init(np)\<close>: the return value, the descriptor, the table and the device after it. \<open>ram\<close>
  is the memory behind the buffer that the version 2 back end allocates.
\<close>

definition bmt_init ::
    "(u32 \<Rightarrow> bytes \<Rightarrow> u32) \<Rightarrow> (nat \<Rightarrow> u8) \<Rightarrow> bmt_node \<Rightarrow> bool \<Rightarrow> bmt_kind \<Rightarrow> 'd bmt_desc \<Rightarrow> 'd
       \<Rightarrow> (int \<times> 'd bmt_desc \<times> bmt_table \<times> 'd) option" where
  "bmt_init crc ram np alloc_ok kind b d =
     (case kind of
        Ops_v2 \<Rightarrow>
          map_option (\<lambda>(r, b1, t, d1). (r, b1, V2_table t, d1))
            (mtk_bmt_init_v2 b (np_pool_size np) (np_oob_offset np) (np_table_size np) alloc_ok ram v2_zero d)
      | Ops_nmbm \<Rightarrow>
          map_option (\<lambda>(r, ni, b1, d1). (r, b1, case ni of None \<Rightarrow> No_table | Some ni \<Rightarrow> Nmbm_table ni, d1))
            (mtk_bmt_init_nmbm crc b (np_max_ratio np) (np_max_reserved np) (np_ecc_ok np)
               (np_force_create np) alloc_ok d)
      | Ops_bbt \<Rightarrow>
          (case mtk_bmt_init_bbt b alloc_ok bbt_zero d of (r, b1, t, d1) \<Rightarrow> Some (r, b1, Bbt_table t, d1)))"

definition override_oobsize :: "bmt_node \<Rightarrow> 'd mtd_info \<Rightarrow> 'd mtd_info" where
  "override_oobsize np mi =
     (case np_oobsize np of
        None \<Rightarrow> mi
      | Some n \<Rightarrow> if n < mi_oobsize mi then mi\<lparr>mi_oobsize := n\<rparr> else mi)"

definition mtk_bmt_attach ::
    "(u32 \<Rightarrow> bytes \<Rightarrow> u32) \<Rightarrow> (nat \<Rightarrow> u8) \<Rightarrow> bmt_node option \<Rightarrow> bool \<Rightarrow> bool \<Rightarrow> bool \<Rightarrow> 'd mtd_info \<Rightarrow> 'd bmtd_state \<Rightarrow> 'd
       \<Rightarrow> (int \<times> 'd mtd_info \<times> 'd bmtd_state \<times> 'd) option" where
  "mtk_bmt_attach crc ram node kzalloc_ok init_alloc_ok debugfs_ok mi g d =
     (if bd_mtd g \<noteq> None then Some (- ENOSPC, mi, g, d)
      else case node of
        None \<Rightarrow> Some (0, mi, g, d)
      | Some np \<Rightarrow>
          (case bmt_kind_of np of
             None \<Rightarrow> Some (0, mi, g, d)
           | Some kind \<Rightarrow>
               let (mi1, g1) = mtk_bmt_replace_ops mi (g\<lparr>bd_ops := Some kind, bd_mtd := Some (mi_id mi)\<rparr>);
                   mi2 = override_oobsize np mi1;
                   g2 = g1\<lparr>bd_blk_shift := shift_of (mi_erasesize mi2),
                           bd_total_blks := ucast (shr64 (mi_size mi2) (shift_of (mi_erasesize mi2)))\<rparr>
               in if \<not> kzalloc_ok then
                    (let (mi3, g3) = mtk_bmt_detach mi2 g2 in Some (- 1, mi3, g3, d))
                  else case bmt_desc_of mi2 g2 np of
                    None \<Rightarrow> None
                  | Some b \<Rightarrow>
                      (case bmt_init crc ram np init_alloc_ok kind b d of
                         None \<Rightarrow> None
                       | Some (ret, b1, t, d1) \<Rightarrow>
                           let mi3 = mi2\<lparr>mi_size := mtd_size b1\<rparr>;
                               g3 = g2\<lparr>bd_desc := Some b1, bd_table := t\<rparr>
                           in if ret \<noteq> 0 then
                                (let (mi4, g4) = mtk_bmt_detach mi3 g3 in Some (ret, mi4, g4, d1))
                              else Some (0, mi3, g3\<lparr>bd_debugfs := debugfs_ok\<rparr>, d1))))"

section \<open>The size of a chip in blocks\<close>

lemma find_bit_exp: "k < 32 \<Longrightarrow> find (bit (2 ^ k :: u32)) [0..<32] = Some k"
  unfolding find_Some_iff by (intro exI [of _ k]) (auto simp: bit_exp_iff)

lemma shift_of_exp:
  assumes "k < 32"
  shows "shift_of (2 ^ k) = of_nat k"
  using find_bit_exp [OF assms] by (simp add: shift_of_def ffs_def)

text \<open>A device of \<open>n\<close> blocks of \<open>2 ^ k\<close> bytes, below the 2 GiB that a C \<open>int\<close> can hold.\<close>

definition small_chip :: "'d mtd_info \<Rightarrow> nat \<Rightarrow> nat \<Rightarrow> bool" where
  "small_chip mi k n \<longleftrightarrow> k < 31 \<and> mi_erasesize mi = 2 ^ k \<and> mi_size mi = of_nat (n * 2 ^ k) \<and>
     n < 2 ^ 16 \<and> n * 2 ^ k < 2 ^ 31"

lemma small_chip_size:
  assumes "small_chip mi k n"
  shows "shift_of (mi_erasesize mi) = of_nat k"
    and "(scast (push_bit k (ucast (ucast (shr64 (mi_size mi) (of_nat k)) :: u16) :: u32)) :: u64) = mi_size mi"
proof -
  have k: "k < 32" and n: "n < 2 ^ 16" "n * 2 ^ k < 2 ^ 31" and e: "mi_erasesize mi = 2 ^ k"
    and s: "mi_size mi = of_nat (n * 2 ^ k)" using assms by (auto simp: small_chip_def)
  show "shift_of (mi_erasesize mi) = of_nat k" using e shift_of_exp [OF k] by simp
  have us: "unat (mi_size mi) = n * 2 ^ k"
    unfolding s using n(2) by (intro unat_of_nat_small) simp
  have "unat (of_nat k :: u16) = k" using k by (intro unat_of_nat_small) simp
  then have "unat (shr64 (mi_size mi) (of_nat k)) = n"
    unfolding shr64_def unat_drop_bit_eq us by (simp add: drop_bit_eq_div)
  then have t: "unat (ucast (shr64 (mi_size mi) (of_nat k)) :: u16) = n"
    using n(1) by (subst unat_ucast_small) simp_all
  define w where "w = (ucast (ucast (shr64 (mi_size mi) (of_nat k)) :: u16) :: u32)"
  have "unat w = n" using t by (simp add: w_def)
  then have w: "w = of_nat n" by auto
  have p: "push_bit k w = of_nat (n * 2 ^ k)" by (simp add: w push_bit_eq_mult)
  have u: "uint (push_bit k w) = int (n * 2 ^ k)"
    unfolding p using n(2) by (simp only: uint_nat) (subst unat_of_nat_small, simp_all)
  have "int (n * 2 ^ k) < int (2 ^ 31)" using n(2) by (simp only: of_nat_less_iff)
  then have "int (n * 2 ^ k) < 2 ^ 31" by simp
  then have "sint (push_bit k w) = int (n * 2 ^ k)" using sint_small [of "push_bit k w"] by (simp only: u)
  then have "(scast (push_bit k w) :: u64) = of_nat (n * 2 ^ k)" by (simp only: scast_eq of_int_of_nat_eq)
  then show "(scast (push_bit k (ucast (ucast (shr64 (mi_size mi) (of_nat k)) :: u16) :: u32)) :: u64) = mi_size mi"
    unfolding w_def by (simp only: s)
qed

section \<open>Requests through the three back ends\<close>

lemma sim_nand_ok: "nand_ok sim_desc 3"
proof -
  have "full_reads sim_desc" "full_writes sim_desc"
    by (simp_all add: full_reads_def full_writes_def moved_all_def sim_defs)
  then show ?thesis by (simp add: nand_ok_def block_geom_def) (simp add: sim_desc_def)
qed

text \<open>
  C2. From a consistent version 2 table whose index lies in its pool, whatever faults the device
  shows, sequences of read, write, erase, isbad and markbad requests inside the data area
  (\<open>req_ok\<close>: transfers below 4 GiB, with or without OOB data) leave such a table, and every block
  of the data area on a block of the chip, until an upload of the table finds no place for it
  (\<open>bb_lost\<close>). No such request hangs: each has a result in every reachable state, also after that.
\<close>

theorem v2_requests_safe:
  assumes "nand_ok b k" "v2_ready b t0" "\<not> bb_lost t0"
    and "bmt_reach b mtk_bmt_v2_ops (req_ok b k (unat (pool_lba b))) (t0, d0) (t, d)"
  shows "(\<not> bb_lost t \<longrightarrow> v2_inv b t \<and> unat (bmt_blk_idx t) < length (bmt_tbl t) \<and>
      (\<forall>j :: u16. unat j < unat (pool_lba b) \<longrightarrow> 0 \<le> get_mapping_block_index_v2 b (uint j) t \<and>
         get_mapping_block_index_v2 b (uint j) t < uint (total_blks b))) \<and>
    (\<forall>req. req_ok b k (unat (pool_lba b)) req \<longrightarrow> (\<exists>ret s'. bmt_step b mtk_bmt_v2_ops (t, d) req ret s'))"
proof -
  have "v2_safe b t0" using assms(2) by (simp add: v2_safe_def)
  from v2.requests_safe [OF assms(1) _ _ this assms(4)] unat_less_2p [of "pool_lba b"] show ?thesis
    by (auto simp: v2_safe_def v2_ready_def mtk_bmt_v2_ops_def)
qed

theorem v2_requests_safe_witness:
  "\<exists>ret s'. bmt_step sim_desc mtk_bmt_v2_ops (sim_v2, sim_chip) (Req_read 14
     \<lparr>oo_len = 4, oo_retlen = 0, oo_ooblen = 6, oo_oobretlen = 0, oo_ooboffs = 0, oo_datbuf = [], oo_oobbuf = []\<rparr>) ret s'"
proof -
  have "req_ok sim_desc 3 (unat (pool_lba sim_desc)) (Req_read 14
      \<lparr>oo_len = 4, oo_retlen = 0, oo_ooblen = 6, oo_oobretlen = 0, oo_ooboffs = 0, oo_datbuf = [], oo_oobbuf = []\<rparr>)"
    using sim_nand_ok by (simp add: oob_req_within_def req_within_def nand_ok_def)
  with v2_requests_safe [OF sim_nand_ok sim_v2_ready bmt_reach.start] show ?thesis by blast
qed

text \<open>
  C3. The same for NMBM: from an instance whose data blocks lie on blocks that the state table
  covers, sequences of requests (\<open>req_ok\<close>: transfers below 4 GiB, with or without OOB data, and
  erases, on any of 65536 blocks; the back end refuses blocks outside the data area) keep them
  there, and no request hangs.
\<close>

theorem nmbm_requests_safe:
  assumes "nand_ok b k" "nm_ok n lim ni0"
    and "bmt_reach b (mtk_bmt_nmbm_ops crc) (req_ok b k (2 ^ 16)) (ni0, d0) (ni, d)"
  shows "nm_ok n lim ni \<and>
    (\<forall>j :: u16. unat j < n \<longrightarrow> 0 \<le> get_mapping_block_index_nmbm b (uint j) ni \<and>
       get_mapping_block_index_nmbm b (uint j) ni < int (16 * length (block_state ni))) \<and>
    (\<forall>req. req_ok b k (2 ^ 16) req \<longrightarrow> (\<exists>ret s'. bmt_step b (mtk_bmt_nmbm_ops crc) (ni, d) req ret s'))"
  using nm.requests_safe [OF assms(1) _ _ assms(2,3)] by (simp add: mtk_bmt_nmbm_ops_def) (auto simp: nm_ok_def)

theorem nmbm_requests_safe_witness:
  "\<exists>ret s'. bmt_step sim_desc (mtk_bmt_nmbm_ops sum_crc) (sim_ni, sim_chip) (Req_erase 7 9 30) ret s'"
proof -
  have "nm_ok 3 16 sim_ni"
    unfolding nm_ok_def sim_ni_fields by (auto simp: sim_ni_def dest!: less_3D)
  moreover have "req_ok sim_desc 3 (2 ^ 16) (Req_erase 7 9 30)" by simp
  ultimately show ?thesis
    using nmbm_requests_safe [OF sim_nand_ok _ bmt_reach.start, of 3 16 sim_ni sum_crc] by blast
qed

text \<open>
  C4. The same for BBT, for requests (\<open>req_ok\<close>: transfers below 4 GiB, with or without OOB data)
  on the first \<open>n\<close> blocks of the chip, where the remap range a block is looked up in lies on the
  chip: in every reachable state the bitmap covers the chip, every block that was bad is still
  bad, every block translates to a block of the chip, and no request hangs.
\<close>

theorem bbt_requests_safe:
  assumes "nand_ok b k" "bbt_covers b t0" "n \<le> 2 ^ 16" "\<And>j. unat j < n \<Longrightarrow> bbt_blk_ok b j"
    and "bmt_reach b mtk_bmt_bbt_ops (req_ok b k n) (t0, d0) (t, d)"
  shows "bbt_covers b t \<and> (\<forall>i. bbt_block_is_bad t0 i \<longrightarrow> bbt_block_is_bad t i) \<and>
    (\<forall>j :: u16. unat j < n \<longrightarrow> 0 \<le> get_mapping_block_index_bbt b (uint j) t \<and> get_mapping_block_index_bbt b (uint j) t < uint (total_blks b)) \<and>
    (\<forall>req. req_ok b k n req \<longrightarrow> (\<exists>ret s'. bmt_step b mtk_bmt_bbt_ops (t, d) req ret s'))"
proof -
  have "bbt_grows b t0 t0" using assms(2) by (simp add: bbt_grows_def)
  from bb.requests_safe [OF assms(1,3,4) this assms(5)] assms(4) show ?thesis
    by (simp add: bbt_grows_def mtk_bmt_bbt_ops_def)
qed

lemma u16_below_six:
  assumes "unat (j :: u16) < 6"
  shows "j = 0 \<or> j = 1 \<or> j = 2 \<or> j = 3 \<or> j = 4 \<or> j = 5"
proof -
  have "unat j = 0 \<or> unat j = 1 \<or> unat j = 2 \<or> unat j = 3 \<or> unat j = 4 \<or> unat j = 5" using assms by linarith
  then show ?thesis by (auto simp: word_unat_eq_iff)
qed

lemma sim_bbt_blk_ok:
  assumes "unat j < 6"
  shows "bbt_blk_ok sim_desc j"
proof -
  have "bbt_blk_ok sim_desc 0 \<and> bbt_blk_ok sim_desc 1 \<and> bbt_blk_ok sim_desc 2 \<and> bbt_blk_ok sim_desc 3 \<and>
      bbt_blk_ok sim_desc 4 \<and> bbt_blk_ok sim_desc 5" by code_simp
  with u16_below_six [OF assms] show ?thesis by auto
qed

theorem bbt_requests_safe_witness:
  "\<exists>ret s'. bmt_step sim_desc mtk_bmt_bbt_ops (sim_bbt, sim_chip) (Req_isbad 35) ret s'"
proof -
  have "bbt_covers sim_desc sim_bbt" by (simp add: bbt_covers_def sim_bbt_def)
  moreover have "req_ok sim_desc 3 6 (Req_isbad 35)" by simp
  ultimately show ?thesis
    using bbt_requests_safe [OF sim_nand_ok _ _ sim_bbt_blk_ok bmt_reach.start, of sim_bbt 6] by auto
qed

section \<open>Attach, then detach\<close>

text \<open>The device with its slots replaced, and the driver's state then, for a device \<open>mi\<close> and a node \<open>np\<close>.\<close>

definition hooked_mtd :: "bmt_node \<Rightarrow> 'd mtd_info \<Rightarrow> 'd mtd_info" where
  "hooked_mtd np mi = (override_oobsize np mi)\<lparr>mi_read_oob := Bmt_fn, mi_write_oob := Bmt_fn, mi_erase := Bmt_fn,
     mi_block_isbad := Bmt_fn, mi_block_markbad := Bmt_fn\<rparr>"

definition hooked_bmtd :: "bmt_kind \<Rightarrow> 'd mtd_info \<Rightarrow> 'd bmtd_state" where
  "hooked_bmtd kind mi =
     \<lparr>bd_mtd = Some (mi_id mi), bd_ops = Some kind, bd_read_oob = Some (mi_read_oob mi),
      bd_write_oob = Some (mi_write_oob mi), bd_erase = Some (mi_erase mi), bd_block_isbad = Some (mi_block_isbad mi),
      bd_block_markbad = Some (mi_block_markbad mi), bd_blk_shift = shift_of (mi_erasesize mi),
      bd_total_blks = ucast (shr64 (mi_size mi) (shift_of (mi_erasesize mi))),
      bd_desc = None, bd_table = No_table, bd_debugfs = False\<rparr>"

lemma override_oobsize_fields [simp]:
  "mi_id (override_oobsize np mi) = mi_id mi" "mi_size (override_oobsize np mi) = mi_size mi"
  "mi_erasesize (override_oobsize np mi) = mi_erasesize mi"
  by (simp_all add: override_oobsize_def split: option.split)

lemma attach_unfold:
  fixes mi :: "'d mtd_info"
  assumes "bmt_kind_of np = Some kind"
  shows "mtk_bmt_attach crc ram (Some np) kzalloc_ok init_ok debugfs_ok mi bmtd_zero d =
    (if \<not> kzalloc_ok then
       (let (mi3, g3) = mtk_bmt_detach (hooked_mtd np mi) (hooked_bmtd kind mi) in Some (- 1, mi3, g3, d))
     else case bmt_desc_of (hooked_mtd np mi) (hooked_bmtd kind mi) np of
       None \<Rightarrow> None
     | Some b \<Rightarrow>
         (case bmt_init crc ram np init_ok kind b d of
            None \<Rightarrow> None
          | Some (ret, b1, t, d1) \<Rightarrow>
              let mi3 = (hooked_mtd np mi)\<lparr>mi_size := mtd_size b1\<rparr>;
                  g3 = (hooked_bmtd kind mi)\<lparr>bd_desc := Some b1, bd_table := t\<rparr>
              in if ret \<noteq> 0 then (let (mi4, g4) = mtk_bmt_detach mi3 g3 in Some (ret, mi4, g4, d1))
                 else Some (0, mi3, g3\<lparr>bd_debugfs := debugfs_ok\<rparr>, d1)))"
proof -
  let ?g = "(bmtd_zero :: 'd bmtd_state)\<lparr>bd_ops := Some kind, bd_mtd := Some (mi_id mi)\<rparr>"
  have "override_oobsize np (fst (mtk_bmt_replace_ops mi ?g)) = hooked_mtd np mi"
    by (simp add: mtk_bmt_replace_ops_def override_oobsize_def hooked_mtd_def split: option.split)
  moreover have "(snd (mtk_bmt_replace_ops mi ?g))\<lparr>bd_blk_shift := shift_of (mi_erasesize mi),
      bd_total_blks := ucast (shr64 (mi_size mi) (shift_of (mi_erasesize mi)))\<rparr> = hooked_bmtd kind mi"
    by (simp add: mtk_bmt_replace_ops_def hooked_bmtd_def bmtd_zero_def)
  moreover have "mi_size (hooked_mtd np mi) = mi_size mi" "mi_erasesize (hooked_mtd np mi) = mi_erasesize mi"
    by (simp_all add: hooked_mtd_def)
  moreover have "bd_mtd (bmtd_zero :: 'd bmtd_state) = None" by (simp add: bmtd_zero_def)
  ultimately show ?thesis
    using assms unfolding mtk_bmt_attach_def
    by (simp only: Let_def case_prod_beta option.case simp_thms if_False) (simp add: case_prod_beta cong: option.case_cong)
qed

lemma hooked_detach:
  assumes chip: "small_chip mi k n"
  shows "mtk_bmt_detach ((hooked_mtd np mi)\<lparr>mi_size := sz\<rparr>) ((hooked_bmtd kind mi)\<lparr>bd_desc := x, bd_table := y, bd_debugfs := z\<rparr>)
    = (override_oobsize np mi, bmtd_zero)"
proof -
  have "unat (of_nat k :: u16) = k" using chip by (intro unat_of_nat_small) (simp add: small_chip_def)
  then show ?thesis
    using small_chip_size [OF chip]
    by (simp add: mtk_bmt_detach_def hooked_mtd_def hooked_bmtd_def restored_def)
      (simp add: override_oobsize_def split: option.split)
qed

text \<open>A device of eight blocks of four pages with a node that asks for the version 2 back end.\<close>

definition sim_mtd :: "bytes mtd_info" where
  "sim_mtd = \<lparr>mi_id = 1, mi_size = 512, mi_erasesize = 64, mi_erasesize_mask = 63, mi_writesize = 16, mi_oobsize = 8,
     mi_bitflip_threshold = 0, mi_ecc_strength = 1, mi_read_oob = Dev sim_read, mi_write_oob = Dev sim_write,
     mi_erase = Dev sim_erase, mi_block_isbad = Dev sim_isbad, mi_block_markbad = Dev sim_markbad\<rparr>"

definition sim_node :: bmt_node where
  "sim_node = \<lparr>np_bmt_v2 = True, np_nmbm = False, np_bbt = False, np_remap_range = [], np_oobsize = Some 4,
     np_pool_size = Some 3, np_oob_offset = None, np_table_size = Some 8, np_max_ratio = None,
     np_max_reserved = None, np_ecc_ok = False, np_force_create = False\<rparr>"

lemma sim_attach:
  "map_option fst (mtk_bmt_attach sum_crc (\<lambda>_. 0) (Some sim_node) True True True sim_mtd bmtd_zero (replicate 512 0xff)) = Some 0"
  by code_simp

text \<open>
  C5. On a device of less than 2 GiB, of fewer than 65536 blocks of a power of two of bytes: a
  successful attach puts the driver's functions into all five slots of the device; detaching
  gives the device its functions and its size back and clears the driver's state. An attach that
  fails has already done so. Only an overridden OOB size stays. (From 2 GiB on the size is not
  restored.)
\<close>

theorem mtk_bmt_attach_detach:
  assumes run: "mtk_bmt_attach crc ram (Some np) kzalloc_ok init_ok debugfs_ok mi bmtd_zero d = Some (r, mi', g', d')"
    and kind: "bmt_kind_of np = Some kind" and chip: "small_chip mi k n"
  shows "(r = 0 \<longrightarrow> bd_mtd g' = Some (mi_id mi) \<and> mi_read_oob mi' = Bmt_fn \<and> mi_write_oob mi' = Bmt_fn \<and>
      mi_erase mi' = Bmt_fn \<and> mi_block_isbad mi' = Bmt_fn \<and> mi_block_markbad mi' = Bmt_fn \<and>
      mtk_bmt_detach mi' g' = (override_oobsize np mi, bmtd_zero)) \<and>
    (r \<noteq> 0 \<longrightarrow> mi' = override_oobsize np mi \<and> g' = bmtd_zero)"
proof -
  have slots: "mi_read_oob (hooked_mtd np mi) = Bmt_fn" "mi_write_oob (hooked_mtd np mi) = Bmt_fn"
      "mi_erase (hooked_mtd np mi) = Bmt_fn" "mi_block_isbad (hooked_mtd np mi) = Bmt_fn"
      "mi_block_markbad (hooked_mtd np mi) = Bmt_fn" "bd_mtd (hooked_bmtd kind mi) = Some (mi_id mi)"
    by (simp_all add: hooked_mtd_def hooked_bmtd_def)
  have d1: "mtk_bmt_detach ((hooked_mtd np mi)\<lparr>mi_size := sz\<rparr>) ((hooked_bmtd kind mi)\<lparr>bd_desc := x, bd_table := y\<rparr>) =
      (override_oobsize np mi, bmtd_zero)" for sz x y
    using hooked_detach [OF chip, where np = np and sz = sz and kind = kind and x = x and y = y and z = False]
    by (simp add: hooked_bmtd_def)
  have d0: "mtk_bmt_detach (hooked_mtd np mi) (hooked_bmtd kind mi) = (override_oobsize np mi, bmtd_zero)"
    using hooked_detach [OF chip, where np = np and sz = "mi_size (hooked_mtd np mi)" and kind = kind and x = None and y = No_table and z = False]
    by (simp add: hooked_bmtd_def)
  show ?thesis
    using run unfolding attach_unfold [OF kind]
    by (auto simp: d0 d1 slots hooked_detach [OF chip] Let_def split: if_splits option.splits prod.splits)
qed

theorem mtk_bmt_attach_detach_witness:
  "\<exists>mi' g' d'. mtk_bmt_attach sum_crc (\<lambda>_. 0) (Some sim_node) True True True sim_mtd bmtd_zero (replicate 512 0xff) = Some (0, mi', g', d') \<and>
     mi_read_oob mi' = Bmt_fn \<and> mtk_bmt_detach mi' g' = (sim_mtd\<lparr>mi_oobsize := 4\<rparr>, bmtd_zero)"
proof -
  obtain mi' g' d' where run:
      "mtk_bmt_attach sum_crc (\<lambda>_. 0) (Some sim_node) True True True sim_mtd bmtd_zero (replicate 512 0xff) = Some (0, mi', g', d')"
    using sim_attach by auto
  have "bmt_kind_of sim_node = Some Ops_v2" by (simp add: bmt_kind_of_def sim_node_def)
  moreover have "small_chip sim_mtd 6 8" by (simp add: small_chip_def sim_mtd_def)
  moreover have "override_oobsize sim_node sim_mtd = sim_mtd\<lparr>mi_oobsize := 4\<rparr>"
    by (simp add: override_oobsize_def sim_node_def sim_mtd_def)
  ultimately show ?thesis using mtk_bmt_attach_detach [OF run] run by auto
qed

lemma unat_scast_high:
  assumes "unat w = n" "2 ^ 31 \<le> n"
  shows "unat (scast (w :: u32) :: u64) = n + (2 ^ 64 - 2 ^ 32)"
proof -
  have n: "n < 2 ^ 32" using assms(1) unat_less_2p [of w] by simp
  have u: "uint w = int n" using assms(1) by (simp only: uint_nat)
  have "sint w = int n - 2 ^ 32"
  proof -
    have "sint w = signed_take_bit 31 (int n)" unfolding u [symmetric] by (simp add: sint_uint)
    moreover have "int n div 2147483648 = 1" using assms(2) n by simp
    ultimately show ?thesis
      using n by (simp add: signed_take_bit_eq_take_bit_minus take_bit_int_eq_self bit_iff_odd)
  qed
  then have "(scast w :: u64) = word_of_int (int (n + (2 ^ 64 - 2 ^ 32)))"
    by (simp add: scast_eq word_of_int_eq_iff take_bit_eq_mod mod_eq_dvd_iff)
  also have "\<dots> = of_nat (n + (2 ^ 64 - 2 ^ 32))" by (rule of_int_of_nat_eq)
  finally show ?thesis using n by (simp only:) (subst unat_of_nat_small, simp_all)
qed

text \<open>
  C33. On detach the size is computed in a C \<open>int\<close>: for a chip of 2 to 4 GiB it is negative and
  its sign fills the upper half of the 64-bit \<open>mtd->size\<close>, so the size is not restored.
\<close>

theorem mtk_bmt_detach_size_sign_extends:
  assumes "bd_mtd g = Some (mi_id mi)" "unat (bd_total_blks g) * 2 ^ unat (bd_blk_shift g) = n" "2 ^ 31 \<le> n" "n < 2 ^ 32"
  shows "unat (mi_size (fst (mtk_bmt_detach mi g))) = n + (2 ^ 64 - 2 ^ 32)"
proof -
  let ?w = "push_bit (unat (bd_blk_shift g)) (ucast (bd_total_blks g)) :: u32"
  have "?w = of_nat n" unfolding assms(2) [symmetric] by (simp add: push_bit_eq_mult)
  then have "unat ?w = n" using assms(4) by (simp add: unat_of_nat_small)
  from unat_scast_high [OF this assms(3)] assms(1) show ?thesis by (simp add: mtk_bmt_detach_def)
qed

theorem mtk_bmt_detach_size_sign_extends_witness:
  "unat (mi_size (fst (mtk_bmt_detach sim_mtd (bmtd_zero\<lparr>bd_mtd := Some 1, bd_blk_shift := 17, bd_total_blks := 16384\<rparr>)))) =
     2 ^ 31 + (2 ^ 64 - 2 ^ 32)"
  by (rule mtk_bmt_detach_size_sign_extends) (simp_all add: sim_mtd_def)

section \<open>Data through the back ends\<close>









end
