(* ===== verification/Nmbm_Layout.thy ===== *)
theory Nmbm_Layout
  imports Nmbm_Facts
begin

text \<open>
  The layout of the NMBM info table in memory and in flash: the tables \<open>nmbm_init_structure\<close>
  carves out do not overlap and fill the allocation, a generated table image reads back as the
  instance that wrote it, and an update stores the image generated before it writes, so a block
  that goes bad during the write is not in it.
\<close>

section \<open>Round trip of the info table\<close>

text \<open>The header, the state table and the mapping table lie behind each other in the info table.\<close>

definition nmbm_layout :: "nmbm_instance \<Rightarrow> bool" where
  "nmbm_layout ni \<longleftrightarrow>
     32 \<le> unat (state_table_off (info_table ni)) \<and>
     unat (state_table_off (info_table ni)) + unat (state_table_size ni) \<le> unat (mapping_table_off (info_table ni)) \<and>
     unat (mapping_table_off (info_table ni)) + unat (mapping_table_size ni) \<le> unat (info_table_size ni) \<and>
     unat (state_table_size ni) = 4 * length (block_state ni) \<and>
     unat (mapping_table_size ni) = 4 * length (block_mapping ni)"

lemma take_drop_memcpy_inside:
  "off \<le> length buf \<Longrightarrow> take (length src) (drop off (memcpy_at buf off src)) = src"
  by (simp add: memcpy_at_def)

lemma take_drop_memcpy_other:
  assumes "off + length src \<le> length buf" "k + n \<le> off \<or> off + length src \<le> k"
  shows "take n (drop k (memcpy_at buf off src)) = take n (drop k buf)"
  using assms(2)
proof
  assume a: "k + n \<le> off"
  then have "take n (drop k (memcpy_at buf off src)) = take n (drop k (take off buf))"
    using assms(1) by (simp add: memcpy_at_def)
  also have "\<dots> = take n (drop k buf)"
    using a by (simp add: drop_take min_def)
  finally show ?thesis .
next
  assume a: "off + length src \<le> k"
  then show ?thesis
    using assms(1) by (simp add: memcpy_at_def add.commute)
qed

lemma rd32_take_drop: "i + 4 \<le> n \<Longrightarrow> k + n \<le> length bs \<Longrightarrow> rd32 bs (k + i) = rd32 (take n (drop k bs)) i"
  by (simp add: rd32_take rd32_drop add.commute)

lemma rd32s_of_take:
  assumes "take (4 * n) (drop k bs) = le32s ws" "length ws = n" "k + 4 * n \<le> length bs"
  shows "rd32s n bs k = ws"
proof (rule nth_equalityI)
  fix i assume "i < length (rd32s n bs k)"
  then have i: "i < n" by simp
  have "rd32 bs (k + 4 * i) = rd32 (take (4 * n) (drop k bs)) (4 * i)"
    using i assms(3) by (intro rd32_take_drop) simp_all
  then show "rd32s n bs k ! i = ws ! i"
    using i assms(1,2) by (simp add: rd32s_def rd32_le32s)
qed (simp add: assms(2))

lemma length_it_bytes [simp]: "length (it_bytes t) = 32"
  by (simp add: it_bytes_def hdr_bytes_def)

lemma it_bytes_fields:
  "rd32 (it_bytes t) 0 = h_magic (it_header t)" "rd32 (it_bytes t) 4 = h_version (it_header t)"
  "rd32 (it_bytes t) 8 = h_size (it_header t)" "rd32 (it_bytes t) 16 = write_count t"
  "rd32 (it_bytes t) 20 = state_table_off t" "rd32 (it_bytes t) 24 = mapping_table_off t"
  by (simp_all add: it_bytes_def hdr_bytes_def le_codec)

lemma update_checksum_other:
  assumes "16 \<le> length dat" "16 \<le> k"
  shows "take n (drop k (nmbm_update_checksum crc dat)) = take n (drop k dat)"
  using assms by (simp add: nmbm_update_checksum_def Let_def take_drop_memcpy_other)

lemma update_checksum_length [simp]: "16 \<le> length dat \<Longrightarrow> length (nmbm_update_checksum crc dat) = length dat"
  by (simp add: nmbm_update_checksum_def Let_def)

lemma update_checksum_rd32:
  "16 \<le> length dat \<Longrightarrow> k + 4 \<le> 12 \<or> 16 \<le> k \<Longrightarrow> rd32 (nmbm_update_checksum crc dat) k = rd32 dat k"
  by (auto simp: nmbm_update_checksum_def Let_def rd32_memcpy)

lemma generated_cache:
  assumes lay: "nmbm_layout ni" and gen: "nmbm_generate_info_table_cache crc ni = (ch, ni')"
  defines "c \<equiv> info_table_cache ni'"
  shows "\<exists>c3. c = nmbm_update_checksum crc c3 \<and> length c3 = unat (info_table_size ni) \<and>
    take (4 * length (block_state ni)) (drop (unat (state_table_off (info_table ni))) c3) = le32s (block_state ni) \<and>
    take (4 * length (block_mapping ni)) (drop (unat (mapping_table_off (info_table ni))) c3) = le32s (block_mapping ni) \<and>
    take 32 c3 = it_bytes (info_table ni') \<and>
    info_table ni' = (info_table ni)\<lparr>it_header := (it_header (info_table ni))\<lparr>h_magic := NMBM_MAGIC_INFO_TABLE,
        h_version := NMBM_VER, h_size := info_table_size ni\<rparr>,
      write_count := (if ch then write_count (info_table ni) + 1 else write_count (info_table ni))\<rparr>"
proof -
  let ?so = "unat (state_table_off (info_table ni))" and ?mo = "unat (mapping_table_off (info_table ni))"
  let ?S = "le32s (block_state ni)" and ?M = "le32s (block_mapping ni)" and ?n = "unat (info_table_size ni)"
  define c0 :: bytes where "c0 = replicate ?n 0xff"
  define c1 where "c1 = memcpy_at c0 ?so ?S"
  define c2 where "c2 = memcpy_at c1 ?mo ?M"
  define c3 where "c3 = memcpy_at c2 0 (it_bytes (info_table ni'))"
  have l: "32 \<le> ?so" "?so + 4 * length (block_state ni) \<le> ?mo" "?mo + 4 * length (block_mapping ni) \<le> ?n"
      "unat (state_table_size ni) = 4 * length (block_state ni)" "unat (mapping_table_size ni) = 4 * length (block_mapping ni)"
    using lay by (simp_all add: nmbm_layout_def)
  have len: "length c0 = ?n" "length c1 = ?n" "length c2 = ?n" "length c3 = ?n"
    using l by (simp_all add: c0_def c1_def c2_def c3_def)
  have it: "info_table ni' = (info_table ni)\<lparr>it_header := (it_header (info_table ni))\<lparr>h_magic := NMBM_MAGIC_INFO_TABLE,
        h_version := NMBM_VER, h_size := info_table_size ni\<rparr>,
      write_count := (if ch then write_count (info_table ni) + 1 else write_count (info_table ni))\<rparr>"
    using gen by (auto simp: nmbm_generate_info_table_cache_def Let_def)
  have "c = nmbm_update_checksum crc c3"
    using gen l(4,5) unfolding c_def c3_def c2_def c1_def c0_def
    by (auto simp: nmbm_generate_info_table_cache_def Let_def)
  moreover have "take (length ?S) (drop ?so c1) = ?S"
    unfolding c1_def using l len by (intro take_drop_memcpy_inside) simp
  then have "take (length ?S) (drop ?so c3) = ?S"
    unfolding c3_def c2_def using l len by (simp add: take_drop_memcpy_other)
  moreover have "take (length ?M) (drop ?mo c2) = ?M"
    unfolding c2_def using l len by (intro take_drop_memcpy_inside) simp
  then have "take (length ?M) (drop ?mo c3) = ?M"
    unfolding c3_def using l len by (simp add: take_drop_memcpy_other)
  moreover have "take 32 c3 = it_bytes (info_table ni')"
    by (simp add: c3_def memcpy_at_def)
  ultimately show ?thesis
    using it len by auto
qed

lemma generated_cache_reads_back:
  assumes crc: "crc_streams crc" and lay: "nmbm_layout ni"
    and gen: "nmbm_generate_info_table_cache crc ni = (ch, ni')"
  shows "nmbm_check_header crc (info_table_cache ni') (info_table_size ni) \<and>
    nmbm_check_info_table_header ni (info_table_cache ni') \<and>
    write_count (it_read (info_table_cache ni')) = write_count (info_table ni) + (if ch then 1 else 0) \<and>
    rd32s (unat (state_table_size ni) div 4) (info_table_cache ni')
      (unat (state_table_off (it_read (info_table_cache ni')))) = block_state ni \<and>
    rd32s (unat (mapping_table_size ni) div 4) (info_table_cache ni')
      (unat (mapping_table_off (it_read (info_table_cache ni')))) = block_mapping ni"
proof -
  obtain c3 where c: "info_table_cache ni' = nmbm_update_checksum crc c3" and len: "length c3 = unat (info_table_size ni)"
    and st: "take (4 * length (block_state ni)) (drop (unat (state_table_off (info_table ni))) c3) = le32s (block_state ni)"
    and mp: "take (4 * length (block_mapping ni)) (drop (unat (mapping_table_off (info_table ni))) c3) = le32s (block_mapping ni)"
    and hd: "take 32 c3 = it_bytes (info_table ni')"
    and it: "info_table ni' = (info_table ni)\<lparr>it_header := (it_header (info_table ni))\<lparr>h_magic := NMBM_MAGIC_INFO_TABLE,
        h_version := NMBM_VER, h_size := info_table_size ni\<rparr>,
      write_count := (if ch then write_count (info_table ni) + 1 else write_count (info_table ni))\<rparr>"
    using generated_cache [OF lay gen] by blast
  let ?c = "info_table_cache ni'"
  have l: "32 \<le> unat (state_table_off (info_table ni))"
      "unat (state_table_off (info_table ni)) + 4 * length (block_state ni) \<le> unat (mapping_table_off (info_table ni))"
      "unat (mapping_table_off (info_table ni)) + 4 * length (block_mapping ni) \<le> unat (info_table_size ni)"
      "unat (state_table_size ni) = 4 * length (block_state ni)" "unat (mapping_table_size ni) = 4 * length (block_mapping ni)"
    using lay by (simp_all add: nmbm_layout_def)
  have len32: "32 \<le> length c3" using l len by simp
  have rd: "rd32 c3 k = rd32 (it_bytes (info_table ni')) k" if "k + 4 \<le> 32" for k
    using rd32_take [OF that, of c3] hd by simp
  have f: "rd32 ?c 0 = NMBM_MAGIC_INFO_TABLE" "rd32 c3 8 = info_table_size ni" "rd32 ?c 8 = info_table_size ni"
      "rd32 ?c 16 = write_count (info_table ni')" "rd32 ?c 20 = state_table_off (info_table ni)"
      "rd32 ?c 24 = mapping_table_off (info_table ni)"
    using len32 by (simp_all add: c update_checksum_rd32 rd it_bytes_fields) (simp_all add: it)
  have ir: "write_count (it_read ?c) = write_count (info_table ni')" "state_table_off (it_read ?c) = state_table_off (info_table ni)"
      "mapping_table_off (it_read ?c) = mapping_table_off (info_table ni)" "h_magic (it_header (it_read ?c)) = NMBM_MAGIC_INFO_TABLE"
      "h_size (it_header (it_read ?c)) = info_table_size ni"
    by (simp_all add: it_read_def hdr_read_def f)
  have "nmbm_check_header crc ?c (info_table_size ni)"
    unfolding c using f(2) len len32 by (intro sealed_header_checks [OF crc]) simp_all
  moreover have "nmbm_check_info_table_header ni ?c"
  proof -
    have "\<not> mapping_table_off (info_table ni) - state_table_off (info_table ni) < state_table_size ni"
      "\<not> info_table_size ni - mapping_table_off (info_table ni) < mapping_table_size ni"
      using l by (simp_all add: word_less_unat unat_sub word_le_unat)
    then show ?thesis by (simp add: nmbm_check_info_table_header_def Let_def ir)
  qed
  moreover have "rd32s (length (block_state ni)) ?c (unat (state_table_off (info_table ni))) = block_state ni"
    unfolding c using l len len32 st
    by (intro rd32s_of_take) (simp_all add: update_checksum_other)
  moreover have "rd32s (length (block_mapping ni)) ?c (unat (mapping_table_off (info_table ni))) = block_mapping ni"
    unfolding c using l len len32 mp
    by (intro rd32s_of_take) (simp_all add: update_checksum_other)
  ultimately show ?thesis
    by (simp add: ir l(4,5) it)
qed

text \<open>
  C31. Round trip of the info table: the image \<open>nmbm_generate_info_table_cache\<close> builds passes
  the two checks a load makes, and what the load then takes out of it are the block states,
  the block mapping and the incremented write count of the instance that wrote it.
\<close>

theorem nmbm_info_table_roundtrip:
  assumes crc: "crc_streams crc" and lay: "nmbm_layout ni"
    and gen: "nmbm_generate_info_table_cache crc ni = (ch, ni')"
  shows "nmbm_check_header crc (info_table_cache ni') (info_table_size ni) \<and>
    nmbm_check_info_table_header ni (info_table_cache ni') \<and>
    write_count (it_read (info_table_cache ni')) = write_count (info_table ni) + (if ch then 1 else 0) \<and>
    rd32s (unat (state_table_size ni) div 4) (info_table_cache ni')
      (unat (state_table_off (it_read (info_table_cache ni')))) = block_state ni \<and>
    rd32s (unat (mapping_table_size ni) div 4) (info_table_cache ni')
      (unat (mapping_table_off (it_read (info_table_cache ni')))) = block_mapping ni"
  using assms by (rule generated_cache_reads_back)

theorem nmbm_info_table_roundtrip_witness:
  "crc_streams sum_crc \<and> nmbm_layout page_ni \<and>
   nmbm_check_header sum_crc (info_table_cache (snd (nmbm_generate_info_table_cache sum_crc page_ni))) 96"
proof -
  obtain ch ni' where gen: "nmbm_generate_info_table_cache sum_crc page_ni = (ch, ni')" by fastforce
  have lay: "nmbm_layout page_ni" by code_simp
  have "info_table_size page_ni = 96" by code_simp
  then show ?thesis
    using nmbm_info_table_roundtrip [OF sum_crc_streams lay gen] sum_crc_streams lay gen by simp
qed

section \<open>What an update of the info table stores\<close>

text \<open>The tables a load takes out of an image.\<close>

definition stored_state :: "nmbm_instance \<Rightarrow> bytes \<Rightarrow> u32 list" where
  "stored_state ni c = rd32s (unat (state_table_size ni) div 4) c (unat (state_table_off (it_read c)))"

definition stored_mapping :: "nmbm_instance \<Rightarrow> bytes \<Rightarrow> u32 list" where
  "stored_mapping ni c = rd32s (unat (mapping_table_size ni) div 4) c (unat (mapping_table_off (it_read c)))"

lemma generate_cache_frame:
  assumes "nmbm_generate_info_table_cache crc ni = (ch, ni')"
  shows "ch = tables_changed ni" "main_table_ba ni' = main_table_ba ni" "backup_table_ba ni' = backup_table_ba ni"
    "mapping_blocks_top_ba ni' = mapping_blocks_top_ba ni" "block_mapping ni' = block_mapping ni"
    "state_table_size ni' = state_table_size ni" "mapping_table_size ni' = mapping_table_size ni"
  using assms by (auto simp: nmbm_generate_info_table_cache_def Let_def tables_changed_def)

lemma update_loop_clean: "\<not> tables_changed ni \<Longrightarrow> update_info_table_loop crc b ni d = (True, ni, d)"
  by (subst update_info_table_loop.simps) simp

text \<open>
  C9. What \<open>nmbm_update_info_table\<close> stores when there is one info table and writing it succeeds:
  it runs one round, which writes the image generated before the write and marks the tables
  clean. The stored mapping is the mapping in memory. The stored block states are those in memory
  only if no block went bad while the table was written; a block found bad there is counted as a
  change, the count is cleared, and no further round writes it, against the comment at the head of
  the function (\<open>will try to update info table repeatedly until no new bad block found\<close>).
\<close>

theorem nmbm_update_stored_table:
  assumes crc: "crc_streams crc" and lay: "nmbm_layout ni"
    and st: "protected ni = 0" "tables_changed ni" "backup_table_ba ni = 0" "main_table_ba ni \<noteq> 0"
    and wr: "nmbm_write_info_table b (snd (nmbm_generate_info_table_cache crc ni)) d (main_table_ba ni)
        (mapping_blocks_top_ba ni) = (Some (s, e), ni2, d')"
  shows "\<exists>ni'. nmbm_update_info_table crc b ni d = (True, ni', d') \<and> main_table_ba ni' = s \<and>
    \<not> tables_changed ni' \<and> block_state ni' = block_state ni2 \<and>
    info_table_cache ni' = info_table_cache (snd (nmbm_generate_info_table_cache crc ni)) \<and>
    stored_mapping ni' (info_table_cache ni') = block_mapping ni' \<and>
    (stored_state ni' (info_table_cache ni') = block_state ni' \<longleftrightarrow> block_state ni2 = block_state ni)"
proof -
  obtain ch ni1 where g: "nmbm_generate_info_table_cache crc ni = (ch, ni1)" by fastforce
  note f1 = generate_cache_frame [OF g]
  note rb = generated_cache_reads_back [OF crc lay g]
  have w: "nmbm_write_info_table b ni1 d (main_table_ba ni) (mapping_blocks_top_ba ni) = (Some (s, e), ni2, d')"
    using wr by (simp add: g)
  note f2 = wears_frame [OF write_info_table_wears [OF w]]
  define ni' where "ni' = nmbm_mark_tables_clean (ni2\<lparr>main_table_ba := s, mapping_blocks_ba := e\<rparr>)"
  have once: "nmbm_update_info_table_once crc b ni d False = (True, ni', d')"
    using st w by (simp add: nmbm_update_info_table_once_def update_write_main_def g f1 f2 ni'_def)
  have clean: "\<not> tables_changed ni'"
    by (simp add: ni'_def tables_changed_def nmbm_mark_tables_clean_def)
  have "nmbm_update_info_table crc b ni d = (True, ni', d')"
    unfolding nmbm_update_info_table_def using st(1,2) once update_loop_clean [OF clean]
    by (subst update_info_table_loop.simps) simp
  moreover have f': "main_table_ba ni' = s" "block_state ni' = block_state ni2" "info_table_cache ni' = info_table_cache ni1"
      "block_mapping ni' = block_mapping ni" "state_table_size ni' = state_table_size ni" "mapping_table_size ni' = mapping_table_size ni"
    by (simp_all add: ni'_def nmbm_mark_tables_clean_def f1 f2)
  moreover have "stored_mapping ni' (info_table_cache ni') = block_mapping ni'"
    using rb by (simp add: stored_mapping_def f')
  moreover have "stored_state ni' (info_table_cache ni') = block_state ni"
    using rb by (simp add: stored_state_def f')
  ultimately show ?thesis using clean by (intro exI [of _ ni']) (auto simp: g)
qed

text \<open>The chip of \<open>page_desc\<close> with block 2 worn out: its pages cannot be programmed.\<close>

definition worn_write :: "(u64 \<times> bytes) list \<Rightarrow> u64 \<Rightarrow> mtd_oob_ops \<Rightarrow> int \<times> mtd_oob_ops \<times> (u64 \<times> bytes) list" where
  "worn_write d addr ops = (if 256 \<le> addr \<and> addr < 384 then (- EIO, ops, d) else page_write d addr ops)"

theorem nmbm_update_stored_table_witness:
  "\<exists>ni' d'. nmbm_update_info_table sum_crc (page_desc\<lparr>lo_write_oob := worn_write\<rparr>) (page_ni\<lparr>backup_table_ba := 0\<rparr>) [] = (True, ni', d') \<and>
     \<not> tables_changed ni' \<and> stored_state ni' (info_table_cache ni') \<noteq> block_state ni'"
proof -
  let ?b = "page_desc\<lparr>lo_write_oob := worn_write\<rparr>" and ?ni = "page_ni\<lparr>backup_table_ba := 0\<rparr>"
  let ?w = "nmbm_write_info_table ?b (snd (nmbm_generate_info_table_cache sum_crc ?ni)) [] (main_table_ba ?ni) (mapping_blocks_top_ba ?ni)"
  have "fst ?w = Some (3, 4) \<and> block_state (fst (snd ?w)) = [0xffffffcf]" by code_simp
  then obtain ni2 d' where wr: "?w = (Some (3, 4), ni2, d')" "block_state ni2 = [0xffffffcf]"
    by (cases ?w) auto
  have lay: "nmbm_layout ?ni" by code_simp
  have "protected ?ni = 0 \<and> tables_changed ?ni \<and> backup_table_ba ?ni = 0 \<and> main_table_ba ?ni \<noteq> 0 \<and>
      block_state ?ni = [0xffffffff]" by code_simp
  then show ?thesis
    using nmbm_update_stored_table [OF sum_crc_streams lay _ _ _ _ wr(1)] wr(2) by auto
qed

section \<open>Sizes\<close>

lemma and_not_mask: "(y :: u32) AND NOT (mask k) = push_bit k (drop_bit k y)"
  by (rule bit_word_eqI) (auto simp: bit_simps)

lemma unat_and_not_mask: "unat ((y :: u32) AND NOT (mask k)) = unat y - unat y mod 2 ^ k"
proof -
  have "push_bit k (drop_bit k y) + take_bit k y = y" by (rule bits_ident)
  then have y: "push_bit k (drop_bit k y) = y - take_bit k y" by (simp add: algebra_simps)
  have t: "unat (take_bit k y) = unat y mod 2 ^ k" by (subst unsigned_take_bit_eq) (simp add: take_bit_eq_mod)
  then have "take_bit k y \<le> y" by (simp add: word_le_unat)
  then show ?thesis unfolding and_not_mask y by (simp add: unat_sub t)
qed

lemma unat_mask_nat: "unat (mask k :: u32) = mask (min 32 k)"
proof -
  have "unat (take_bit k (- 1) :: u32) = take_bit k (unat (- 1 :: u32))" by (rule unsigned_take_bit_eq)
  moreover have "unat (- 1 :: u32) = mask 32" by (subst unsigned_minus_1_eq_mask) simp
  ultimately show ?thesis by (simp add: take_bit_minus_one_eq_mask take_bit_of_mask min.commute)
qed

lemma align_pg_bounds:
  assumes "pg_size b = 2 ^ k" "k < 32" "unat x + 2 ^ k \<le> 2 ^ 32"
  shows "unat x \<le> unat (align_pg b x)" "unat (align_pg b x) < unat x + 2 ^ k"
proof -
  have m: "pg_size b - 1 = mask k" by (simp add: assms(1) mask_eq_exp_minus_1)
  have um: "unat (mask k :: u32) = 2 ^ k - 1" using assms(2) by (subst unat_mask_nat) (simp add: min_def mask_eq_exp_minus_1)
  have "0 < (2 :: nat) ^ k" by simp
  then have s: "unat (x + mask k) = unat x + (2 ^ k - 1)"
    using assms(3) by (simp add: unat_word_ariths um)
  let ?y = "unat x + (2 ^ k - 1)"
  have a: "unat (align_pg b x) = ?y - ?y mod 2 ^ k"
    unfolding align_pg_def m unat_and_not_mask s ..
  have "?y mod 2 ^ k < 2 ^ k" "?y mod 2 ^ k \<le> ?y" by simp_all
  then show "unat x \<le> unat (align_pg b x)" "unat (align_pg b x) < unat x + 2 ^ k"
    unfolding a using \<open>0 < (2 :: nat) ^ k\<close> by linarith+
qed

lemma nmbm_state_size_unat:
  assumes "unat cnt < 2 ^ 16"
  shows "unat (nmbm_state_size cnt) = (unat cnt + 15) div 16 * 4"
proof -
  have c: "unat (cnt + 15) = unat cnt + 15" using assms by (simp add: unat_word_ariths)
  have "(unat cnt + 15) div 16 * 4 < 2 ^ 32" using assms by simp
  moreover have e: "cnt + 16 - 1 = cnt + 15" by simp
  ultimately show ?thesis
    unfolding nmbm_state_size_def e by (subst unat_mult_lem [THEN iffD1]) (simp_all only: unat_div c, simp_all)
qed

text \<open>
  C32. The tables of a new instance: for every page size that is a power of two up to 1 MiB the
  header, the state table and the mapping table lie behind each other in the info table, the
  state table has two bits for every block and the mapping table one word, and the three
  buffers together take exactly what \<open>nmbm_calc_structure_size\<close> adds to the instance itself.
\<close>

theorem nmbm_init_structure_layout:
  assumes pg: "pg_size b = 2 ^ k" "k \<le> 20"
    and ni'_def: "ni' = nmbm_init_structure b ni"
  shows "nmbm_layout ni' \<and> unat (total_blks b) \<le> 16 * length (block_state ni') \<and>
    length (block_mapping ni') = unat (total_blks b) \<and>
    unat (nmbm_calc_structure_size b sz - sz) =
      length (info_table_cache ni') + 4 * length (block_state ni') + 4 * length (block_mapping ni')"
proof -
  define cnt where "cnt = (ucast (total_blks b) :: u32)"
  define st where "st = nmbm_state_size cnt"
  define mp where "mp = cnt * 4"
  define A where "A = align_pg b 32"
  define B where "B = align_pg b st"
  define C where "C = align_pg b mp"
  have c: "unat cnt = unat (total_blks b)" "unat cnt < 2 ^ 16"
    using unat_less_2p [of "total_blks b"] by (simp_all add: cnt_def)
  have us: "unat st = (unat cnt + 15) div 16 * 4" using c(2) unfolding st_def by (rule nmbm_state_size_unat)
  have um: "unat mp = 4 * unat cnt" using c(2) by (simp add: mp_def unat_word_ariths)
  have small: "unat st < 2 ^ 16" "unat mp < 2 ^ 18" using us um c(2) by simp_all
  have p: "(2 :: nat) ^ k \<le> 2 ^ 20" using pg(2) by (rule power_increasing) simp
  have k: "k < 32" using pg(2) by simp
  have a: "32 \<le> unat A" "unat A < 32 + 2 ^ 20" "unat st \<le> unat B" "unat B < 2 ^ 16 + 2 ^ 20"
      "unat mp \<le> unat C" "unat C < 2 ^ 18 + 2 ^ 20"
    using align_pg_bounds [OF pg(1) k, of 32] align_pg_bounds [OF pg(1) k, of st] align_pg_bounds [OF pg(1) k, of mp] small p
    unfolding A_def B_def C_def by simp_all
  have sum: "unat (A + B) = unat A + unat B" "unat (A + B + C) = unat A + unat B + unat C"
      "unat (A + B + C + st + mp) = unat A + unat B + unat C + unat st + unat mp"
    using a small by (simp_all add: unat_word_ariths)
  have f: "state_table_off (info_table ni') = A" "mapping_table_off (info_table ni') = A + B"
      "info_table_size ni' = A + B + C" "state_table_size ni' = st" "mapping_table_size ni' = mp"
      "length (block_state ni') = unat st div 4" "length (block_mapping ni') = unat mp div 4"
      "length (info_table_cache ni') = unat (A + B + C)"
    by (simp_all add: ni'_def nmbm_init_structure_def Let_def A_def B_def C_def st_def mp_def cnt_def)
  have "nmbm_calc_structure_size b sz - sz = ucast (A + B + C + st + mp)"
    by (simp add: nmbm_calc_structure_size_def Let_def A_def B_def C_def st_def mp_def cnt_def)
  then have "unat (nmbm_calc_structure_size b sz - sz) = unat (A + B + C + st + mp)"
    by simp
  moreover have "nmbm_layout ni'"
    unfolding nmbm_layout_def f sum using a us um by simp
  moreover have "unat (total_blks b) \<le> 16 * (unat st div 4)"
    unfolding c(1) [symmetric] us by simp
  ultimately show ?thesis
    unfolding f sum using us um c(1) by simp
qed

theorem nmbm_init_structure_layout_witness:
  "nmbm_layout (nmbm_init_structure sim_desc zero_ni) \<and>
   length (block_mapping (nmbm_init_structure sim_desc zero_ni)) = 8"
proof -
  have "pg_size sim_desc = 2 ^ 2" by (simp add: sim_desc_def)
  from nmbm_init_structure_layout [OF this _ refl, of zero_ni 0] show ?thesis by simp
qed

end
