(* ===== verification/Nvram.thy ===== *)
theory Nvram
  imports Flash_Prelude
begin

text \<open>
  libnvram (\<open>package/utils/nvram\<close>): the variable store of Broadcom boards. A handle holds
  the mapped flash partition and a hash table of name/value tuples; \<open>nvram_commit\<close> writes
  the tuples back behind a header with a CRC8 and \<open>nvram_open\<close> reads them.

  C strings are byte lists without NUL. \<open>mem\<close> is the allocator: \<open>mem name\<close> tells whether an
  allocation made while setting \<open>name\<close> succeeds. A chain of tuples is a list, a bucket is
  one chain; plain \<open>char\<close> is unsigned, as on the ARM targets (only the hash value of names
  with bytes above 127 depends on it, and no theorem does).
\<close>

section \<open>crc.c\<close>

definition crc8_table :: "u8 list" where
  "crc8_table =
    [0x00, 0xf7, 0xb9, 0x4e, 0x25, 0xd2, 0x9c, 0x6b, 0x4a, 0xbd, 0xf3, 0x04,
     0x6f, 0x98, 0xd6, 0x21, 0x94, 0x63, 0x2d, 0xda, 0xb1, 0x46, 0x08, 0xff,
     0xde, 0x29, 0x67, 0x90, 0xfb, 0x0c, 0x42, 0xb5, 0x7f, 0x88, 0xc6, 0x31,
     0x5a, 0xad, 0xe3, 0x14, 0x35, 0xc2, 0x8c, 0x7b, 0x10, 0xe7, 0xa9, 0x5e,
     0xeb, 0x1c, 0x52, 0xa5, 0xce, 0x39, 0x77, 0x80, 0xa1, 0x56, 0x18, 0xef,
     0x84, 0x73, 0x3d, 0xca, 0xfe, 0x09, 0x47, 0xb0, 0xdb, 0x2c, 0x62, 0x95,
     0xb4, 0x43, 0x0d, 0xfa, 0x91, 0x66, 0x28, 0xdf, 0x6a, 0x9d, 0xd3, 0x24,
     0x4f, 0xb8, 0xf6, 0x01, 0x20, 0xd7, 0x99, 0x6e, 0x05, 0xf2, 0xbc, 0x4b,
     0x81, 0x76, 0x38, 0xcf, 0xa4, 0x53, 0x1d, 0xea, 0xcb, 0x3c, 0x72, 0x85,
     0xee, 0x19, 0x57, 0xa0, 0x15, 0xe2, 0xac, 0x5b, 0x30, 0xc7, 0x89, 0x7e,
     0x5f, 0xa8, 0xe6, 0x11, 0x7a, 0x8d, 0xc3, 0x34, 0xab, 0x5c, 0x12, 0xe5,
     0x8e, 0x79, 0x37, 0xc0, 0xe1, 0x16, 0x58, 0xaf, 0xc4, 0x33, 0x7d, 0x8a,
     0x3f, 0xc8, 0x86, 0x71, 0x1a, 0xed, 0xa3, 0x54, 0x75, 0x82, 0xcc, 0x3b,
     0x50, 0xa7, 0xe9, 0x1e, 0xd4, 0x23, 0x6d, 0x9a, 0xf1, 0x06, 0x48, 0xbf,
     0x9e, 0x69, 0x27, 0xd0, 0xbb, 0x4c, 0x02, 0xf5, 0x40, 0xb7, 0xf9, 0x0e,
     0x65, 0x92, 0xdc, 0x2b, 0x0a, 0xfd, 0xb3, 0x44, 0x2f, 0xd8, 0x96, 0x61,
     0x55, 0xa2, 0xec, 0x1b, 0x70, 0x87, 0xc9, 0x3e, 0x1f, 0xe8, 0xa6, 0x51,
     0x3a, 0xcd, 0x83, 0x74, 0xc1, 0x36, 0x78, 0x8f, 0xe4, 0x13, 0x5d, 0xaa,
     0x8b, 0x7c, 0x32, 0xc5, 0xae, 0x59, 0x17, 0xe0, 0x2a, 0xdd, 0x93, 0x64,
     0x0f, 0xf8, 0xb6, 0x41, 0x60, 0x97, 0xd9, 0x2e, 0x45, 0xb2, 0xfc, 0x0b,
     0xbe, 0x49, 0x07, 0xf0, 0x9b, 0x6c, 0x22, 0xd5, 0xf4, 0x03, 0x4d, 0xba,
     0xd1, 0x26, 0x68, 0x9f]"

definition hndcrc8 :: "bytes \<Rightarrow> u32 \<Rightarrow> u8 \<Rightarrow> u8" where
  "hndcrc8 pdata nbytes crc =
     fold (\<lambda>p c. crc8_table ! unat ((c XOR p) AND 0xff)) (take (unat nbytes) pdata) crc"

section \<open>The handle\<close>

record nvram_tuple =
  nt_name :: bytes
  nt_value :: "bytes option"

record nvram_handle =
  nv_mmap :: bytes
  nv_length :: u32
  nv_offset :: u32
  nvram_hash :: "nvram_tuple list list"
  nvram_dead :: "nvram_tuple list"

record nvram_header =
  nh_magic :: u32
  nh_len :: u32
  nh_crc_ver_init :: u32
  nh_config_refresh :: u32
  nh_config_ncdl :: u32

abbreviation (input) NVRAM_MAGIC :: u32 where "NVRAM_MAGIC \<equiv> 0x48534C46"
abbreviation (input) NVRAM_MIN_SPACE :: u32 where "NVRAM_MIN_SPACE \<equiv> 0x8000"
abbreviation (input) SDRAM_INIT :: u32 where "SDRAM_INIT \<equiv> 0x419"
abbreviation (input) SDRAM_CONFIG :: u32 where "SDRAM_CONFIG \<equiv> 0x0"
abbreviation (input) SDRAM_REFRESH :: u32 where "SDRAM_REFRESH \<equiv> 0x8040"

definition hash :: "bytes \<Rightarrow> u32" where
  "hash s = fold (\<lambda>c h. 31 * h + ucast c) s 0"

definition bucket :: "bytes \<Rightarrow> nat" where
  "bucket name = unat (hash name mod 257)"

definition bucket_of :: "nvram_handle \<Rightarrow> nat \<Rightarrow> nvram_tuple list" where
  "bucket_of h i = (if i < length (nvram_hash h) then nvram_hash h ! i else [])"

definition nvram_free :: "nvram_handle \<Rightarrow> nvram_handle" where
  "nvram_free h = h\<lparr>nvram_hash := replicate (length (nvram_hash h)) [], nvram_dead := []\<rparr>"

text \<open>
  \<open>_nvram_realloc\<close>: \<open>None\<close> where it returns NULL, with the tuple as it leaves it. When the
  value of an existing tuple cannot be reallocated, the tuple keeps no value.
\<close>

definition nvram_realloc ::
    "(bytes \<Rightarrow> bool) \<Rightarrow> nvram_handle \<Rightarrow> nvram_tuple option \<Rightarrow> bytes \<Rightarrow> bytes
       \<Rightarrow> nvram_tuple option \<times> nvram_tuple option" where
  "nvram_realloc mem h t name value =
     (if length value + 1 > unat (nv_length h - nv_offset h) then (None, t)
      else case t of
             None \<Rightarrow>
               if mem name then (let u = \<lparr>nt_name = name, nt_value = Some value\<rparr> in (Some u, Some u)) else (None, None)
           | Some u \<Rightarrow>
               if nt_value u = Some value then (Some u, Some u)
               else if mem name then (let v = u\<lparr>nt_value := Some value\<rparr> in (Some v, Some v))
               else (None, Some (u\<lparr>nt_value := None\<rparr>)))"

section \<open>Lookup and update\<close>

definition find_tuple :: "bytes \<Rightarrow> nvram_tuple list \<Rightarrow> nvram_tuple option" where
  "find_tuple name ts = find (\<lambda>t. nt_name t = name) ts"

fun replace_tuple :: "bytes \<Rightarrow> nvram_tuple \<Rightarrow> nvram_tuple list \<Rightarrow> nvram_tuple list" where
  "replace_tuple name u [] = []"
| "replace_tuple name u (t # ts) = (if nt_name t = name then u # ts else t # replace_tuple name u ts)"

fun remove_tuple :: "bytes \<Rightarrow> nvram_tuple list \<Rightarrow> nvram_tuple list" where
  "remove_tuple name [] = []"
| "remove_tuple name (t # ts) = (if nt_name t = name then ts else t # remove_tuple name ts)"

definition nvram_get :: "nvram_handle \<Rightarrow> bytes \<Rightarrow> bytes option" where
  "nvram_get h name =
     (case find_tuple name (bucket_of h (bucket name)) of None \<Rightarrow> None | Some t \<Rightarrow> nt_value t)"

definition nvram_set :: "(bytes \<Rightarrow> bool) \<Rightarrow> nvram_handle \<Rightarrow> bytes \<Rightarrow> bytes \<Rightarrow> int \<times> nvram_handle" where
  "nvram_set mem h name value =
     (let i = bucket name; ts = bucket_of h i;
          t = find_tuple name ts;
          (u, t') = nvram_realloc mem h t name value;
          put = (\<lambda>ts'. h\<lparr>nvram_hash := (nvram_hash h)[i := ts']\<rparr>)
      in case (u, t, t') of
           (None, Some _, Some w) \<Rightarrow> (- 12, put (replace_tuple name w ts))
         | (None, _, _) \<Rightarrow> (- 12, h)
         | (Some v, Some _, _) \<Rightarrow> (0, put (replace_tuple name v ts))
         | (Some v, None, _) \<Rightarrow> (0, put (v # ts)))"

definition nvram_unset :: "nvram_handle \<Rightarrow> bytes \<Rightarrow> nvram_handle" where
  "nvram_unset h name =
     (let i = bucket name; ts = bucket_of h i
      in case find_tuple name ts of
           None \<Rightarrow> h
         | Some t \<Rightarrow> h\<lparr>nvram_hash := (nvram_hash h)[i := remove_tuple name ts], nvram_dead := t # nvram_dead h\<rparr>)"

text \<open>\<open>nvram_getall\<close> with an allocator that does not fail: it builds the list back to front.\<close>

definition nvram_getall :: "nvram_handle \<Rightarrow> nvram_tuple list" where
  "nvram_getall h = rev (concat (nvram_hash h))"

section \<open>Numbers in strings\<close>

definition hex_digit :: "nat \<Rightarrow> u8" where
  "hex_digit n = (if n < 10 then of_nat (48 + n) else of_nat (55 + n))"

text \<open>\<open>sprintf(buf, "0x%0<w>X", v)\<close> for a value of at most \<open>w\<close> hexadecimal digits.\<close>

definition sprintf_hex :: "nat \<Rightarrow> nat \<Rightarrow> bytes" where
  "sprintf_hex w v = [48, 120] @ map (\<lambda>i. hex_digit (v div 16 ^ i mod 16)) (rev [0..<w])"

definition digit_val :: "u8 \<Rightarrow> nat option" where
  "digit_val c =
     (let n = unat c
      in if 48 \<le> n \<and> n \<le> 57 then Some (n - 48)
         else if 65 \<le> n \<and> n \<le> 90 then Some (n - 55)
         else if 97 \<le> n \<and> n \<le> 122 then Some (n - 87) else None)"

fun digits_val :: "nat \<Rightarrow> nat \<Rightarrow> bytes \<Rightarrow> nat" where
  "digits_val base acc [] = acc"
| "digits_val base acc (c # cs) =
     (case digit_val c of
        Some k \<Rightarrow> if k < base then digits_val base (acc * base + k) cs else acc
      | None \<Rightarrow> acc)"

definition is_space :: "u8 \<Rightarrow> bool" where
  "is_space c \<longleftrightarrow> c = 32 \<or> 9 \<le> c \<and> c \<le> 13"

text \<open>\<open>strtoul(s, NULL, 0)\<close> with a 32-bit \<open>unsigned long\<close>: saturates, negates after a minus sign.\<close>

definition strtoul0 :: "bytes \<Rightarrow> u32" where
  "strtoul0 s =
     (let s1 = dropWhile is_space s;
          neg = (s1 \<noteq> [] \<and> hd s1 = 45);
          s2 = (if s1 \<noteq> [] \<and> (hd s1 = 45 \<or> hd s1 = 43) then tl s1 else s1);
          ishex = (length s2 \<ge> 3 \<and> s2 ! 0 = 48 \<and> (s2 ! 1 = 120 \<or> s2 ! 1 = 88) \<and>
                   (case digit_val (s2 ! 2) of Some k \<Rightarrow> k < 16 | None \<Rightarrow> False));
          n = (if ishex then digits_val 16 0 (drop 2 s2)
               else if s2 \<noteq> [] \<and> hd s2 = 48 then digits_val 8 0 s2
               else digits_val 10 0 s2)
      in if n \<ge> 2 ^ 32 then - 1 else if neg then - of_nat n else of_nat n)"

section \<open>The flash image\<close>

definition nvram_header_at :: "nvram_handle \<Rightarrow> nvram_header" where
  "nvram_header_at h =
     (let o' = unat (nv_offset h); m = nv_mmap h
      in \<lparr>nh_magic = rd32 m o', nh_len = rd32 m (o' + 4), nh_crc_ver_init = rd32 m (o' + 8),
          nh_config_refresh = rd32 m (o' + 12), nh_config_ncdl = rd32 m (o' + 16)\<rparr>)"

definition nv_header_bytes :: "nvram_header \<Rightarrow> bytes" where
  "nv_header_bytes nh = le32 (nh_magic nh) @ le32 (nh_len nh) @ le32 (nh_crc_ver_init nh) @
     le32 (nh_config_refresh nh) @ le32 (nh_config_ncdl nh)"

definition cstr :: "bytes \<Rightarrow> bytes" where
  "cstr bs = takeWhile (\<lambda>c. c \<noteq> 0) bs"

text \<open>The parsing loop of \<open>_nvram_rehash\<close>: \<open>name=value\<close> strings up to an empty one.\<close>

function parse_vars :: "bytes \<Rightarrow> (bytes \<times> bytes) list" where
  "parse_vars bs =
     (let s = cstr bs; name = takeWhile (\<lambda>c. c \<noteq> 61) s
      in if s = [] \<or> 61 \<notin> set s then []
         else (name, drop (length name + 1) s) # parse_vars (drop (length s + 1) bs))"
  by pat_completeness auto
termination
proof (relation "measure length", goal_cases)
  case (2 bs s name)
  then have "bs \<noteq> []" by (auto simp: cstr_def)
  then show ?case by simp
qed simp

declare parse_vars.simps [simp del]

definition sdram_init_name :: bytes where
  "sdram_init_name = [115, 100, 114, 97, 109, 95, 105, 110, 105, 116]"

definition sdram_config_name :: bytes where
  "sdram_config_name = [115, 100, 114, 97, 109, 95, 99, 111, 110, 102, 105, 103]"

definition sdram_refresh_name :: bytes where
  "sdram_refresh_name = [115, 100, 114, 97, 109, 95, 114, 101, 102, 114, 101, 115, 104]"

definition sdram_ncdl_name :: bytes where
  "sdram_ncdl_name = [115, 100, 114, 97, 109, 95, 110, 99, 100, 108]"

definition set_default :: "(bytes \<Rightarrow> bool) \<Rightarrow> bytes \<Rightarrow> bytes \<Rightarrow> nvram_handle \<Rightarrow> nvram_handle" where
  "set_default mem name value h = (if nvram_get h name = None then snd (nvram_set mem h name value) else h)"

definition nvram_rehash :: "(bytes \<Rightarrow> bool) \<Rightarrow> nvram_handle \<Rightarrow> nvram_handle" where
  "nvram_rehash mem h0 =
     (let nh = nvram_header_at h0;
          h1 = fold (\<lambda>(n, v) h. snd (nvram_set mem h n v))
                 (parse_vars (drop (unat (nv_offset h0) + 20) (nv_mmap h0))) (nvram_free h0);
          h2 = set_default mem sdram_init_name (sprintf_hex 4 (unat (drop_bit 16 (nh_crc_ver_init nh)))) h1;
          h3 = set_default mem sdram_config_name (sprintf_hex 4 (unat (nh_config_refresh nh AND 0xffff))) h2;
          h4 = set_default mem sdram_refresh_name (sprintf_hex 4 (unat (drop_bit 16 (nh_config_refresh nh)))) h3
      in set_default mem sdram_ncdl_name (sprintf_hex 8 (unat (nh_config_ncdl nh))) h4)"

text \<open>
  \<open>nvram_commit\<close>. \<open>room\<close> is the space between the data area and \<open>end\<close>; a tuple that does
  not fit ends its bucket, and the next bucket is tried.
\<close>

definition entry_bytes :: "nvram_tuple \<Rightarrow> bytes" where
  "entry_bytes t = nt_name t @ 61 # (case nt_value t of Some v \<Rightarrow> v | None \<Rightarrow> []) @ [0]"

fun emit_bucket :: "nat \<Rightarrow> bytes \<Rightarrow> nvram_tuple list \<Rightarrow> bytes" where
  "emit_bucket room out [] = out"
| "emit_bucket room out (t # ts) =
     (if length out + length (entry_bytes t) > room then out
      else emit_bucket room (out @ entry_bytes t) ts)"

definition emit_vars :: "nat \<Rightarrow> nvram_tuple list list \<Rightarrow> bytes" where
  "emit_vars room tss = fold (\<lambda>ts out. emit_bucket room out ts) tss []"

definition commit_header :: "nvram_handle \<Rightarrow> nvram_header" where
  "commit_header h =
     (case (nvram_get h sdram_init_name, nvram_get h sdram_config_name,
            nvram_get h sdram_refresh_name, nvram_get h sdram_ncdl_name) of
        (Some init, Some config, Some refresh, Some ncdl) \<Rightarrow>
          \<lparr>nh_magic = NVRAM_MAGIC, nh_len = 0,
           nh_crc_ver_init = push_bit 8 1 OR push_bit 16 (strtoul0 init AND 0xffff),
           nh_config_refresh = (strtoul0 config AND 0xffff) OR push_bit 16 (strtoul0 refresh AND 0xffff),
           nh_config_ncdl = strtoul0 ncdl\<rparr>
      | _ \<Rightarrow>
          \<lparr>nh_magic = NVRAM_MAGIC, nh_len = 0,
           nh_crc_ver_init = push_bit 8 1 OR push_bit 16 SDRAM_INIT,
           nh_config_refresh = SDRAM_CONFIG OR push_bit 16 SDRAM_REFRESH,
           nh_config_ncdl = 0\<rparr>)"

text \<open>
  The padding of the data up to a multiple of 4. The C code takes the remainder of the pointer cast
  to \<open>int\<close>: \<open>commit_pad\<close> is its value where that is not negative, that is for a mapping in the
  lower 2 GiB of each 4 GiB. Elsewhere the remainder may be negative and up to 7 zero bytes follow
  the data.
\<close>

definition commit_pad :: "nat \<Rightarrow> nat" where
  "commit_pad n = (if (n + 1) mod 4 = 0 then 0 else 4 - (n + 1) mod 4)"

definition commit_image :: "nat \<Rightarrow> nvram_handle \<Rightarrow> bytes" where
  "commit_image area h =
     (let out = emit_vars (area - 2) (nvram_hash h); z = out @ replicate (1 + commit_pad (length out)) 0
      in z @ replicate (area - length z) 0xff)"

definition commit_len :: "nat \<Rightarrow> nvram_handle \<Rightarrow> nat" where
  "commit_len area h = (20 + length (emit_vars (area - 2) (nvram_hash h)) + 2 + 3) div 4 * 4"

definition nvram_commit :: "(bytes \<Rightarrow> bool) \<Rightarrow> nvram_handle \<Rightarrow> nvram_handle" where
  "nvram_commit mem h =
     (let off = unat (nv_offset h); area = unat (nv_length h) - off - 20;
          dat = commit_image area h;
          nh = (commit_header h)\<lparr>nh_len := of_nat (commit_len area h)\<rparr>;
          c0 = hndcrc8 (drop 9 (nv_header_bytes (nh\<lparr>nh_magic := 0, nh_len := 0\<rparr>))) 11 0xff;
          c1 = hndcrc8 dat (nh_len nh - 20) c0;
          nh1 = nh\<lparr>nh_crc_ver_init := nh_crc_ver_init nh OR ucast c1\<rparr>
      in nvram_rehash mem (h\<lparr>nv_mmap := take off (nv_mmap h) @ nv_header_bytes nh1 @ dat @
                                        drop (off + 20 + area) (nv_mmap h)\<rparr>))"

section \<open>Opening\<close>

definition nvram_find_magic :: "bytes \<Rightarrow> u32 \<Rightarrow> nat option" where
  "nvram_find_magic m psz =
     map_option (\<lambda>i. 4 * i)
       (find (\<lambda>i. rd32 m (4 * i) = NVRAM_MAGIC) [0..<Suc (unat ((psz - NVRAM_MIN_SPACE) div 4))])"

definition nvram_open :: "(bytes \<Rightarrow> bool) \<Rightarrow> bytes \<Rightarrow> u32 \<Rightarrow> bool \<Rightarrow> nvram_handle option" where
  "nvram_open mem m psz rdonly =
     (case nvram_find_magic m psz of
        None \<Rightarrow> None
      | Some off \<Rightarrow>
          let h = \<lparr>nv_mmap = m, nv_length = psz, nv_offset = of_nat off,
                   nvram_hash = replicate 257 [], nvram_dead = []\<rparr>;
              nh = nvram_header_at h
          in if nh_magic nh = NVRAM_MAGIC \<and> (rdonly \<or> nh_len nh < nv_length h - nv_offset h)
             then Some (nvram_rehash mem h) else None)"

section \<open>cli.c\<close>

definition do_show :: "nvram_handle \<Rightarrow> int \<times> bytes list" where
  "do_show h =
     (case nvram_getall h of
        [] \<Rightarrow> (1, [])
      | ts \<Rightarrow> (0, map (\<lambda>t. nt_name t @ 61 # (case nt_value t of Some v \<Rightarrow> v | None \<Rightarrow> [])) ts))"

definition do_get :: "nvram_handle \<Rightarrow> bytes \<Rightarrow> int \<times> bytes list" where
  "do_get h var = (case nvram_get h var of Some v \<Rightarrow> (0, [v]) | None \<Rightarrow> (1, []))"

definition do_unset :: "nvram_handle \<Rightarrow> bytes \<Rightarrow> int \<times> nvram_handle" where
  "do_unset h var = (0, nvram_unset h var)"

definition do_set :: "(bytes \<Rightarrow> bool) \<Rightarrow> nvram_handle \<Rightarrow> bytes \<Rightarrow> int \<times> nvram_handle" where
  "do_set mem h pair =
     (if 61 \<in> set pair then
        (let var = takeWhile (\<lambda>c. c \<noteq> 61) pair in nvram_set mem h var (drop (length var + 1) pair))
      else (1, h))"

definition do_info_crc :: "nvram_handle \<Rightarrow> u8" where
  "do_info_crc h =
     hndcrc8 (drop (unat (nv_offset h) + 9) (nv_mmap h)) (nh_len (nvram_header_at h) - 9) 0xff"

section \<open>The CRC table\<close>

text \<open>One bit of the reflected CRC with polynomial x^8 + x^7 + x^6 + x^4 + x^2 + 1 (0xab reflected).\<close>

definition crc8_bit :: "u8 \<Rightarrow> u8" where
  "crc8_bit c = (if bit c 0 then drop_bit 1 c XOR 0xab else drop_bit 1 c)"

definition crc8_byte :: "u8 \<Rightarrow> u8" where
  "crc8_byte c = crc8_bit (crc8_bit (crc8_bit (crc8_bit (crc8_bit (crc8_bit (crc8_bit (crc8_bit c)))))))"


lemma crc8_rows:
  "map crc8_byte [0, 1, 2, 3, 4, 5, 6, 7, 8, 9, 10, 11, 12, 13, 14, 15, 16, 17, 18, 19, 20, 21, 22, 23, 24, 25, 26,
    27, 28, 29, 30, 31, 32, 33, 34, 35, 36, 37, 38, 39, 40, 41, 42, 43, 44, 45, 46, 47, 48, 49, 50, 51,
    52, 53, 54, 55, 56, 57, 58, 59, 60, 61, 62, 63, 64, 65, 66, 67, 68, 69, 70, 71, 72, 73, 74, 75, 76,
    77, 78, 79, 80, 81, 82, 83, 84, 85, 86, 87, 88, 89, 90, 91, 92, 93, 94, 95, 96, 97, 98, 99, 100,
    101, 102, 103, 104, 105, 106, 107, 108, 109, 110, 111, 112, 113, 114, 115, 116, 117, 118, 119, 120,
    121, 122, 123, 124, 125, 126, 127, 128, 129, 130, 131, 132, 133, 134, 135, 136, 137, 138, 139, 140,
    141, 142, 143, 144, 145, 146, 147, 148, 149, 150, 151, 152, 153, 154, 155, 156, 157, 158, 159, 160,
    161, 162, 163, 164, 165, 166, 167, 168, 169, 170, 171, 172, 173, 174, 175, 176, 177, 178, 179, 180,
    181, 182, 183, 184, 185, 186, 187, 188, 189, 190, 191, 192, 193, 194, 195, 196, 197, 198, 199, 200,
    201, 202, 203, 204, 205, 206, 207, 208, 209, 210, 211, 212, 213, 214, 215, 216, 217, 218, 219, 220,
    221, 222, 223, 224, 225, 226, 227, 228, 229, 230, 231, 232, 233, 234, 235, 236, 237, 238, 239, 240,
    241, 242, 243, 244, 245, 246, 247, 248, 249, 250, 251, 252, 253, 254, 255] = crc8_table"
  by code_simp

lemma bytes_256:
  "map word_of_nat [0..<256] = ([0, 1, 2, 3, 4, 5, 6, 7, 8, 9, 10, 11, 12, 13, 14, 15, 16, 17, 18, 19, 20, 21, 22, 23, 24, 25, 26,
    27, 28, 29, 30, 31, 32, 33, 34, 35, 36, 37, 38, 39, 40, 41, 42, 43, 44, 45, 46, 47, 48, 49, 50, 51,
    52, 53, 54, 55, 56, 57, 58, 59, 60, 61, 62, 63, 64, 65, 66, 67, 68, 69, 70, 71, 72, 73, 74, 75, 76,
    77, 78, 79, 80, 81, 82, 83, 84, 85, 86, 87, 88, 89, 90, 91, 92, 93, 94, 95, 96, 97, 98, 99, 100,
    101, 102, 103, 104, 105, 106, 107, 108, 109, 110, 111, 112, 113, 114, 115, 116, 117, 118, 119, 120,
    121, 122, 123, 124, 125, 126, 127, 128, 129, 130, 131, 132, 133, 134, 135, 136, 137, 138, 139, 140,
    141, 142, 143, 144, 145, 146, 147, 148, 149, 150, 151, 152, 153, 154, 155, 156, 157, 158, 159, 160,
    161, 162, 163, 164, 165, 166, 167, 168, 169, 170, 171, 172, 173, 174, 175, 176, 177, 178, 179, 180,
    181, 182, 183, 184, 185, 186, 187, 188, 189, 190, 191, 192, 193, 194, 195, 196, 197, 198, 199, 200,
    201, 202, 203, 204, 205, 206, 207, 208, 209, 210, 211, 212, 213, 214, 215, 216, 217, 218, 219, 220,
    221, 222, 223, 224, 225, 226, 227, 228, 229, 230, 231, 232, 233, 234, 235, 236, 237, 238, 239, 240,
    241, 242, 243, 244, 245, 246, 247, 248, 249, 250, 251, 252, 253, 254, 255] :: u8 list)"
proof -
  have "[0..<256] = 0 # 1 # [2..<256::nat]" by (simp add: upt_conv_Cons)
  then show ?thesis by (simp add: upt_rec_numeral)
qed

lemma crc8_table_nth: "crc8_table ! unat c = crc8_byte c"
proof -
  have "unat c < 256" using unat_less_2p [of c] by simp
  then show ?thesis
    unfolding crc8_rows [symmetric] bytes_256 [symmetric] by simp
qed

lemma hndcrc8_append:
  assumes "length xs + length ys < 2 ^ 32"
  shows "hndcrc8 (xs @ ys) (of_nat (length xs + length ys)) c =
    hndcrc8 ys (of_nat (length ys)) (hndcrc8 xs (of_nat (length xs)) c)"
  using assms by (simp add: hndcrc8_def unat_of_nat_small del: of_nat_add)

text \<open>
  C18. The table driven CRC8 is the bitwise one: each byte is folded in by eight steps of
  the reflected polynomial x^8 + x^7 + x^6 + x^4 + x^2 + 1.
\<close>

theorem hndcrc8_is_bitwise_crc:
  "hndcrc8 pdata nbytes crc = fold (\<lambda>p c. crc8_byte (c XOR p)) (take (unat nbytes) pdata) crc"
proof -
  have "(c XOR p) AND 0xff = c XOR p" for c p :: u8
  proof -
    have "(0xff :: u8) = - 1" by simp
    then show ?thesis by (simp only: and.right_neutral)
  qed
  then show ?thesis
    by (simp add: hndcrc8_def crc8_table_nth)
qed

section \<open>The hash table as a map\<close>

definition nv_ok :: "nvram_handle \<Rightarrow> bool" where
  "nv_ok h \<longleftrightarrow> length (nvram_hash h) = 257 \<and>
     (\<forall>i < 257. distinct (map nt_name (nvram_hash h ! i)) \<and> (\<forall>t \<in> set (nvram_hash h ! i). bucket (nt_name t) = i))"

definition nv_fits :: "nvram_handle \<Rightarrow> bytes \<Rightarrow> bool" where
  "nv_fits h v \<longleftrightarrow> length v + 1 \<le> unat (nv_length h - nv_offset h)"

lemma bucket_less: "bucket name < 257"
proof -
  have "hash name mod 257 < 257" by (rule word_mod_less_divisor) simp
  then show ?thesis unfolding bucket_def by (simp add: word_less_unat)
qed

lemma find_tuple_Cons: "find_tuple n (t # ts) = (if nt_name t = n then Some t else find_tuple n ts)"
  by (simp add: find_tuple_def)

lemma find_tuple_Nil [simp]: "find_tuple n [] = None"
  by (simp add: find_tuple_def)

lemma find_tuple_None: "find_tuple n ts = None \<longleftrightarrow> n \<notin> nt_name ` set ts"
  by (induction ts) (auto simp: find_tuple_Cons)

lemma find_tuple_Some: "find_tuple n ts = Some t \<Longrightarrow> nt_name t = n \<and> t \<in> set ts"
  by (induction ts) (auto simp: find_tuple_Cons split: if_splits)

lemma find_replace:
  "nt_name u = n \<Longrightarrow> find_tuple m (replace_tuple n u ts) =
     (if m = n \<and> find_tuple n ts \<noteq> None then Some u else find_tuple m ts)"
  by (induction ts) (auto simp: find_tuple_Cons)

lemma names_replace: "nt_name u = n \<Longrightarrow> map nt_name (replace_tuple n u ts) = map nt_name ts"
  by (induction ts) auto

lemma name_set_replace: "nt_name u = n \<Longrightarrow> nt_name ` set (replace_tuple n u ts) = nt_name ` set ts"
  using arg_cong [OF names_replace, of u n set ts] by (simp only: set_map)

lemma find_remove:
  "distinct (map nt_name ts) \<Longrightarrow> find_tuple m (remove_tuple n ts) = (if m = n then None else find_tuple m ts)"
  by (induction ts) (auto simp: find_tuple_Cons find_tuple_None)

lemma names_remove: "map nt_name (remove_tuple n ts) = remove1 n (map nt_name ts)"
  by (induction ts) auto

lemma nvram_get_put:
  assumes "length (nvram_hash h) = 257"
  shows "nvram_get (h\<lparr>nvram_hash := (nvram_hash h)[bucket n := ts]\<rparr>) m =
    (case find_tuple m (if bucket m = bucket n then ts else bucket_of h (bucket m)) of
       None \<Rightarrow> None | Some t \<Rightarrow> nt_value t)"
  using assms bucket_less [of n] bucket_less [of m] by (simp add: nvram_get_def bucket_of_def)

lemma nv_ok_put:
  assumes "nv_ok h" "distinct (map nt_name ts)" "nt_name ` set ts \<subseteq> insert n (nt_name ` set (bucket_of h (bucket n)))"
  shows "nv_ok (h\<lparr>nvram_hash := (nvram_hash h)[bucket n := ts]\<rparr>)"
proof -
  have "bucket (nt_name t) = bucket n" if "t \<in> set ts" for t
  proof -
    have "nt_name t = n \<or> nt_name t \<in> nt_name ` set (bucket_of h (bucket n))" using assms(3) that by auto
    then show ?thesis
      using assms(1) bucket_less [of n] by (auto simp: nv_ok_def bucket_of_def)
  qed
  moreover have "length (nvram_hash h) = 257" using assms(1) by (simp add: nv_ok_def)
  ultimately have "distinct (map nt_name ((nvram_hash h)[bucket n := ts] ! i)) \<and>
      (\<forall>t \<in> set ((nvram_hash h)[bucket n := ts] ! i). bucket (nt_name t) = i)" if "i < 257" for i
    using that assms(1,2) by (cases "i = bucket n") (simp_all add: nv_ok_def)
  with assms(1) show ?thesis by (simp add: nv_ok_def)
qed

lemma nv_bucket_distinct: "nv_ok h \<Longrightarrow> distinct (map nt_name (bucket_of h i))"
  by (auto simp: nv_ok_def bucket_of_def)

lemma nvram_set_ok:
  assumes "nv_ok h" "nv_fits h v" "mem n"
  shows "nv_ok (snd (nvram_set mem h n v))" "fst (nvram_set mem h n v) = 0"
    "nvram_get (snd (nvram_set mem h n v)) m = (if m = n then Some v else nvram_get h m)"
proof -
  let ?ts = "bucket_of h (bucket n)"
  have len: "length (nvram_hash h) = 257" using assms(1) by (simp add: nv_ok_def)
  obtain u ts' where set: "nvram_set mem h n v = (0, h\<lparr>nvram_hash := (nvram_hash h)[bucket n := ts']\<rparr>)"
    and ts': "nt_name u = n" "nt_value u = Some v" "ts' = (if find_tuple n ?ts = None then u # ?ts else replace_tuple n u ?ts)"
  proof (cases "find_tuple n ?ts")
    case None
    with assms that [where u = "\<lparr>nt_name = n, nt_value = Some v\<rparr>"] show thesis
      by (simp add: nvram_set_def nvram_realloc_def nv_fits_def Let_def)
  next
    case (Some t)
    have "nt_name t = n" using find_tuple_Some [OF Some] by simp
    with Some assms that [where u = "t\<lparr>nt_value := Some v\<rparr>"] that [where u = t] show thesis
      by (cases "nt_value t = Some v") (simp_all add: nvram_set_def nvram_realloc_def nv_fits_def Let_def)
  qed
  have d: "distinct (map nt_name ?ts)" by (rule nv_bucket_distinct [OF assms(1)])
  have "distinct (map nt_name ts')" "nt_name ` set ts' \<subseteq> insert n (nt_name ` set ?ts)"
    using d by (auto simp: ts'(3) find_tuple_None names_replace [OF ts'(1)] name_set_replace [OF ts'(1)] ts'(1))
  from nv_ok_put [OF assms(1) this] show "nv_ok (snd (nvram_set mem h n v))" by (simp add: set)
  show "fst (nvram_set mem h n v) = 0" by (simp add: set)
  have "find_tuple m (if bucket m = bucket n then ts' else bucket_of h (bucket m)) =
      (if m = n then Some u else find_tuple m (bucket_of h (bucket m)))"
    using ts'(1) by (auto simp: ts'(3) find_tuple_Cons find_replace)
  then show "nvram_get (snd (nvram_set mem h n v)) m = (if m = n then Some v else nvram_get h m)"
    using nvram_get_put [OF len, of n ts' m] ts'(2) by (simp add: set) (simp add: nvram_get_def)
qed

lemma nvram_unset_ok:
  assumes "nv_ok h"
  shows "nv_ok (nvram_unset h n)" "nvram_get (nvram_unset h n) m = (if m = n then None else nvram_get h m)"
proof -
  let ?ts = "bucket_of h (bucket n)"
  have len: "length (nvram_hash h) = 257" using assms by (simp add: nv_ok_def)
  have d: "distinct (map nt_name ?ts)" by (rule nv_bucket_distinct [OF assms])
  have "nv_ok (nvram_unset h n) \<and> nvram_get (nvram_unset h n) m = (if m = n then None else nvram_get h m)"
  proof (cases "find_tuple n ?ts")
    case None
    with assms show ?thesis by (auto simp: nvram_unset_def nvram_get_def)
  next
    case (Some t)
    let ?h = "h\<lparr>nvram_hash := (nvram_hash h)[bucket n := remove_tuple n ?ts]\<rparr>"
    have e: "nvram_unset h n = ?h\<lparr>nvram_dead := t # nvram_dead h\<rparr>" using Some by (simp add: nvram_unset_def Let_def)
    have "distinct (map nt_name (remove_tuple n ?ts))" using d by (simp add: names_remove distinct_remove1)
    moreover have "nt_name ` set (remove_tuple n ?ts) \<subseteq> insert n (nt_name ` set ?ts)"
      using set_remove1_subset [of n "map nt_name ?ts"] by (auto simp: names_remove [symmetric] simp flip: set_map)
    ultimately have "nv_ok ?h" by (rule nv_ok_put [OF assms])
    then have "nv_ok (nvram_unset h n)" unfolding e by (simp add: nv_ok_def)
    moreover have "nvram_get (nvram_unset h n) m = nvram_get ?h m" unfolding e by (simp add: nvram_get_def bucket_of_def)
    moreover have "nvram_get ?h m = (if m = n then None else nvram_get h m)"
      using d by (simp add: nvram_get_put [OF len] find_remove) (auto simp: nvram_get_def)
    ultimately show ?thesis by simp
  qed
  then show "nv_ok (nvram_unset h n)" "nvram_get (nvram_unset h n) m = (if m = n then None else nvram_get h m)"
    by simp_all
qed

text \<open>
  The interface of a variable store: a finite map behind a handle. \<open>fits\<close> is the only
  condition a value has to meet, and no update changes it.
\<close>

locale kv_store =
  fixes get :: "'h \<Rightarrow> 'n \<Rightarrow> 'v option" and put :: "'h \<Rightarrow> 'n \<Rightarrow> 'v \<Rightarrow> 'h" and del :: "'h \<Rightarrow> 'n \<Rightarrow> 'h"
    and ok :: "'h \<Rightarrow> bool" and fits :: "'h \<Rightarrow> 'v \<Rightarrow> bool"
  assumes put_ok: "ok h \<Longrightarrow> fits h v \<Longrightarrow> ok (put h n v)"
    and get_put: "ok h \<Longrightarrow> fits h v \<Longrightarrow> get (put h n v) m = (if m = n then Some v else get h m)"
    and fits_put: "ok h \<Longrightarrow> fits h v \<Longrightarrow> fits (put h n v) w = fits h w"
    and del_ok: "ok h \<Longrightarrow> ok (del h n)"
    and get_del: "ok h \<Longrightarrow> get (del h n) m = (if m = n then None else get h m)"
begin

lemma get_put_map: "ok h \<Longrightarrow> fits h v \<Longrightarrow> get (put h n v) = (get h)(n \<mapsto> v)"
  by (auto simp: get_put)

lemma get_del_map: "ok h \<Longrightarrow> get (del h n) = (get h)(n := None)"
  by (auto simp: get_del)

lemma put_many:
  assumes "ok h" "\<forall>(n, v) \<in> set kvs. fits h v"
  shows "ok (fold (\<lambda>(n, v) h. put h n v) kvs h) \<and>
    get (fold (\<lambda>(n, v) h. put h n v) kvs h) = get h ++ map_of (rev kvs) \<and>
    (\<forall>w. fits (fold (\<lambda>(n, v) h. put h n v) kvs h) w = fits h w)"
  using assms
proof (induction kvs arbitrary: h)
  case (Cons kv kvs)
  obtain n v where kv: "kv = (n, v)" by fastforce
  have f: "ok h" "fits h v" using Cons.prems kv by auto
  have "\<forall>(n', v') \<in> set kvs. fits (put h n v) v'"
    using Cons.prems(2) fits_put [OF f] by auto
  from Cons.IH [OF put_ok [OF f] this] show ?case
    using fits_put [OF f] by (simp add: kv get_put_map [OF f] map_add_upd_left map_of_append fun_upd_def map_add_def)
      (auto simp: fun_eq_iff split: option.splits)
qed simp

end

lemma nv_fits_set [simp]: "nv_fits (snd (nvram_set mem h n v)) w = nv_fits h w"
  by (auto simp: nvram_set_def nv_fits_def Let_def split: prod.splits option.splits)

interpretation nv: kv_store nvram_get "\<lambda>h n v. snd (nvram_set (\<lambda>_. True) h n v)" nvram_unset nv_ok nv_fits
  by unfold_locales (simp_all add: nvram_set_ok nvram_unset_ok)

text \<open>An empty partition of 64 bytes.\<close>

definition nv_empty :: nvram_handle where
  "nv_empty = \<lparr>nv_mmap = replicate 64 0, nv_length = 64, nv_offset = 0, nvram_hash = replicate 257 [], nvram_dead = []\<rparr>"

lemma nv_empty_ok: "nv_ok nv_empty"
  by (simp add: nv_empty_def nv_ok_def)

text \<open>
  C15. The hash table refines a finite map: with room for the value and memory available,
  \<open>nvram_set\<close> is the update of the map \<open>nvram_get\<close> gives, \<open>nvram_unset\<close> removes the name, and
  both keep the table well formed (every tuple in the bucket of its name, no name twice).
\<close>

theorem nvram_refines_map:
  assumes "nv_ok h" "nv_fits h v"
  shows "fst (nvram_set (\<lambda>_. True) h n v) = 0 \<and>
    nvram_get (snd (nvram_set (\<lambda>_. True) h n v)) = (nvram_get h)(n \<mapsto> v) \<and>
    nv_ok (snd (nvram_set (\<lambda>_. True) h n v)) \<and>
    nvram_get (nvram_unset h n) = (nvram_get h)(n := None) \<and> nv_ok (nvram_unset h n)"
  using nv.get_put_map [OF assms, of n] nv.get_del_map [OF assms(1), of n] nv.put_ok [OF assms, of n]
    nv.del_ok [OF assms(1), of n] nvram_set_ok(2) [OF assms, of "\<lambda>_. True" n] by simp

theorem nvram_refines_map_witness:
  "fst (nvram_set (\<lambda>_. True) nv_empty [97] [98]) = 0 \<and>
   nvram_get (snd (nvram_set (\<lambda>_. True) nv_empty [97] [98])) [97] = Some [98]"
proof -
  have "nv_fits nv_empty [98]" by (simp add: nv_fits_def nv_empty_def)
  from nvram_refines_map [OF nv_empty_ok this, of "[97]"] show ?thesis by simp
qed

section \<open>Commit and rehash\<close>

definition clean_tuple :: "nvram_tuple \<Rightarrow> bool" where
  "clean_tuple t \<longleftrightarrow> 0 \<notin> set (nt_name t) \<and> 61 \<notin> set (nt_name t) \<and>
     (case nt_value t of Some v \<Rightarrow> 0 \<notin> set v | None \<Rightarrow> False)"

definition nv_entries :: "nvram_handle \<Rightarrow> (bytes \<times> bytes) list" where
  "nv_entries h = map (\<lambda>t. (nt_name t, the (nt_value t))) (concat (nvram_hash h))"

definition nv_size :: "nvram_handle \<Rightarrow> nat" where
  "nv_size h = length (concat (map entry_bytes (concat (nvram_hash h))))"

lemma takeWhile_stop: "P x \<Longrightarrow> x \<notin> set xs \<Longrightarrow> takeWhile (\<lambda>c. c \<noteq> x) (xs @ x # ys) = xs" for P
  by (induction xs) auto

lemma parse_vars_stop: "parse_vars (0 # bs) = []"
  by (subst parse_vars.simps) (simp add: cstr_def)

lemma parse_vars_entry:
  assumes "clean_tuple t"
  shows "parse_vars (entry_bytes t @ bs) = (nt_name t, the (nt_value t)) # parse_vars bs"
proof -
  obtain v where v: "nt_value t = Some v" "0 \<notin> set v"
    using assms by (auto simp: clean_tuple_def split: option.splits)
  let ?n = "nt_name t"
  have n: "0 \<notin> set ?n" "61 \<notin> set ?n" using assms by (simp_all add: clean_tuple_def)
  have e: "entry_bytes t @ bs = (?n @ 61 # v) @ 0 # bs" by (simp add: entry_bytes_def v)
  have c: "cstr (entry_bytes t @ bs) = ?n @ 61 # v"
    unfolding e cstr_def by (rule takeWhile_stop [of "\<lambda>_. True"]) (use n v in auto)
  have nm: "takeWhile (\<lambda>c. c \<noteq> 61) (?n @ 61 # v) = ?n"
    by (rule takeWhile_stop [of "\<lambda>_. True"]) (use n in auto)
  have d: "drop (length (?n @ 61 # v) + 1) (entry_bytes t @ bs) = bs"
    unfolding e by (simp only: drop_append) simp
  show ?thesis
    by (subst parse_vars.simps) (simp only: c nm d Let_def, simp add: v)
qed

lemma parse_vars_entries:
  "\<forall>t \<in> set ts. clean_tuple t \<Longrightarrow>
    parse_vars (concat (map entry_bytes ts) @ 0 # bs) = map (\<lambda>t. (nt_name t, the (nt_value t))) ts"
  by (induction ts) (simp_all add: parse_vars_stop parse_vars_entry)

lemma emit_bucket_all:
  "length out + length (concat (map entry_bytes ts)) \<le> room \<Longrightarrow>
    emit_bucket room out ts = out @ concat (map entry_bytes ts)"
  by (induction ts arbitrary: out) auto

lemma emit_fold_all:
  "length out + length (concat (map entry_bytes (concat tss))) \<le> room \<Longrightarrow>
    fold (\<lambda>ts out. emit_bucket room out ts) tss out = out @ concat (map entry_bytes (concat tss))"
  by (induction tss arbitrary: out) (simp_all add: emit_bucket_all)

lemma emit_vars_all: "nv_size h \<le> room \<Longrightarrow> emit_vars room (nvram_hash h) = concat (map entry_bytes (concat (nvram_hash h)))"
  using emit_fold_all [of "[]" "nvram_hash h" room] by (simp add: emit_vars_def nv_size_def)

lemma find_tuple_distinct: "distinct (map nt_name ts) \<Longrightarrow> t \<in> set ts \<Longrightarrow> find_tuple (nt_name t) ts = Some t"
  by (induction ts) (auto simp: find_tuple_Cons)

lemma nv_entries_iff:
  assumes "nv_ok h" "\<forall>t \<in> set (concat (nvram_hash h)). clean_tuple t"
  shows "(m, v) \<in> set (nv_entries h) \<longleftrightarrow> nvram_get h m = Some v"
proof
  assume "(m, v) \<in> set (nv_entries h)"
  then obtain t ts where t: "ts \<in> set (nvram_hash h)" "t \<in> set ts" "m = nt_name t" "v = the (nt_value t)"
    by (auto simp: nv_entries_def)
  then obtain i where i: "i < length (nvram_hash h)" "nvram_hash h ! i = ts"
    by (auto simp: in_set_conv_nth)
  with assms(1) t(2,3) have "bucket m = i" "distinct (map nt_name ts)" "length (nvram_hash h) = 257"
    unfolding nv_ok_def by metis+
  moreover have "clean_tuple t" using assms(2) t(1,2) unfolding set_concat by blast
  ultimately show "nvram_get h m = Some v"
    using t i find_tuple_distinct [of ts t]
    by (auto simp: nvram_get_def bucket_of_def clean_tuple_def split: option.splits)
next
  assume g: "nvram_get h m = Some v"
  then obtain t where f: "find_tuple m (bucket_of h (bucket m)) = Some t" and v: "nt_value t = Some v"
    by (auto simp: nvram_get_def split: option.splits)
  have "bucket_of h (bucket m) \<in> set (nvram_hash h)"
    using bucket_less [of m] assms(1) by (simp add: bucket_of_def nv_ok_def)
  with find_tuple_Some [OF f] have "nt_name t = m" "t \<in> set (concat (nvram_hash h))"
    unfolding set_concat by blast+
  with v show "(m, v) \<in> set (nv_entries h)"
    unfolding nv_entries_def by (metis (mono_tags, lifting) image_eqI list.set_map option.sel)
qed

lemma map_of_functional:
  assumes "\<And>m v. (m, v) \<in> set kvs \<longleftrightarrow> f m = Some v"
  shows "map_of (rev kvs) = f"
proof
  fix m
  show "map_of (rev kvs) m = f m"
  proof (cases "f m")
    case None
    then have "m \<notin> fst ` set (rev kvs)" using assms by force
    with None show ?thesis by (simp add: map_of_eq_None_iff)
  next
    case (Some v)
    then have "(m, v) \<in> set (rev kvs)" using assms by simp
    then obtain w where w: "map_of (rev kvs) m = Some w" using weak_map_of_SomeI by fastforce
    from map_of_SomeD [OF w] have "f m = Some w" using assms by simp
    with Some w show ?thesis by simp
  qed
qed

lemma nv_ok_free: "nv_ok h \<Longrightarrow> nv_ok (nvram_free h)"
  by (simp add: nv_ok_def nvram_free_def)

lemma nvram_get_free [simp]: "nvram_get (nvram_free h) = (\<lambda>_. None)"
  by (auto simp: nvram_get_def nvram_free_def bucket_of_def)

lemma set_default_ok:
  assumes "nv_ok h" "nv_fits h v"
  shows "nv_ok (set_default (\<lambda>_. True) n v h)"
    "nvram_get (set_default (\<lambda>_. True) n v h) m = (if m = n \<and> nvram_get h n = None then Some v else nvram_get h m)"
    "nv_fits (set_default (\<lambda>_. True) n v h) w = nv_fits h w"
  using assms by (auto simp: set_default_def nvram_set_ok)

definition sdram_names :: "bytes set" where
  "sdram_names = {sdram_init_name, sdram_config_name, sdram_refresh_name, sdram_ncdl_name}"

lemma length_sprintf_hex [simp]: "length (sprintf_hex w v) = w + 2"
  by (simp add: sprintf_hex_def)

lemma nvram_rehash_get:
  assumes "nv_ok h" "\<forall>(n, v) \<in> set (parse_vars (drop (unat (nv_offset h) + 20) (nv_mmap h))). nv_fits h v"
    and "11 \<le> unat (nv_length h - nv_offset h)"
  defines "kvs \<equiv> parse_vars (drop (unat (nv_offset h) + 20) (nv_mmap h))"
  shows "nv_ok (nvram_rehash (\<lambda>_. True) h) \<and>
    (m \<notin> sdram_names \<or> map_of (rev kvs) m \<noteq> None \<longrightarrow> nvram_get (nvram_rehash (\<lambda>_. True) h) m = map_of (rev kvs) m)"
proof -
  define h1 where "h1 = fold (\<lambda>(n, v) h. snd (nvram_set (\<lambda>_. True) h n v)) kvs (nvram_free h)"
  have free: "nv_fits (nvram_free h) w = nv_fits h w" for w by (simp add: nv_fits_def nvram_free_def)
  have h1: "nv_ok h1" "nvram_get h1 = map_of (rev kvs)" "\<And>w. nv_fits h1 w = nv_fits h w"
    using nv.put_many [OF nv_ok_free [OF assms(1)], of kvs] assms(2) unfolding h1_def kvs_def free
    by (simp_all add: map_add_def fun_eq_iff split: option.splits)
  have small: "nv_fits h (sprintf_hex 4 x)" "nv_fits h (sprintf_hex 8 x)" for x
    using assms(3) by (simp_all add: nv_fits_def)
  note sd = set_default_ok
  show ?thesis
    unfolding nvram_rehash_def Let_def kvs_def [symmetric] h1_def [symmetric]
    by (auto simp: sd h1 small sdram_names_def)
qed

text \<open>The handle with the image that \<open>nvram_commit\<close> writes, before the rehash.\<close>

definition commit_written :: "nvram_handle \<Rightarrow> nvram_header \<Rightarrow> nvram_handle" where
  "commit_written h nh =
     (let off = unat (nv_offset h); area = unat (nv_length h) - off - 20
      in h\<lparr>nv_mmap := take off (nv_mmap h) @ nv_header_bytes nh @ commit_image area h @
                        drop (off + 20 + area) (nv_mmap h)\<rparr>)"

definition committed_header :: "nvram_handle \<Rightarrow> nvram_header" where
  "committed_header h =
     (let area = unat (nv_length h) - unat (nv_offset h) - 20;
          nh = (commit_header h)\<lparr>nh_len := of_nat (commit_len area h)\<rparr>;
          c0 = hndcrc8 (drop 9 (nv_header_bytes (nh\<lparr>nh_magic := 0, nh_len := 0\<rparr>))) 11 0xff
      in nh\<lparr>nh_crc_ver_init := nh_crc_ver_init nh OR ucast (hndcrc8 (commit_image area h) (nh_len nh - 20) c0)\<rparr>)"

lemma nvram_commit_split: "nvram_commit mem h = nvram_rehash mem (commit_written h (committed_header h))"
  by (simp add: nvram_commit_def commit_written_def committed_header_def Let_def)

lemma length_nv_header_bytes [simp]: "length (nv_header_bytes nh) = 20"
  by (simp add: nv_header_bytes_def)

lemma nv_size_entry: "(n, v) \<in> set (nv_entries h) \<Longrightarrow> \<forall>t \<in> set (concat (nvram_hash h)). clean_tuple t \<Longrightarrow> length v + 2 \<le> nv_size h"
proof -
  assume a: "(n, v) \<in> set (nv_entries h)" "\<forall>t \<in> set (concat (nvram_hash h)). clean_tuple t"
  then obtain t where t: "t \<in> set (concat (nvram_hash h))" "v = the (nt_value t)" "clean_tuple t"
    by (auto simp: nv_entries_def)
  then have "length v + 2 \<le> length (entry_bytes t)"
    by (auto simp: entry_bytes_def clean_tuple_def split: option.splits)
  also have "length (entry_bytes t) \<le> nv_size h"
    using t(1) unfolding nv_size_def length_concat by (intro member_le_sum_list) (auto intro: image_eqI [where x = t])
  finally show ?thesis .
qed

text \<open>The partition with its one variable, as the commit sees it.\<close>

definition nv_one :: nvram_handle where
  "nv_one = nv_empty\<lparr>nvram_hash := (replicate 257 [])[97 := [\<lparr>nt_name = [97], nt_value = Some [98]\<rparr>]]\<rparr>"

lemma concat_single: "i < n \<Longrightarrow> concat ((replicate n [])[i := xs]) = xs"
proof (induction n arbitrary: i)
  case (Suc n)
  have "concat (replicate n []) = []" by (induction n) auto
  with Suc show ?case by (cases i) simp_all
qed simp

lemma nv_one_concat: "concat (nvram_hash nv_one) = [\<lparr>nt_name = [97], nt_value = Some [98]\<rparr>]"
  unfolding nv_one_def using concat_single [of 97 257] by simp

lemma nv_one_ok: "nv_ok nv_one"
proof -
  have "bucket [97] = 97" by code_simp
  then show ?thesis by (simp add: nv_one_def nv_ok_def nth_list_update)
qed

lemma nv_one_size: "nv_size nv_one = 4"
  unfolding nv_size_def nv_one_concat by code_simp

lemma nv_one_fields: "nv_length nv_one = 64" "nv_offset nv_one = 0" "length (nv_mmap nv_one) = 64"
  by (simp_all add: nv_one_def nv_empty_def)

text \<open>
  C16. Round trip through flash: when all variables fit, \<open>nvram_commit\<close> writes an image
  whose re-read (which it does itself) gives every variable its value back. Only the four
  SDRAM variables may appear new, from the header defaults.
\<close>

theorem nvram_commit_roundtrip:
  assumes "nv_ok h" "\<forall>t \<in> set (concat (nvram_hash h)). clean_tuple t"
    and "nv_offset h \<le> nv_length h" "unat (nv_length h) \<le> length (nv_mmap h)"
    and "nv_size h + 32 \<le> unat (nv_length h) - unat (nv_offset h)"
    and "name \<notin> sdram_names \<or> nvram_get h name \<noteq> None"
  shows "nvram_get (nvram_commit (\<lambda>_. True) h) name = nvram_get h name"
proof -
  define h1 where "h1 = commit_written h (committed_header h)"
  define area where "area = unat (nv_length h) - unat (nv_offset h) - 20"
  have off: "unat (nv_offset h) \<le> length (nv_mmap h)" "unat (nv_length h - nv_offset h) = unat (nv_length h) - unat (nv_offset h)"
    using assms(3,4) by (simp_all add: word_le_unat unat_sub)
  have frame: "nvram_hash h1 = nvram_hash h" "nv_offset h1 = nv_offset h" "nv_length h1 = nv_length h"
    by (simp_all add: h1_def commit_written_def Let_def)
  have fits: "nv_fits h1 v = nv_fits h v" "nv_ok h1" for v
    using assms(1) frame by (simp_all add: nv_fits_def nv_ok_def)
  have "emit_vars (area - 2) (nvram_hash h) = concat (map entry_bytes (concat (nvram_hash h)))"
    using assms(5) unfolding area_def by (intro emit_vars_all) simp
  then obtain pad where img: "commit_image area h = concat (map entry_bytes (concat (nvram_hash h))) @ 0 # pad"
    by (simp add: commit_image_def Let_def)
  have "drop (unat (nv_offset h1) + 20) (nv_mmap h1) = commit_image area h @ drop (unat (nv_offset h) + 20 + area) (nv_mmap h)"
    using off(1) by (simp add: h1_def commit_written_def Let_def area_def)
  then have kvs: "parse_vars (drop (unat (nv_offset h1) + 20) (nv_mmap h1)) = nv_entries h"
    using parse_vars_entries [OF assms(2)] by (simp add: img nv_entries_def)
  have efit: "\<forall>(n, v) \<in> set (nv_entries h). nv_fits h1 v"
  proof clarify
    fix n v
    assume "(n, v) \<in> set (nv_entries h)"
    from nv_size_entry [OF this assms(2)] show "nv_fits h1 v"
      using assms(5) off(2) frame by (simp add: nv_fits_def)
  qed
  have "map_of (rev (nv_entries h)) = nvram_get h"
    by (rule map_of_functional [OF nv_entries_iff [OF assms(1,2)]])
  with nvram_rehash_get [OF fits(2), unfolded kvs, OF efit, of name] show ?thesis
    using assms(5,6) off(2) frame unfolding nvram_commit_split h1_def [symmetric] by simp
qed

theorem nvram_commit_roundtrip_witness: "nvram_get (nvram_commit (\<lambda>_. True) nv_one) [97] = Some [98]"
proof -
  have g: "nvram_get nv_one [97] = Some [98]"
    using nv_entries_iff [OF nv_one_ok, of "[97]" "[98]"]
    by (simp add: nv_one_concat clean_tuple_def nv_entries_def)
  have "\<forall>t \<in> set (concat (nvram_hash nv_one)). clean_tuple t"
    unfolding nv_one_concat by (simp add: clean_tuple_def)
  from nvram_commit_roundtrip [OF nv_one_ok this, of "[97]"] show ?thesis
    by (simp add: nv_one_fields nv_one_size g)
qed

lemma hndcrc8_prefix: "unat n \<le> length xs \<Longrightarrow> hndcrc8 (xs @ ys) n c = hndcrc8 xs n c"
  by (simp add: hndcrc8_def)

lemma commit_header_low_byte: "ucast (nh_crc_ver_init (commit_header h) OR ucast (c :: u8)) = c"
proof (rule bit_word_eqI)
  fix n
  assume "n < LENGTH(8)"
  have "nh_crc_ver_init (commit_header h) \<in> range (\<lambda>x. push_bit 8 1 OR push_bit 16 x)"
    unfolding commit_header_def
    by (simp only: prod.case nvram_header.select_convs split: option.split)
      (intro conjI impI allI; rule range_eqI, rule refl)
  then obtain x where "nh_crc_ver_init (commit_header h) = push_bit 8 1 OR push_bit 16 x" by blast
  with \<open>n < LENGTH(8)\<close> have "\<not> bit (nh_crc_ver_init (commit_header h)) n"
    by (simp only: bit_or_iff bit_push_bit_iff) simp
  with \<open>n < LENGTH(8)\<close> show "bit (ucast (nh_crc_ver_init (commit_header h) OR ucast c) :: u8) n = bit c n"
    by (simp add: bit_simps)
qed

lemma le32_high_bytes: "drop 1 (le32 (w OR ucast (c :: u8))) = drop 1 (le32 w)"
proof -
  have "ucast (drop_bit k (w OR ucast c)) = (ucast (drop_bit k w) :: u8)" if "8 \<le> k" for k
    using that by (intro bit_word_eqI) (auto simp: bit_simps dest: bit_imp_le_length)
  then show ?thesis by (simp add: le32_def)
qed

lemma header_crc_bytes:
  "drop 9 (nv_header_bytes (nh\<lparr>nh_crc_ver_init := nh_crc_ver_init nh OR ucast (c :: u8)\<rparr>)) =
   drop 9 (nv_header_bytes (nh\<lparr>nh_magic := 0, nh_len := 0\<rparr>))"
  using le32_high_bytes [of "nh_crc_ver_init nh" c] by (simp add: nv_header_bytes_def)

lemma rd32_nv_header:
  "rd32 (nv_header_bytes nh @ xs) 4 = nh_len nh" "rd32 (nv_header_bytes nh @ xs) 8 = nh_crc_ver_init nh"
  by (simp_all add: nv_header_bytes_def le_codec)

text \<open>
  C17. The image \<open>nvram_commit\<close> writes is consistent: the CRC that \<open>nvram info\<close> computes over
  the header from byte 9 on and the data is the one stored in the low byte of
  \<open>crc_ver_init\<close>.
\<close>

theorem nvram_commit_crc_valid:
  assumes "nv_offset h \<le> nv_length h" "unat (nv_length h) \<le> length (nv_mmap h)"
    and "(unat (nv_length h) - unat (nv_offset h)) mod 4 = 0"
    and "nv_size h + 32 \<le> unat (nv_length h) - unat (nv_offset h)"
  shows "do_info_crc (commit_written h (committed_header h)) =
    ucast (nh_crc_ver_init (nvram_header_at (commit_written h (committed_header h))))"
proof -
  define area where "area = unat (nv_length h) - unat (nv_offset h) - 20"
  define nh where "nh = (commit_header h)\<lparr>nh_len := of_nat (commit_len area h)\<rparr>"
  define a where "a = drop 9 (nv_header_bytes (nh\<lparr>nh_magic := 0, nh_len := 0\<rparr>))"
  define c where "c = hndcrc8 (commit_image area h) (nh_len nh - 20) (hndcrc8 a 11 0xff)"
  let ?rest = "drop (unat (nv_offset h) + 20 + area) (nv_mmap h)"
  have ch: "committed_header h = nh\<lparr>nh_crc_ver_init := nh_crc_ver_init nh OR ucast c\<rparr>"
    by (simp add: committed_header_def Let_def area_def nh_def a_def c_def)
  have off: "unat (nv_offset h) \<le> length (nv_mmap h)"
    using assms(1,2) by (simp add: word_le_unat)
  then have mm: "drop (unat (nv_offset h)) (nv_mmap (commit_written h (committed_header h))) =
      nv_header_bytes (committed_header h) @ commit_image area h @ ?rest"
    by (simp add: commit_written_def Let_def area_def)
  have rd: "rd32 (nv_mmap (commit_written h (committed_header h))) (unat (nv_offset h) + k) =
      rd32 (nv_header_bytes (committed_header h) @ commit_image area h @ ?rest) k" for k
    using rd32_drop [of "unat (nv_offset h)" "nv_mmap (commit_written h (committed_header h))" k] mm by simp
  have offeq: "nv_offset (commit_written h (committed_header h)) = nv_offset h"
    by (simp add: commit_written_def Let_def)
  have hd: "nh_len (nvram_header_at (commit_written h (committed_header h))) = nh_len nh"
      "nh_crc_ver_init (nvram_header_at (commit_written h (committed_header h))) = nh_crc_ver_init nh OR ucast c"
    by (simp_all add: nvram_header_at_def Let_def offeq rd rd32_nv_header) (simp_all add: ch)
  have out: "length (emit_vars (area - 2) (nvram_hash h)) = nv_size h" "nv_size h + 12 \<le> area" "area mod 4 = 0"
      "area + 20 < 2 ^ 32"
    using assms(3,4) unat_less_2p [of "nv_length h"] emit_vars_all [of h "area - 2"]
    by (simp_all add: area_def nv_size_def) presburger+
  have cl: "commit_len area h = (nv_size h + 25) div 4 * 4" by (simp add: commit_len_def out(1))
  have len: "commit_len area h < 2 ^ 32" "20 \<le> commit_len area h" "commit_len area h - 20 \<le> area"
    using out(2-4) unfolding cl by presburger+
  then have nl: "unat (nh_len nh) = commit_len area h" by (simp add: nh_def unat_of_nat_small)
  have img: "area \<le> length (commit_image area h)" by (simp add: commit_image_def Let_def)
  have ca: "length a = 11" by (simp add: a_def)
  have n9u: "unat (nh_len nh - 9) = 11 + (commit_len area h - 20)"
    using len(2) nl by (simp add: unat_sub word_le_unat)
  have n9: "nh_len nh - 9 = of_nat (length a + (commit_len area h - 20))"
    using len(2) by (simp add: nh_def ca of_nat_diff)
  have "do_info_crc (commit_written h (committed_header h)) =
      hndcrc8 (a @ commit_image area h @ ?rest) (nh_len nh - 9) 0xff"
  proof -
    have "drop (unat (nv_offset h) + 9) (nv_mmap (commit_written h (committed_header h))) =
        drop 9 (drop (unat (nv_offset h)) (nv_mmap (commit_written h (committed_header h))))"
      by (simp add: add.commute)
    also have "\<dots> = a @ commit_image area h @ ?rest"
      unfolding mm using header_crc_bytes [of nh c] by (simp add: ch a_def)
    finally show ?thesis unfolding do_info_crc_def hd(1) offeq by simp
  qed
  also have "\<dots> = hndcrc8 (a @ take (commit_len area h - 20) (commit_image area h)) (nh_len nh - 9) 0xff"
    using n9u len img ca by (simp add: hndcrc8_def)
  also have "\<dots> = hndcrc8 (take (commit_len area h - 20) (commit_image area h)) (nh_len nh - 20) (hndcrc8 a 11 0xff)"
    using hndcrc8_append [where xs = a and ys = "take (commit_len area h - 20) (commit_image area h)" and c = "0xff"] len img ca
    unfolding n9 by (simp add: nh_def of_nat_diff)
  also have "\<dots> = c"
    using len nl unfolding c_def hndcrc8_def by (simp add: unat_sub word_le_unat)
  finally show ?thesis
    using commit_header_low_byte [of h c] by (simp add: hd(2)) (simp add: nh_def)
qed

theorem nvram_commit_crc_valid_witness:
  "do_info_crc (commit_written nv_one (committed_header nv_one)) =
     ucast (nh_crc_ver_init (nvram_header_at (commit_written nv_one (committed_header nv_one))))"
  by (rule nvram_commit_crc_valid) (simp_all add: nv_one_fields nv_one_size)

end
