(* ===== verification/Mtd_Split.thy ===== *)
theory Mtd_Split
  imports Flash_Prelude
begin

text \<open>
  The firmware partition splitters (\<open>drivers/mtd/mtdsplit\<close>): each looks at a firmware
  partition, recognises its image header and returns the kernel and root file system
  partitions. The MTD device under them is code of the kernel: the record \<open>mtd\<close> has its
  size, its erase size and \<open>mtd_read\<close> as a function from an offset and a length to the error
  code and the bytes read (\<open>retlen\<close> is their number). \<open>size_t\<close> has 64 bits.

  A parser returns the error code or the partitions; a loop over erase blocks that need
  not end (an erase size of 0) makes the result an option. \<open>alloc\<close> tells whether \<open>kzalloc\<close>
  succeeds. Big-endian fields are read with \<open>be32\<close> and \<open>be16\<close>, fields the code takes in CPU
  byte order with \<open>rd32\<close> and \<open>rd16\<close> (a little-endian CPU).
\<close>

section \<open>Devices, partitions and byte order\<close>

record mtd =
  md_size :: u64
  md_erasesize :: u32
  md_read :: "u64 \<Rightarrow> nat \<Rightarrow> int \<times> bytes"

record mtd_part =
  p_name :: string
  p_offset :: u64
  p_size :: u64

datatype mtdsplit_part_type = PART_UNK | PART_SQUASHFS | PART_JFFS2 | PART_UBI

type_synonym 'a result = "int + 'a"

definition be32 :: "bytes \<Rightarrow> nat \<Rightarrow> u32" where
  "be32 bs k = push_bit 24 (ucast (rd8 bs k)) OR push_bit 16 (ucast (rd8 bs (k + 1)))
     OR push_bit 8 (ucast (rd8 bs (k + 2))) OR ucast (rd8 bs (k + 3))"

definition be16 :: "bytes \<Rightarrow> nat \<Rightarrow> u16" where
  "be16 bs k = push_bit 8 (ucast (rd8 bs k)) OR ucast (rd8 bs (k + 1))"

definition be64 :: "bytes \<Rightarrow> nat \<Rightarrow> u64" where
  "be64 bs k = push_bit 32 (ucast (be32 bs k)) OR ucast (be32 bs (k + 4))"

definition cpu16 :: "bytes \<Rightarrow> nat \<Rightarrow> u16" where
  "cpu16 bs k = ucast (rd8 bs k) OR push_bit 8 (ucast (rd8 bs (k + 1)))"

abbreviation (input) SQUASHFS_MAGIC :: u32 where "SQUASHFS_MAGIC \<equiv> 0x73717368"
abbreviation (input) UBI_EC_MAGIC :: u32 where "UBI_EC_MAGIC \<equiv> 0x55424923"

section \<open>mtdsplit.c\<close>

text \<open>A read of a whole structure: the error of \<open>mtd_read\<close>, or \<open>-EIO\<close> for a short read.\<close>

definition read_hdr :: "mtd \<Rightarrow> u64 \<Rightarrow> nat \<Rightarrow> bytes result" where
  "read_hdr m off n =
     (let (err, dat) = md_read m off n
      in if err \<noteq> 0 then Inl err else if length dat \<noteq> n then Inl (- EIO) else Inr dat)"

definition mtd_get_squashfs_len :: "mtd \<Rightarrow> u64 \<Rightarrow> u64 result" where
  "mtd_get_squashfs_len m offset =
     (let (err, sb) = md_read m offset 48
      in if err \<noteq> 0 \<or> length sb \<noteq> 48 then Inl (- EIO)
         else if rd32 sb 0 \<noteq> SQUASHFS_MAGIC then Inl (- EINVAL)
         else
           let len = rd64 sb 40
           in if len \<le> 0 then Inl (- ENODEV)
              else if offset + len > md_size m then Inl (- EINVAL)
              else Inr len)"

text \<open>
  \<open>mtd_div_by_eb\<close> of the MTD core returns a \<open>uint32_t\<close>, so the products below are computed in
  32 bits and only then widened: an offset that is not aligned is rounded modulo 4 GiB.
\<close>

definition mtd_div_by_eb :: "mtd \<Rightarrow> u64 \<Rightarrow> u32" where
  "mtd_div_by_eb m sz = ucast (sz div ucast (md_erasesize m))"

definition rounddown_eb :: "mtd \<Rightarrow> u64 \<Rightarrow> u64" where
  "rounddown_eb m sz =
     (if sz mod ucast (md_erasesize m) = 0 then sz
      else ucast (mtd_div_by_eb m sz * md_erasesize m))"

definition roundup_eb :: "mtd \<Rightarrow> u64 \<Rightarrow> u64" where
  "roundup_eb m sz =
     (if sz mod ucast (md_erasesize m) = 0 then sz
      else ucast ((mtd_div_by_eb m sz + 1) * md_erasesize m))"

definition mtd_next_eb :: "mtd \<Rightarrow> u64 \<Rightarrow> u64" where
  "mtd_next_eb m offset = rounddown_eb m offset + ucast (md_erasesize m)"

definition mtd_check_rootfs_magic :: "mtd \<Rightarrow> u64 \<Rightarrow> mtdsplit_part_type result" where
  "mtd_check_rootfs_magic m offset =
     (case read_hdr m offset 4 of
        Inl e \<Rightarrow> Inl e
      | Inr dat \<Rightarrow>
          if rd32 dat 0 = SQUASHFS_MAGIC then Inr PART_SQUASHFS
          else if rd32 dat 0 = 0x19852003 then Inr PART_JFFS2
          else if be32 dat 0 = UBI_EC_MAGIC then Inr PART_UBI
          else Inl (- EINVAL))"

partial_function (option) mtd_find_rootfs_from ::
    "mtd \<Rightarrow> u64 \<Rightarrow> u64 \<Rightarrow> (u64 \<times> mtdsplit_part_type) result option" where
  "mtd_find_rootfs_from m offset limit =
     (if offset < limit then
        (case mtd_check_rootfs_magic m offset of
           Inr ty \<Rightarrow> Some (Inr (offset, ty))
         | Inl e \<Rightarrow> mtd_find_rootfs_from m (mtd_next_eb m offset) limit)
      else Some (Inl (- ENODEV)))"

declare mtd_find_rootfs_from.simps [code]

definition rootfs_name :: "mtdsplit_part_type \<Rightarrow> string" where
  "rootfs_name ty = (if ty = PART_UBI then ''ubi'' else ''rootfs'')"

text \<open>The result of a parser that puts the kernel before the root file system.\<close>

definition split_at_offset :: "mtd \<Rightarrow> bool \<Rightarrow> string \<Rightarrow> u64 \<Rightarrow> string \<Rightarrow> u64 \<Rightarrow> mtd_part list result" where
  "split_at_offset m alloc kname koff rname roff =
     (if \<not> alloc then Inl (- ENOMEM)
      else Inr [\<lparr>p_name = kname, p_offset = koff, p_size = roff - koff\<rparr>,
                \<lparr>p_name = rname, p_offset = roff, p_size = md_size m - roff\<rparr>])"

section \<open>mtdsplit\_squashfs.c\<close>

text \<open>\<open>pm\<close> is the master device and \<open>part_offset\<close> the partition's offset in it.\<close>

definition mtdsplit_parse_squashfs :: "mtd \<Rightarrow> mtd \<Rightarrow> u64 \<Rightarrow> bool \<Rightarrow> mtd_part list result" where
  "mtdsplit_parse_squashfs m pm part_offset alloc =
     (case mtd_get_squashfs_len m 0 of
        Inl e \<Rightarrow> Inl e
      | Inr len \<Rightarrow>
          if \<not> alloc then Inl (- ENOMEM)
          else
            let off = roundup_eb pm (part_offset + len) - part_offset
            in Inr [\<lparr>p_name = ''rootfs_data'', p_offset = off, p_size = rounddown_eb m (md_size m - off)\<rparr>])"

section \<open>Scanning erase blocks for an image header\<close>

text \<open>
  The loop of the uImage, TRX and jImage parsers. \<open>cand off\<close> is the image size of a valid
  header at \<open>off\<close>; the loop ends at the first image that fits, and after the last erase
  block with the size the last one left behind (0, or that of an image that did not fit).
\<close>

partial_function (option) eb_scan :: "mtd \<Rightarrow> (u64 \<Rightarrow> u64 option) \<Rightarrow> u64 \<Rightarrow> u64 \<Rightarrow> (u64 \<times> u64) option" where
  "eb_scan m cand offset sz =
     (if offset < md_size m then
        (case cand offset of
           None \<Rightarrow> eb_scan m cand (offset + ucast (md_erasesize m)) 0
         | Some s \<Rightarrow> if offset + s > md_size m then eb_scan m cand (offset + ucast (md_erasesize m)) s
                      else Some (offset, s))
      else Some (offset, sz))"

declare eb_scan.simps [code]

text \<open>The common end of the uImage and jImage parsers.\<close>

definition image_split :: "mtd \<Rightarrow> u64 \<Rightarrow> u64 \<Rightarrow> mtd_part list result option" where
  "image_split m off sz =
     (if sz = 0 then Some (Inl (- ENODEV))
      else if off = 0 then
        (case mtd_find_rootfs_from m (off + sz) (md_size m) of
           None \<Rightarrow> None
         | Some (Inl e) \<Rightarrow> Some (Inl e)
         | Some (Inr (roff, ty)) \<Rightarrow>
             if md_size m - roff = 0 then Some (Inl (- ENODEV))
             else Some (Inr [\<lparr>p_name = ''kernel'', p_offset = off, p_size = roff - off\<rparr>,
                             \<lparr>p_name = rootfs_name ty, p_offset = roff, p_size = md_size m - roff\<rparr>]))
      else
        (case mtd_check_rootfs_magic m 0 of
           Inl e \<Rightarrow> Some (Inl e)
         | Inr ty \<Rightarrow>
             Some (Inr [\<lparr>p_name = rootfs_name ty, p_offset = 0, p_size = off\<rparr>,
                        \<lparr>p_name = ''kernel'', p_offset = off, p_size = sz\<rparr>])))"

section \<open>mtdsplit\_uimage.c\<close>

record uimage_dt =
  dt_extralen :: u32
  dt_ih_magic :: u32
  dt_ih_type :: u32
  dt_header_offset :: u32
  dt_part_magic :: u32

text \<open>\<open>np\<close> is the device tree node when it is compatible with \<open>openwrt,uimage\<close>.\<close>

definition uimage_parse_dt ::
    "(u32 option \<times> u32 option \<times> u32 option \<times> u32 option \<times> u32 option) option \<Rightarrow> uimage_dt" where
  "uimage_parse_dt np =
     (let d = \<lparr>dt_extralen = 0, dt_ih_magic = 0x27051956, dt_ih_type = 2, dt_header_offset = 0, dt_part_magic = 0\<rparr>;
          pick = (\<lambda>v dflt. case v of None \<Rightarrow> dflt | Some x \<Rightarrow> x)
      in case np of
           None \<Rightarrow> d
         | Some (padding, magic, type', offset, pmagic) \<Rightarrow>
             \<lparr>dt_extralen = pick padding (dt_extralen d), dt_ih_magic = pick magic (dt_ih_magic d),
              dt_ih_type = pick type' (dt_ih_type d), dt_header_offset = pick offset (dt_header_offset d),
              dt_part_magic = pick pmagic (dt_part_magic d)\<rparr>)"

definition read_uimage_header :: "mtd \<Rightarrow> u64 \<Rightarrow> nat \<Rightarrow> bytes result" where
  "read_uimage_header m offset header_len = read_hdr m offset header_len"

definition uimage_verify_default :: "bytes \<Rightarrow> u32 \<Rightarrow> u32 \<Rightarrow> int" where
  "uimage_verify_default buf ih_magic ih_type =
     (if be32 buf 0 \<noteq> ih_magic then - EINVAL
      else if rd8 buf 28 \<noteq> 5 then - EINVAL
      else if ucast (rd8 buf 30) \<noteq> ih_type then - EINVAL
      else 0)"

definition uimage_candidate :: "mtd \<Rightarrow> uimage_dt \<Rightarrow> u64 \<Rightarrow> u64 option" where
  "uimage_candidate m dt offset =
     (let ho = dt_header_offset dt
      in case read_uimage_header m offset (64 + unat ho) of
           Inl _ \<Rightarrow> None
         | Inr buf \<Rightarrow>
             if ho \<noteq> 0 \<and> dt_part_magic dt \<noteq> 0 \<and> be32 buf 0 \<noteq> dt_part_magic dt then None
             else if uimage_verify_default (drop (unat ho) buf) (dt_ih_magic dt) (dt_ih_type dt) < 0 then None
             else Some (64 + ucast (be32 buf (unat ho + 12)) + ucast ho + scast (dt_extralen dt)))"

definition mtdsplit_parse_uimage :: "mtd \<Rightarrow> uimage_dt \<Rightarrow> bool \<Rightarrow> mtd_part list result option" where
  "mtdsplit_parse_uimage m dt alloc =
     (if \<not> alloc then Some (Inl (- ENOMEM))
      else case eb_scan m (uimage_candidate m dt) 0 0 of
             None \<Rightarrow> None
           | Some (off, sz) \<Rightarrow> image_split m off sz)"

section \<open>mtdsplit\_jimage.c\<close>

definition jimage_verify_default :: "bytes \<Rightarrow> int" where
  "jimage_verify_default buf =
     (if cpu16 buf 2 \<noteq> 0x2B24 then - EINVAL
      else if cpu16 buf 16 \<noteq> 0x2124 then - EINVAL
      else if rd8 buf 0 \<noteq> rd8 buf 1 then - EINVAL
      else if rd8 buf 1 \<noteq> 4 then - EINVAL
      else if rd8 buf 19 \<noteq> 2 then - EINVAL
      else 0)"

definition jimage_candidate :: "mtd \<Rightarrow> u64 \<Rightarrow> u64 option" where
  "jimage_candidate m offset =
     (case read_hdr m offset 56 of
        Inl _ \<Rightarrow> None
      | Inr buf \<Rightarrow> if jimage_verify_default buf < 0 then None else Some (56 + ucast (rd32 buf 24)))"

definition mtdsplit_parse_jimage :: "mtd \<Rightarrow> bool \<Rightarrow> mtd_part list result option" where
  "mtdsplit_parse_jimage m alloc =
     (if \<not> alloc then Some (Inl (- ENOMEM))
      else case eb_scan m (jimage_candidate m) 0 0 of
             None \<Rightarrow> None
           | Some (off, sz) \<Rightarrow> image_split m off sz)"

section \<open>mtdsplit\_trx.c\<close>

definition read_trx_header :: "mtd \<Rightarrow> u64 \<Rightarrow> bytes result" where
  "read_trx_header m offset = read_hdr m offset 32"

definition trx_candidate :: "mtd \<Rightarrow> u64 \<Rightarrow> u64 option" where
  "trx_candidate m offset =
     (case read_trx_header m offset of
        Inl _ \<Rightarrow> None
      | Inr hdr \<Rightarrow> if rd32 hdr 0 \<noteq> 0x30524448 then None else Some (ucast (rd32 hdr 4)))"

text \<open>
  \<open>hdr\<close> after the loop is the header read last: the one at \<open>off\<close>, or in the last erase
  block when the loop ran to the end. A size other than 0 means that read succeeded.
\<close>

definition mtdsplit_parse_trx :: "mtd \<Rightarrow> bool \<Rightarrow> mtd_part list result option" where
  "mtdsplit_parse_trx m alloc =
     (if \<not> alloc then Some (Inl (- ENOMEM))
      else case eb_scan m (trx_candidate m) 0 0 of
             None \<Rightarrow> None
           | Some (off, sz) \<Rightarrow>
               if sz = 0 then Some (Inl (- ENODEV))
               else
                 let at = (if off < md_size m then off else off - ucast (md_erasesize m));
                     hdr = (case read_trx_header m at of Inr h \<Rightarrow> h | Inl _ \<Rightarrow> []);
                     trx_offset = off + ucast (rd32 hdr 16);
                     rootfs_offset = off + ucast (rd32 hdr 20);
                     rootfs_size = md_size m - rootfs_offset
                 in if rootfs_size = 0 then Some (Inl (- ENODEV))
                    else Some (Inr [\<lparr>p_name = ''kernel'', p_offset = trx_offset, p_size = rootfs_offset - trx_offset\<rparr>,
                                    \<lparr>p_name = ''rootfs'', p_offset = rootfs_offset, p_size = rootfs_size\<rparr>]))"

section \<open>Parsers with a header at offset 0\<close>

text \<open>The kernel from 0 to the root file system found by a search from \<open>from\<close>.\<close>

definition split_found ::
    "mtd \<Rightarrow> bool \<Rightarrow> string \<Rightarrow> (mtdsplit_part_type \<Rightarrow> string) \<Rightarrow> u64 \<Rightarrow> mtd_part list result option" where
  "split_found m alloc kname rname from =
     (case mtd_find_rootfs_from m from (md_size m) of
        None \<Rightarrow> None
      | Some (Inl e) \<Rightarrow> Some (Inl e)
      | Some (Inr (roff, ty)) \<Rightarrow> Some (split_at_offset m alloc kname 0 (rname ty) roff))"

definition is_power_of_2 :: "u32 \<Rightarrow> bool" where
  "is_power_of_2 n \<longleftrightarrow> n \<noteq> 0 \<and> n AND (n - 1) = 0"

definition mtdsplit_parse_lzma :: "mtd \<Rightarrow> bool \<Rightarrow> mtd_part list result option" where
  "mtdsplit_parse_lzma m alloc =
     (case read_hdr m 0 13 of
        Inl e \<Rightarrow> Some (Inl e)
      | Inr hdr \<Rightarrow>
          if rd8 hdr 0 \<ge> 225 then Some (Inl (- EINVAL))
          else if \<not> is_power_of_2 (rd32 hdr 1) then Some (Inl (- EINVAL))
          else if rd32 hdr 9 \<noteq> 0 then Some (Inl (- EINVAL))
          else split_found m alloc ''kernel'' (\<lambda>_. ''rootfs'') (ucast (md_erasesize m)))"

definition mtdsplit_parse_wrgg :: "mtd \<Rightarrow> bool \<Rightarrow> mtd_part list result option" where
  "mtdsplit_parse_wrgg m alloc =
     (case read_hdr m 0 160 of
        Inl e \<Rightarrow> Some (Inl e)
      | Inr hdr \<Rightarrow>
          let ent = (if rd32 hdr 32 = 0x20080321 then
                       (let be = 160 + ucast (be32 hdr 104); le = 160 + ucast (rd32 hdr 104)
                        in if be > md_size m then (if le > md_size m then None else Some le) else Some be)
                     else if rd32 hdr 32 = 0x20040220 then Some (96 + ucast (rd32 hdr 40))
                     else None)
          in case ent of
               None \<Rightarrow> Some (Inl (- EINVAL))
             | Some (k :: u64) \<Rightarrow>
                 if k > md_size m then Some (Inl (- EINVAL))
                 else split_found m alloc ''kernel'' (\<lambda>_. ''rootfs'') 0x80000)"

text \<open>The parser of MikroTik's MiNOR images returns 0 partitions where it recognises nothing.\<close>

definition minor_kernel_name :: bytes where
  "minor_kernel_name = [107, 101, 114, 110, 101, 108, 0]"

definition minor_bootimage_name :: bytes where
  "minor_bootimage_name = [98, 111, 111, 116, 105, 109, 97, 103, 101, 0]"

definition mtdsplit_parse_minor :: "mtd \<Rightarrow> bool \<Rightarrow> mtd_part list result option" where
  "mtdsplit_parse_minor m alloc =
     (case read_hdr m 0 140 of
        Inl e \<Rightarrow> Some (Inl e)
      | Inr hdr \<Rightarrow>
          if rd32 hdr 0 \<noteq> 1 \<or> rd32 hdr 4 \<noteq> 1 \<or> cpu16 hdr 8 \<noteq> 0xffff then Some (Inr [])
          else if take 7 (drop 10 hdr) \<noteq> minor_kernel_name \<and> take 10 (drop 10 hdr) \<noteq> minor_bootimage_name
          then Some (Inr [])
          else case split_found m alloc ''kernel'' (\<lambda>_. ''rootfs'') (ucast (md_erasesize m)) of
                 Some (Inl e) \<Rightarrow> if e = - ENOMEM \<and> \<not> alloc then Some (Inl e) else Some (Inr [])
               | r \<Rightarrow> r)"

definition mtdsplit_parse_seama :: "mtd \<Rightarrow> bool \<Rightarrow> mtd_part list result option" where
  "mtdsplit_parse_seama m alloc =
     (case read_hdr m 0 28 of
        Inl e \<Rightarrow> Some (Inl e)
      | Inr hdr \<Rightarrow>
          if be32 hdr 0 \<noteq> 0x5EA3A417 then Some (Inl (- EINVAL))
          else
            let ent = 28 + ucast (be32 hdr 8) + ucast (be16 hdr 6);
                koff = 28 + ucast (be16 hdr 6)
            in if ent > md_size m then Some (Inl (- EINVAL))
               else case mtd_check_rootfs_magic m ent of
                      Inr ty \<Rightarrow> Some (split_at_offset m alloc ''kernel'' koff (rootfs_name ty) ent)
                    | Inl _ \<Rightarrow>
                        (case mtd_find_rootfs_from m 0x80000 (md_size m) of
                           None \<Rightarrow> None
                         | Some (Inl e) \<Rightarrow> Some (Inl e)
                         | Some (Inr (roff, ty)) \<Rightarrow>
                             Some (split_at_offset m alloc ''kernel'' koff (rootfs_name ty) roff)))"

definition mtdsplit_parse_eva :: "mtd \<Rightarrow> bool \<Rightarrow> mtd_part list result" where
  "mtdsplit_parse_eva m alloc =
     (case read_hdr m 0 8 of
        Inl e \<Rightarrow> Inl e
      | Inr hdr \<Rightarrow>
          if rd32 hdr 0 \<noteq> 0xfeed1281 then Inl (- EINVAL)
          else
            let ks = (ucast (rd32 hdr 4 + 0x18) :: u64);
                roff = ((ks - 1) OR 0xffff) + 1 + 0x100
            in if roff \<ge> md_size m then Inl (- EINVAL)
               else case mtd_check_rootfs_magic m roff of
                      Inl e \<Rightarrow> Inl e
                    | Inr _ \<Rightarrow>
                        if \<not> alloc then Inl (- ENOMEM)
                        else Inr [\<lparr>p_name = ''kernel'', p_offset = 0, p_size = ks\<rparr>,
                                  \<lparr>p_name = ''rootfs'', p_offset = roff, p_size = md_size m - roff\<rparr>])"

text \<open>TP-Link: version 1, or 2 and 3; the header has 512 bytes in both layouts.\<close>

definition mtdsplit_parse_tplink :: "mtd \<Rightarrow> bool \<Rightarrow> mtd_part list result option" where
  "mtdsplit_parse_tplink m alloc =
     (case read_hdr m 0 512 of
        Inl e \<Rightarrow> Some (Inl e)
      | Inr hdr \<Rightarrow>
          let v = rd32 hdr 0;
              flds = (if v = 1 then Some (be32 hdr 128, be32 hdr 132, be32 hdr 136)
                      else if v = 2 \<or> v = 3 then Some (be32 hdr 116, be32 hdr 120, be32 hdr 124)
                      else None)
          in case flds of
               None \<Rightarrow> Some (Inl (- EINVAL))
             | Some (kofs, klen, rofs) \<Rightarrow>
                 if kofs \<noteq> 512 then Some (Inl (- EINVAL))
                 else
                   let ks = 512 + ucast klen;
                       parts = (\<lambda>roff. if \<not> alloc then Inl (- ENOMEM)
                                  else Inr [\<lparr>p_name = ''kernel'', p_offset = 0, p_size = ks\<rparr>,
                                            \<lparr>p_name = ''rootfs'', p_offset = roff, p_size = md_size m - roff\<rparr>])
                   in if ks > md_size m then Some (Inl (- EINVAL))
                      else case mtd_check_rootfs_magic m (ucast rofs) of
                             Inr _ \<Rightarrow> Some (parts (ucast rofs))
                           | Inl _ \<Rightarrow>
                               (case mtd_find_rootfs_from m 0x80000 (md_size m) of
                                  None \<Rightarrow> None
                                | Some (Inl e) \<Rightarrow> Some (Inl e)
                                | Some (Inr (roff, _)) \<Rightarrow> Some (parts roff)))"

section \<open>mtdsplit\_brnimage.c\<close>

text \<open>The bound on the size keeps \<open>rootfs_offset\<close> from wrapping around; no device comes near it.\<close>

function brn_find :: "mtd \<Rightarrow> u64 \<Rightarrow> int \<Rightarrow> u64 \<times> int" where
  "brn_find m off ret =
     (if off < md_size m \<and> md_size m \<le> - 0x400 then
        (case mtd_check_rootfs_magic m off of Inr _ \<Rightarrow> (off, 0) | Inl e \<Rightarrow> brn_find m (off + 0x400) e)
      else (off, ret))"
  by pat_completeness auto
termination
proof (relation "measure (\<lambda>(m, off, ret). unat (md_size m) - unat off)", goal_cases)
  case (2 m off ret e)
  then have "unat off < unat (md_size m)" "unat (md_size m) \<le> 2 ^ 64 - 0x400"
    by (simp_all add: word_less_unat word_le_unat)
  then show ?case by (simp add: unat_word_ariths)
qed simp

declare brn_find.simps [simp del]

definition mtdsplit_parse_brnimage :: "mtd \<Rightarrow> bool \<Rightarrow> mtd_part list result" where
  "mtdsplit_parse_brnimage m alloc =
     (let (roff, ret) = brn_find m 0 0
      in if ret \<noteq> 0 then Inl ret
         else if roff \<ge> md_size m then Inl (- EINVAL)
         else case read_hdr m (roff - 12) 4 of
                Inl e \<Rightarrow> Inl e
              | Inr buf \<Rightarrow>
                  let ks = (ucast (rd32 buf 0) :: u64)
                  in if ks > roff - 12 then Inl (- EINVAL)
                     else if ks < roff - (0x400 + 12) then Inl (- EINVAL)
                     else if \<not> alloc then Inl (- ENOMEM)
                     else Inr [\<lparr>p_name = ''kernel'', p_offset = 0, p_size = ks\<rparr>,
                               \<lparr>p_name = ''rootfs'', p_offset = roff, p_size = md_size m - roff - 12\<rparr>])"

section \<open>mtdsplit\_seil.c\<close>

text \<open>
  \<open>seil_bootdev_is_active\<close>: \<open>devnm\<close> is the result of reading the device tree property and
  \<open>env\<close> the environment partition, absent or unreadable as \<open>None\<close>.
\<close>

definition seil_bootdev_name :: bytes where
  "seil_bootdev_name = [66, 79, 79, 84, 68, 69, 86]"

function seil_env_loop :: "bytes \<Rightarrow> bytes \<Rightarrow> bool" where
  "seil_env_loop devnm bs =
     (let s = takeWhile (\<lambda>c. c \<noteq> 0) bs; var = takeWhile (\<lambda>c. c \<noteq> 61) s;
          v = drop (length var + 1) s
      in if s = [] \<or> 61 \<notin> set s then False
         else if var = seil_bootdev_name then devnm = v
         else seil_env_loop devnm (drop (length s + 1) bs))"
  by pat_completeness auto
termination
proof (relation "measure (\<lambda>(devnm, bs). length bs)", goal_cases)
  case (2 devnm bs s var v)
  then have "bs \<noteq> []" by auto
  then show ?case by simp
qed simp

declare seil_env_loop.simps [simp del]

definition seil_bootdev_is_active :: "bytes result \<Rightarrow> bytes option \<Rightarrow> bool" where
  "seil_bootdev_is_active devnm env =
     (case devnm of
        Inl e \<Rightarrow> e = - EINVAL
      | Inr nm \<Rightarrow> (case env of None \<Rightarrow> False | Some bs \<Rightarrow> seil_env_loop nm bs))"

definition mtdsplit_parse_seil_fw ::
    "mtd \<Rightarrow> bool \<Rightarrow> bytes result \<Rightarrow> bytes option \<Rightarrow> u64 result \<Rightarrow> mtd_part list result option" where
  "mtdsplit_parse_seil_fw m alloc devnm env dt_id =
     (if \<not> seil_bootdev_is_active devnm env then Some (Inl (- ENODEV))
      else case dt_id of
             Inl e \<Rightarrow> Some (Inl e)
           | Inr id' \<Rightarrow>
               if \<not> alloc then Some (Inl (- ENOMEM))
               else case read_hdr m 0 144 of
                      Inl e \<Rightarrow> Some (Inl e)
                    | Inr hdr \<Rightarrow>
                        if be64 hdr 0 \<noteq> id' \<or> be32 hdr 92 \<noteq> 1 then Some (Inl (- ENODEV))
                        else
                          let image_size = (144 + ucast (be32 hdr 140) :: u64)
                          in if image_size > md_size m then Some (Inl (- EINVAL))
                             else case mtd_find_rootfs_from m image_size (md_size m) of
                                    None \<Rightarrow> None
                                  | Some (Inl _) \<Rightarrow> Some (Inl (- ENODEV))
                                  | Some (Inr (roff, _)) \<Rightarrow>
                                      if md_size m - roff = 0 then Some (Inl (- ENODEV))
                                      else Some (split_at_offset m True ''kernel'' 0 ''rootfs'' roff))"

section \<open>mtdsplit\_elf.c\<close>

definition mtdsplit_elf_read_mtd :: "mtd \<Rightarrow> u64 \<Rightarrow> nat \<Rightarrow> bytes result" where
  "mtdsplit_elf_read_mtd m offset len = read_hdr m offset len"

text \<open>The walk over the program headers: \<open>sect\<close> is the end of the section a header describes.\<close>

partial_function (option) elf_ph_loop ::
    "mtd \<Rightarrow> nat \<Rightarrow> (bytes \<Rightarrow> u64) \<Rightarrow> u64 \<Rightarrow> u64 \<Rightarrow> u64 \<Rightarrow> u64 \<Rightarrow> u64 result option" where
  "elf_ph_loop m phlen sect step tend ph_entry sz =
     (if ph_entry < tend then
        (case mtdsplit_elf_read_mtd m ph_entry phlen of
           Inl e \<Rightarrow> Some (Inl e)
         | Inr ph \<Rightarrow> elf_ph_loop m phlen sect step tend (ph_entry + step) (max sz (sect ph)))
      else Some (Inr sz))"

declare elf_ph_loop.simps [code]

text \<open>In the 32-bit header the sums have 32 bits before they are widened to \<open>size_t\<close>.\<close>

definition elf32_determine_size :: "mtd \<Rightarrow> bytes \<Rightarrow> u64 result option" where
  "elf32_determine_size m hdr =
     (let phoff = rd32 hdr 28; shoff = rd32 hdr 32;
          phentsize = cpu16 hdr 42; phnum = cpu16 hdr 44; shentsize = cpu16 hdr 46; shnum = cpu16 hdr 48
      in if shoff > 0 then Some (Inr (ucast (shoff + ucast shentsize * ucast shnum)))
         else elf_ph_loop m 28 (\<lambda>ph. ucast (rd32 ph 4 + rd32 ph 16)) (ucast phentsize)
                (ucast (phoff + ucast phentsize * ucast phnum)) (ucast phoff) 0)"

definition elf64_determine_size :: "mtd \<Rightarrow> bytes \<Rightarrow> u64 result option" where
  "elf64_determine_size m hdr =
     (let phoff = rd64 hdr 32; shoff = rd64 hdr 40;
          phentsize = cpu16 hdr 54; phnum = cpu16 hdr 56; shentsize = cpu16 hdr 58; shnum = cpu16 hdr 60
      in if shoff > 0 then Some (Inr (shoff + scast (ucast shentsize * ucast shnum :: u32)))
         else elf_ph_loop m 48 (\<lambda>ph. rd64 ph 8 + rd64 ph 32) (ucast phentsize)
                (phoff + scast (ucast phentsize * ucast phnum :: u32)) phoff 0)"

definition mtdsplit_parse_elf :: "mtd \<Rightarrow> bool \<Rightarrow> mtd_part list result option" where
  "mtdsplit_parse_elf m alloc =
     (case mtdsplit_elf_read_mtd m 0 64 of
        Inl e \<Rightarrow> Some (Inl e)
      | Inr hdr \<Rightarrow>
          if be32 hdr 0 \<noteq> 0x7f454c46 then Some (Inl (- EINVAL))
          else case (if rd8 hdr 4 = 1 then elf32_determine_size m hdr
                     else if rd8 hdr 4 = 2 then elf64_determine_size m hdr
                     else Some (Inl (- EINVAL))) of
                 None \<Rightarrow> None
               | Some (Inl e) \<Rightarrow> Some (Inl e)
               | Some (Inr loader_size) \<Rightarrow>
                   (case mtd_find_rootfs_from m loader_size (md_size m) of
                      None \<Rightarrow> None
                    | Some (Inl e) \<Rightarrow> Some (Inl e)
                    | Some (Inr (roff, ty)) \<Rightarrow>
                        if roff = md_size m then Some (Inl (- ENODEV))
                        else Some (split_at_offset m alloc ''kernel'' 0 (rootfs_name ty) roff)))"

section \<open>mtdsplit\_cfe\_bootfs.c\<close>

text \<open>
  The walk over the JFFS2 nodes of the bootfs computes an end that the parser then does not
  use: the search starts at the second erase block. The walk itself may not end (a node of
  length 0).
\<close>

partial_function (option) cfe_bootfs_walk :: "mtd \<Rightarrow> u64 \<Rightarrow> u64 option" where
  "cfe_bootfs_walk m offset =
     (case read_hdr m offset 40 of
        Inl _ \<Rightarrow> Some offset
      | Inr node \<Rightarrow>
          if cpu16 node 0 \<noteq> 0x1985 then Some offset
          else
            let next = (offset + ucast (rd32 node 4) + 3) AND NOT 3
            in if next < md_size m then cfe_bootfs_walk m next else Some next)"

declare cfe_bootfs_walk.simps [code]

definition mtdsplit_cfe_bootfs_parse :: "mtd \<Rightarrow> string \<Rightarrow> bool \<Rightarrow> mtd_part list result option" where
  "mtdsplit_cfe_bootfs_parse m name alloc =
     (if name \<noteq> ''firmware'' then Some (Inl (- EINVAL))
      else case cfe_bootfs_walk m 0 of
             None \<Rightarrow> None
           | Some _ \<Rightarrow> split_found m alloc ''bootfs'' rootfs_name (ucast (md_erasesize m)))"

section \<open>Erase block arithmetic\<close>

text \<open>The geometry of a real device: erase blocks are not empty and offsets do not wrap.\<close>

definition mtd_geom :: "mtd \<Rightarrow> bool" where
  "mtd_geom m \<longleftrightarrow> md_erasesize m \<noteq> 0 \<and> unat (md_size m) + unat (md_erasesize m) < 2 ^ 64"

lemma unat_rounddown_eb:
  "unat (rounddown_eb m off) =
     (if unat off mod unat (md_erasesize m) = 0 then unat off
      else unat off div unat (md_erasesize m) * unat (md_erasesize m) mod 2 ^ 32)"
proof -
  let ?e = "unat (md_erasesize m)" and ?o = "unat off"
  have md: "off mod ucast (md_erasesize m) = 0 \<longleftrightarrow> ?o mod ?e = 0"
    by (simp add: word_unat_eq_iff unat_mod)
  have "unat (mtd_div_by_eb m off) = ?o div ?e mod 2 ^ 32"
    unfolding mtd_div_by_eb_def by (simp add: unsigned_ucast_eq unat_div take_bit_eq_mod)
  then have "unat (ucast (mtd_div_by_eb m off * md_erasesize m) :: u64) = (?o div ?e mod 2 ^ 32 * ?e) mod 2 ^ 32"
    by (simp add: unat_word_ariths)
  then show ?thesis unfolding rounddown_eb_def md by (simp add: mod_mult_left_eq)
qed

text \<open>The offsets that are rounded exactly: those below 4 GiB and the aligned ones.\<close>

definition eb_exact :: "mtd \<Rightarrow> u64 \<Rightarrow> bool" where
  "eb_exact m off \<longleftrightarrow> unat off < 2 ^ 32 \<or> unat off mod unat (md_erasesize m) = 0"

lemma unat_next_eb_raw:
  assumes "mtd_geom m" "off < md_size m"
  shows "unat (mtd_next_eb m off) = unat (rounddown_eb m off) + unat (md_erasesize m)"
proof -
  let ?e = "unat (md_erasesize m)" and ?o = "unat off"
  have "unat (rounddown_eb m off) \<le> ?o"
  proof -
    have "?o div ?e * ?e mod 2 ^ 32 \<le> ?o div ?e * ?e" by (rule mod_less_eq_dividend)
    also have "\<dots> \<le> ?o" by simp
    finally show ?thesis unfolding unat_rounddown_eb by (simp only: split: if_split) simp
  qed
  moreover have "?o < unat (md_size m)" using assms(2) by (simp add: word_less_unat)
  ultimately have "unat (rounddown_eb m off) + ?e < 2 ^ 64" using assms(1) unfolding mtd_geom_def by linarith
  then show ?thesis unfolding mtd_next_eb_def by (simp add: unat_word_ariths)
qed

lemma unat_next_eb:
  assumes "mtd_geom m" "off < md_size m" "eb_exact m off"
  shows "unat (mtd_next_eb m off) = (unat off div unat (md_erasesize m) + 1) * unat (md_erasesize m)"
    "unat off < unat (mtd_next_eb m off)" "unat (mtd_next_eb m off) \<le> unat off + unat (md_erasesize m)"
    "eb_exact m (mtd_next_eb m off)"
proof -
  let ?e = "unat (md_erasesize m)" and ?o = "unat off"
  have e: "0 < ?e" using assms(1) by (simp add: mtd_geom_def unat_gt_0)
  have le: "?o div ?e * ?e \<le> ?o" by simp
  have "unat (rounddown_eb m off) = ?o div ?e * ?e"
  proof (cases "?o mod ?e = 0")
    case True
    then show ?thesis using div_mult_mod_eq [of ?o ?e] unfolding unat_rounddown_eb by simp
  next
    case False
    then have "?o div ?e * ?e < 2 ^ 32" using assms(3) le unfolding eb_exact_def by linarith
    then have "?o div ?e * ?e mod 2 ^ 32 = ?o div ?e * ?e" by (rule mod_less)
    then show ?thesis using False unfolding unat_rounddown_eb by (simp only: if_False)
  qed
  then have n: "unat (mtd_next_eb m off) = ?o div ?e * ?e + ?e"
    by (simp add: unat_next_eb_raw [OF assms(1,2)])
  then show s: "unat (mtd_next_eb m off) = (?o div ?e + 1) * ?e" by simp
  have "?o mod ?e < ?e" using e by simp
  then show "?o < unat (mtd_next_eb m off)"
    using n div_mult_mod_eq [of ?o ?e] by linarith
  show "unat (mtd_next_eb m off) \<le> ?o + ?e" using n le by simp
  show "eb_exact m (mtd_next_eb m off)" unfolding eb_exact_def s by simp
qed

text \<open>The offsets a search from \<open>from\<close> looks at: \<open>from\<close> and every erase block boundary behind it.\<close>

definition search_point :: "mtd \<Rightarrow> u64 \<Rightarrow> u64 \<Rightarrow> bool" where
  "search_point m from off \<longleftrightarrow> off = from \<or> (from < off \<and> unat off mod unat (md_erasesize m) = 0)"

lemma search_point_next:
  assumes "mtd_geom m" "off < md_size m" "eb_exact m off"
  shows "search_point m off x \<longleftrightarrow> x = off \<or> search_point m (mtd_next_eb m off) x"
proof -
  let ?e = "unat (md_erasesize m)" and ?o = "unat off" and ?x = "unat x" and ?n = "unat (mtd_next_eb m off)"
  note n = unat_next_eb [OF assms]
  have e: "0 < ?e" using assms(1) by (simp add: mtd_geom_def unat_gt_0)
  have "?n mod ?e = 0" by (simp add: n(1))
  moreover have "?n \<le> ?x" if lt: "?o < ?x" and md: "?x mod ?e = 0"
  proof -
    obtain k where k: "?x = k * ?e" using md by (metis dvd_def mod_0_imp_dvd mult.commute)
    have "?o div ?e < k" using lt e k by (simp add: div_less_iff_less_mult)
    then have "(?o div ?e + 1) * ?e \<le> k * ?e" by (intro mult_le_mono1) simp
    then show ?thesis by (simp add: n(1) k)
  qed
  ultimately show ?thesis
    using n(2) unfolding search_point_def word_less_unat
    by (metis le_neq_implies_less order_less_trans unsigned_word_eqI)
qed

lemma search_point_ge: "search_point m from off \<Longrightarrow> from \<le> off"
  by (auto simp: search_point_def)

lemma find_rootfs_spec:
  assumes "mtd_geom m" "limit \<le> md_size m" "eb_exact m from"
  shows "\<exists>r. mtd_find_rootfs_from m from limit = Some r \<and>
    (case r of
       Inr (off, ty) \<Rightarrow> search_point m from off \<and> off < limit \<and> mtd_check_rootfs_magic m off = Inr ty \<and>
         (\<forall>x. search_point m from x \<and> x < off \<longrightarrow> (\<exists>e. mtd_check_rootfs_magic m x = Inl e))
     | Inl err \<Rightarrow> err = - ENODEV \<and>
         (\<forall>x. search_point m from x \<and> x < limit \<longrightarrow> (\<exists>e. mtd_check_rootfs_magic m x = Inl e)))"
  using assms(3)
proof (induction "unat limit - unat from" arbitrary: "from" rule: less_induct)
  case less
  show ?case
  proof (cases "from < limit")
    case False
    then show ?thesis
      by (subst mtd_find_rootfs_from.simps) (use search_point_ge in \<open>force simp: not_less\<close>)
  next
    case True
    then have sz: "from < md_size m" using assms(2) by (rule order_less_le_trans)
    show ?thesis
    proof (cases "mtd_check_rootfs_magic m from")
      case (Inr ty)
      with True show ?thesis
        by (subst mtd_find_rootfs_from.simps) (use search_point_ge in \<open>force simp: search_point_def not_less\<close>)
    next
      case (Inl e)
      let ?n = "mtd_next_eb m from"
      have "unat limit - unat ?n < unat limit - unat from"
        using unat_next_eb(2) [OF assms(1) sz less.prems] True by (simp add: word_less_unat)
      from less.hyps [OF this unat_next_eb(4) [OF assms(1) sz less.prems]] obtain r where r: "mtd_find_rootfs_from m ?n limit = Some r"
        "case r of
           Inr (off, ty) \<Rightarrow> search_point m ?n off \<and> off < limit \<and> mtd_check_rootfs_magic m off = Inr ty \<and>
             (\<forall>x. search_point m ?n x \<and> x < off \<longrightarrow> (\<exists>e. mtd_check_rootfs_magic m x = Inl e))
         | Inl err \<Rightarrow> err = - ENODEV \<and>
             (\<forall>x. search_point m ?n x \<and> x < limit \<longrightarrow> (\<exists>e. mtd_check_rootfs_magic m x = Inl e))"
        by blast
      have "mtd_find_rootfs_from m from limit = Some r"
        using True Inl r(1) by (subst mtd_find_rootfs_from.simps) simp
      then show ?thesis
        using r(2) Inl search_point_next [OF assms(1) sz less.prems] by (auto split: sum.splits)
    qed
  qed
qed

text \<open>
  The search ends from any start. An unaligned start from 4 GiB on is thrown back below
  4 GiB plus one erase block; after at most two more steps of that kind the offset is aligned.
\<close>

definition search_returns :: "mtd \<Rightarrow> u64 \<Rightarrow> u64 \<Rightarrow> bool" where
  "search_returns m limit from \<longleftrightarrow> (\<exists>r. mtd_find_rootfs_from m from limit = Some r \<and>
     (\<forall>off ty. r = Inr (off, ty) \<longrightarrow> off < limit \<and> mtd_check_rootfs_magic m off = Inr ty))"

lemma search_returns_step:
  assumes "from < limit \<Longrightarrow> search_returns m limit (mtd_next_eb m from)"
  shows "search_returns m limit from"
proof (cases "from < limit")
  case False
  then show ?thesis unfolding search_returns_def by (subst mtd_find_rootfs_from.simps) simp
next
  case True
  with assms show ?thesis
    unfolding search_returns_def
    by (subst mtd_find_rootfs_from.simps) (cases "mtd_check_rootfs_magic m from", simp_all)
qed

lemma search_returns_exact:
  assumes "mtd_geom m" "limit \<le> md_size m" "eb_exact m from"
  shows "search_returns m limit from"
  unfolding search_returns_def
  by (rule exE [OF find_rootfs_spec [OF assms]], rule exI, rule conjI, erule conjunct1) auto

lemma next_eb_wrapped:
  assumes "mtd_geom m" "off < md_size m" "\<not> eb_exact m off"
  shows "unat (mtd_next_eb m off) =
    unat off div unat (md_erasesize m) * unat (md_erasesize m) mod 2 ^ 32 + unat (md_erasesize m)"
  using assms(3) unfolding unat_next_eb_raw [OF assms(1,2)] unat_rounddown_eb eb_exact_def by simp

lemma find_rootfs_returns:
  assumes geom: "mtd_geom m" and lim: "limit \<le> md_size m"
  shows "search_returns m limit from"
proof -
  let ?e = "unat (md_erasesize m)"
  have e: "0 < ?e" "?e < 2 ^ 32" using geom unat_less_2p [of "md_erasesize m"] by (simp_all add: mtd_geom_def unat_gt_0)
  have ex: "search_returns m limit x" if "eb_exact m x" for x
    using search_returns_exact [OF geom lim that] .
  have next_eb: "unat (mtd_next_eb m x) = unat x div ?e * ?e mod 2 ^ 32 + ?e" if "x < limit" "\<not> eb_exact m x" for x
    using next_eb_wrapped [OF geom order_less_le_trans [OF that(1) lim] that(2)] .
  have low: "search_returns m limit z" if z: "?e \<le> unat z" "unat z < 2 * ?e" for z
  proof (rule search_returns_step)
    assume lt: "z < limit"
    show "search_returns m limit (mtd_next_eb m z)"
    proof (cases "eb_exact m z")
      case True
      then show ?thesis using unat_next_eb(4) [OF geom order_less_le_trans [OF lt lim]] by (intro ex)
    next
      case False
      have "unat z div ?e = 1" using z by (simp add: div_nat_eqI)
      then have "unat (mtd_next_eb m z) = 2 * ?e" using next_eb [OF lt False] e by simp
      then show ?thesis by (intro ex) (simp add: eb_exact_def)
    qed
  qed
  have mid: "search_returns m limit y" if y: "unat y < 2 ^ 32 + ?e" for y
  proof (rule search_returns_step)
    assume lt: "y < limit"
    show "search_returns m limit (mtd_next_eb m y)"
    proof (cases "eb_exact m y")
      case True
      then show ?thesis using unat_next_eb(4) [OF geom order_less_le_trans [OF lt lim]] by (intro ex)
    next
      case False
      let ?q = "unat y div ?e * ?e"
      have q: "?q \<le> unat y" by simp
      show ?thesis
      proof (cases "?q < 2 ^ 32")
        case True
        then have "unat (mtd_next_eb m y) = ?q + ?e" unfolding next_eb [OF lt False] by (simp only: mod_less)
        then show ?thesis by (intro ex) (simp add: eb_exact_def)
      next
        case wrap: False
        then have "?q mod 2 ^ 32 = ?q - 2 ^ 32"
          using q y e by (simp only: le_mod_geq not_less) (rule mod_less, linarith)
        then show ?thesis using next_eb [OF lt False] wrap q y by (intro low) linarith+
      qed
    qed
  qed
  show ?thesis
  proof (rule search_returns_step)
    assume lt: "from < limit"
    show "search_returns m limit (mtd_next_eb m from)"
    proof (cases "eb_exact m from")
      case True
      then show ?thesis using unat_next_eb(4) [OF geom order_less_le_trans [OF lt lim]] by (intro ex)
    next
      case False
      have "unat from div ?e * ?e mod 2 ^ 32 < 2 ^ 32" by simp
      then show ?thesis using next_eb [OF lt False] by (intro mid) linarith
    qed
  qed
qed

text \<open>
  Devices with erase blocks of 64 bytes: an LZMA kernel followed by a squashfs; a squashfs
  followed by a uImage that ends with the device; the same with a uImage one byte larger
  than what is left of the device.
\<close>

definition mem_mtd :: "u64 \<Rightarrow> bytes \<Rightarrow> mtd" where
  "mem_mtd sz mem = \<lparr>md_size = sz, md_erasesize = 64,
                  md_read = (\<lambda>off n. (0, take n (drop (unat off) mem)))\<rparr>"

definition squashfs_block :: bytes where
  "squashfs_block = [0x68, 0x73, 0x71, 0x73] @ replicate 60 0"

definition uimage_block :: "u8 \<Rightarrow> bytes" where
  "uimage_block sz = [0x27, 0x05, 0x19, 0x56] @ replicate 11 0 @ [sz] @ replicate 12 0 @ [5, 0, 2] @ replicate 33 0"

definition lzma_dev :: mtd where
  "lzma_dev = mem_mtd 128 ([0x5d, 0, 0, 0x80, 0] @ replicate 59 0 @ squashfs_block)"

definition uimage_dev :: mtd where
  "uimage_dev = mem_mtd 192 (squashfs_block @ uimage_block 64 @ replicate 64 0)"

definition oversize_dev :: mtd where
  "oversize_dev = mem_mtd 128 (squashfs_block @ uimage_block 1)"

abbreviation (input) default_dt :: uimage_dt where
  "default_dt \<equiv> uimage_parse_dt None"

lemma lzma_dev_geom: "mtd_geom lzma_dev" "md_size lzma_dev = 128"
  by (simp_all add: mtd_geom_def lzma_dev_def mem_mtd_def squashfs_block_def)

lemma uimage_dev_geom: "mtd_geom uimage_dev" "md_size uimage_dev = 192"
  by (simp_all add: mtd_geom_def uimage_dev_def mem_mtd_def squashfs_block_def uimage_block_def)

lemma oversize_dev_geom: "mtd_geom oversize_dev" "md_size oversize_dev = 128"
  by (simp_all add: mtd_geom_def oversize_dev_def mem_mtd_def squashfs_block_def uimage_block_def)

text \<open>
  C21. From a start that lies below 4 GiB or on an erase block boundary, \<open>mtd_find_rootfs_from\<close>
  ends and finds the first offset with a root file system magic among the start and the erase
  block boundaries behind it, below the limit; it reports \<open>-ENODEV\<close> exactly when none of them
  has one. (From any other start the 32-bit rounding makes the search jump back.)
\<close>

theorem mtd_find_rootfs_from_spec:
  assumes "mtd_geom m" "limit \<le> md_size m" "eb_exact m from"
  shows "\<exists>r. mtd_find_rootfs_from m from limit = Some r \<and>
    (case r of
       Inr (off, ty) \<Rightarrow> search_point m from off \<and> off < limit \<and> mtd_check_rootfs_magic m off = Inr ty \<and>
         (\<forall>x. search_point m from x \<and> x < off \<longrightarrow> (\<exists>e. mtd_check_rootfs_magic m x = Inl e))
     | Inl err \<Rightarrow> err = - ENODEV \<and>
         (\<forall>x. search_point m from x \<and> x < limit \<longrightarrow> (\<exists>e. mtd_check_rootfs_magic m x = Inl e)))"
  using assms by (rule find_rootfs_spec)

theorem mtd_find_rootfs_from_spec_witness:
  "\<exists>off ty. mtd_find_rootfs_from lzma_dev 13 128 = Some (Inr (off, ty)) \<and> search_point lzma_dev 13 off"
proof -
  have "mtd_find_rootfs_from lzma_dev 13 128 = Some (Inr (64, PART_SQUASHFS))" by code_simp
  then show ?thesis
    using mtd_find_rootfs_from_spec [OF lzma_dev_geom(1), of 128 13] by (simp add: lzma_dev_geom eb_exact_def)
qed

lemma find_rootfs_found:
  assumes "mtd_geom m" "mtd_find_rootfs_from m from (md_size m) = Some (Inr (off, ty))"
  shows "off < md_size m" "mtd_check_rootfs_magic m off = Inr ty" "eb_exact m from \<Longrightarrow> from \<le> off"
proof -
  show "off < md_size m" "mtd_check_rootfs_magic m off = Inr ty"
    using find_rootfs_returns [OF assms(1) order_refl, of "from"] assms(2) by (auto simp: search_returns_def)
  show "from \<le> off" if "eb_exact m from"
    using find_rootfs_spec [OF assms(1) order_refl that] assms(2) search_point_ge [of m "from" off] by auto
qed

section \<open>What the parsers return\<close>

text \<open>Two partitions that tile the device: one from 0 to \<open>r\<close>, one from \<open>r\<close> to the end.\<close>

definition tiles :: "mtd \<Rightarrow> mtd_part list \<Rightarrow> bool" where
  "tiles m parts \<longleftrightarrow> (\<exists>k n r. r < md_size m \<and>
     parts = [\<lparr>p_name = k, p_offset = 0, p_size = r\<rparr>, \<lparr>p_name = n, p_offset = r, p_size = md_size m - r\<rparr>])"

lemma split_at_tiles: "split_at_offset m alloc k 0 n r = Inr parts \<Longrightarrow> r < md_size m \<Longrightarrow> tiles m parts"
  by (auto simp: split_at_offset_def tiles_def split: if_splits)

lemma split_found_tiles:
  "mtd_geom m \<Longrightarrow> split_found m alloc k n from = Some (Inr parts) \<Longrightarrow> tiles m parts"
  by (auto simp: split_found_def split: option.splits sum.splits intro: split_at_tiles find_rootfs_found(1))

lemma elf_tiles:
  assumes "mtd_geom m" "mtdsplit_parse_elf m alloc = Some (Inr parts)"
  shows "tiles m parts"
proof (cases "mtdsplit_elf_read_mtd m 0 64")
  case (Inl e)
  with assms(2) show ?thesis by (simp add: mtdsplit_parse_elf_def)
next
  case (Inr hdr)
  define sz where "sz = (if rd8 hdr 4 = 1 then elf32_determine_size m hdr
     else if rd8 hdr 4 = 2 then elf64_determine_size m hdr else Some (Inl (- EINVAL)))"
  show ?thesis
    using assms(2) Inr unfolding mtdsplit_parse_elf_def
    by (simp add: sz_def [symmetric] split: option.splits sum.splits if_splits prod.splits)
      (auto intro: split_at_tiles find_rootfs_found(1) [OF assms(1)])
qed

text \<open>
  C22. The parsers for LZMA, WRGG, MiNOR, SEIL, ELF and CFE bootfs images: whenever one of
  them returns partitions, the first runs from 0 to the root file system it found and the
  second from there to the end of the device, so they do not overlap, leave no gap and lie
  inside the device (MiNOR may also return none).
\<close>

theorem mtdsplit_partitions_tile_device:
  assumes "mtd_geom m"
  shows "(mtdsplit_parse_lzma m alloc = Some (Inr parts) \<longrightarrow> tiles m parts) \<and>
    (mtdsplit_parse_wrgg m alloc = Some (Inr parts) \<longrightarrow> tiles m parts) \<and>
    (mtdsplit_parse_minor m alloc = Some (Inr parts) \<longrightarrow> parts = [] \<or> tiles m parts) \<and>
    (mtdsplit_parse_seil_fw m alloc devnm env dt_id = Some (Inr parts) \<longrightarrow> tiles m parts) \<and>
    (mtdsplit_parse_elf m alloc = Some (Inr parts) \<longrightarrow> tiles m parts) \<and>
    (mtdsplit_cfe_bootfs_parse m name alloc = Some (Inr parts) \<longrightarrow> tiles m parts)"
proof (intro conjI impI)
  assume "mtdsplit_parse_lzma m alloc = Some (Inr parts)"
  then show "tiles m parts"
    by (auto simp: mtdsplit_parse_lzma_def split: sum.splits if_splits intro: split_found_tiles [OF assms])
next
  assume "mtdsplit_parse_wrgg m alloc = Some (Inr parts)"
  then show "tiles m parts"
    by (auto simp: mtdsplit_parse_wrgg_def Let_def split: sum.splits if_splits intro: split_found_tiles [OF assms])
next
  assume "mtdsplit_parse_minor m alloc = Some (Inr parts)"
  then show "parts = [] \<or> tiles m parts"
    by (auto simp: mtdsplit_parse_minor_def split: sum.splits if_splits option.splits intro: split_found_tiles [OF assms])
next
  assume "mtdsplit_parse_seil_fw m alloc devnm env dt_id = Some (Inr parts)"
  then show "tiles m parts"
    by (auto simp: mtdsplit_parse_seil_fw_def Let_def split: sum.splits if_splits option.splits prod.splits
        intro: split_at_tiles find_rootfs_found(1) [OF assms])
next
  assume "mtdsplit_parse_elf m alloc = Some (Inr parts)"
  then show "tiles m parts"
    by (rule elf_tiles [OF assms])
next
  assume "mtdsplit_cfe_bootfs_parse m name alloc = Some (Inr parts)"
  then show "tiles m parts"
    by (auto simp: mtdsplit_cfe_bootfs_parse_def split: option.splits if_splits intro: split_found_tiles [OF assms])
qed

theorem mtdsplit_partitions_tile_device_witness: "\<exists>parts. mtdsplit_parse_lzma lzma_dev True = Some (Inr parts) \<and> tiles lzma_dev parts"
proof -
  have "mtdsplit_parse_lzma lzma_dev True = Some (Inr [\<lparr>p_name = ''kernel'', p_offset = 0, p_size = 64\<rparr>,
      \<lparr>p_name = ''rootfs'', p_offset = 64, p_size = 64\<rparr>])"
    by code_simp
  then show ?thesis
    using mtdsplit_partitions_tile_device [OF lzma_dev_geom(1), of True] by blast
qed

section \<open>The scan for an image\<close>

lemma eb_scan_spec:
  assumes "mtd_geom m"
  shows "\<exists>o' s'. eb_scan m cand off sz = Some (o', s') \<and> off \<le> o' \<and>
    (o' < md_size m \<longrightarrow> cand o' = Some s' \<and> o' + s' \<le> md_size m)"
proof (induction "unat (md_size m) - unat off" arbitrary: off sz rule: less_induct)
  case less
  show ?case
  proof (cases "off < md_size m")
    case False
    then show ?thesis by (subst eb_scan.simps) auto
  next
    case True
    let ?n = "off + ucast (md_erasesize m)"
    have "unat off + unat (md_erasesize m) < 2 ^ 64" "0 < unat (md_erasesize m)"
      using True assms by (auto simp: mtd_geom_def word_less_unat unat_gt_0)
    then have n: "unat ?n = unat off + unat (md_erasesize m)" "unat off < unat ?n"
      by (simp_all add: unat_word_ariths)
    then have "unat (md_size m) - unat ?n < unat (md_size m) - unat off"
      using True by (simp add: word_less_unat)
    note ih = less.hyps [OF this]
    have le: "off \<le> ?n" using n(2) by (simp add: word_le_unat)
    show ?thesis
    proof (cases "cand off")
      case None
      with True have "eb_scan m cand off sz = eb_scan m cand ?n 0" by (subst eb_scan.simps) simp
      with ih [of 0] show ?thesis using order_trans [OF le] by auto
    next
      case (Some s)
      show ?thesis
      proof (cases "off + s > md_size m")
        case big: True
        with True Some have "eb_scan m cand off sz = eb_scan m cand ?n s" by (subst eb_scan.simps) simp
        with ih [of s] show ?thesis using order_trans [OF le] by auto
      next
        case False
        with True Some show ?thesis by (subst eb_scan.simps) (auto simp: not_less)
      qed
    qed
  qed
qed

definition inside :: "mtd \<Rightarrow> mtd_part \<Rightarrow> bool" where
  "inside m p \<longleftrightarrow> unat (p_offset p) + unat (p_size p) \<le> unat (md_size m)"

definition disjoint_parts :: "mtd_part \<Rightarrow> mtd_part \<Rightarrow> bool" where
  "disjoint_parts p q \<longleftrightarrow> unat (p_offset p) + unat (p_size p) \<le> unat (p_offset q) \<or>
     unat (p_offset q) + unat (p_size q) \<le> unat (p_offset p)"

lemma image_split_ends:
  assumes "mtd_geom m"
  shows "\<exists>r. image_split m off sz = Some r"
proof -
  obtain r where r: "mtd_find_rootfs_from m sz (md_size m) = Some r"
    using find_rootfs_returns [OF assms order_refl, of sz] by (auto simp: search_returns_def)
  show ?thesis
    unfolding image_split_def by (auto simp: r split: sum.splits)
qed

lemma image_split_parts:
  assumes geom: "mtd_geom m" and split: "image_split m off sz = Some (Inr parts)"
    and fit: "off < md_size m \<Longrightarrow> unat off + unat sz \<le> unat (md_size m)"
  shows "\<exists>p q. parts = [p, q] \<and> disjoint_parts p q \<and>
    ((\<forall>r \<in> set parts. inside m r) \<longleftrightarrow> off < md_size m \<or> off = 0)"
proof (cases "off = 0")
  case True
  from split obtain roff ty where f: "mtd_find_rootfs_from m sz (md_size m) = Some (Inr (roff, ty))"
    and parts: "parts = [\<lparr>p_name = ''kernel'', p_offset = 0, p_size = roff\<rparr>,
                     \<lparr>p_name = rootfs_name ty, p_offset = roff, p_size = md_size m - roff\<rparr>]"
    by (auto simp: image_split_def True split: option.splits sum.splits if_splits)
  have "roff < md_size m" by (rule find_rootfs_found(1) [OF geom f])
  then have "unat (md_size m - roff) = unat (md_size m) - unat roff" "unat roff \<le> unat (md_size m)"
    by (simp_all add: unat_sub word_less_unat less_imp_le)
  then show ?thesis
    using \<open>roff < md_size m\<close>
    unfolding parts by (simp add: True inside_def disjoint_parts_def)
next
  case False
  from split False obtain ty where sz: "sz \<noteq> 0"
    and parts: "parts = [\<lparr>p_name = rootfs_name ty, p_offset = 0, p_size = off\<rparr>,
                     \<lparr>p_name = ''kernel'', p_offset = off, p_size = sz\<rparr>]"
    by (auto simp: image_split_def split: option.splits sum.splits if_splits)
  have "0 < unat sz" using sz by (simp add: unat_gt_0)
  then have "unat off + unat sz \<le> unat (md_size m) \<longleftrightarrow> off < md_size m"
    using fit by (cases "off < md_size m") (simp_all add: word_less_unat)
  moreover have "off < md_size m \<Longrightarrow> unat off \<le> unat (md_size m)"
    by (simp add: word_less_unat)
  ultimately show ?thesis
    unfolding parts using False by (auto simp: inside_def disjoint_parts_def)
qed

lemma uimage_candidate_sum:
  assumes "uimage_candidate m dt off = Some s"
  shows "\<exists>n. s = 64 + ucast (n :: u32) + ucast (dt_header_offset dt) + scast (dt_extralen dt)"
  using assms unfolding uimage_candidate_def Let_def
  by (simp split: sum.splits if_splits) (rule exI, rule sym, assumption)

lemma uint_2p_31: "uint (2 ^ 31 :: u32) = 2 ^ 31"
  by simp

lemma scast_nonneg: "(x :: u32) < 2 ^ 31 \<Longrightarrow> scast x = (ucast x :: u64)"
proof -
  assume "x < 2 ^ 31"
  then have "uint x < 2 ^ 31" unfolding word_less_def by (simp only: uint_2p_31)
  then have "sint x = uint x" by (rule sint_small)
  then show ?thesis by (simp only: scast_eq ucast_eq)
qed

lemma unat_sum4:
  fixes a b c :: u32
  shows "unat (64 + ucast a + ucast b + ucast c :: u64) = 64 + unat a + unat b + unat c"
proof -
  have "unat a < 2 ^ 32" "unat b < 2 ^ 32" "unat c < 2 ^ 32"
    using unat_less_2p [of a] unat_less_2p [of b] unat_less_2p [of c] by simp_all
  then have "64 + unat a + unat b + unat c < 2 ^ 64" by simp
  then show ?thesis
    by (simp add: unat_word_ariths(1) mod_add_left_eq)
qed

lemma uimage_candidate_small:
  assumes "uimage_candidate m dt off = Some s" "dt_extralen dt < 2 ^ 31"
  shows "unat s < 2 ^ 34"
proof -
  obtain n :: u32 where s: "s = 64 + ucast n + ucast (dt_header_offset dt) + scast (dt_extralen dt)"
    using uimage_candidate_sum [OF assms(1)] by blast
  have "unat n < 2 ^ 32" "unat (dt_header_offset dt) < 2 ^ 32" "unat (dt_extralen dt) < 2 ^ 32"
    using unat_less_2p [of n] unat_less_2p [of "dt_header_offset dt"] unat_less_2p [of "dt_extralen dt"] by simp_all
  then show ?thesis
    unfolding s scast_nonneg [OF assms(2)] unat_sum4 by simp
qed

text \<open>
  C23. The uImage parser always ends. When it returns partitions there are two of them,
  they do not overlap, and they lie inside the device exactly when the scan for the header
  stopped inside the device. (When the last erase block holds a header whose size exceeds
  the device, the size found there is kept and the kernel is placed behind the end.)
\<close>

theorem mtdsplit_parse_uimage_parts:
  assumes geom: "mtd_geom m" and small: "unat (md_size m) < 2 ^ 63" "dt_extralen dt < 2 ^ 31"
    and size: "0 < md_size m"
  shows "\<exists>r. mtdsplit_parse_uimage m dt alloc = Some r \<and>
    (\<forall>parts. r = Inr parts \<longrightarrow> (\<exists>p q. parts = [p, q] \<and> disjoint_parts p q \<and>
       (\<exists>off sz. eb_scan m (uimage_candidate m dt) 0 0 = Some (off, sz) \<and>
          ((\<forall>r \<in> set parts. inside m r) \<longleftrightarrow> off < md_size m))))"
proof -
  obtain off sz where scan: "eb_scan m (uimage_candidate m dt) 0 0 = Some (off, sz)"
    and fit: "off < md_size m \<longrightarrow> uimage_candidate m dt off = Some sz \<and> off + sz \<le> md_size m"
    using eb_scan_spec [OF geom, of "uimage_candidate m dt" 0 0] by blast
  have fit': "unat off + unat sz \<le> unat (md_size m)" if "off < md_size m"
  proof -
    have "unat sz < 2 ^ 34"
      using fit that uimage_candidate_small [of m dt off sz] small(2) by blast
    moreover have "unat off < 2 ^ 63"
      using that small(1) by (simp add: word_less_unat)
    ultimately have "unat (off + sz) = unat off + unat sz"
      by (simp add: unat_word_ariths)
    then show ?thesis using fit that by (simp add: word_le_unat)
  qed
  obtain r where r: "image_split m off sz = Some r"
    using image_split_ends [OF geom] by blast
  show ?thesis
  proof (cases alloc)
    case False
    then show ?thesis by (simp add: mtdsplit_parse_uimage_def)
  next
    case True
    have "\<exists>p q. parts = [p, q] \<and> disjoint_parts p q \<and> ((\<forall>r \<in> set parts. inside m r) \<longleftrightarrow> off < md_size m)"
      if "r = Inr parts" for parts
      using image_split_parts [OF geom r [unfolded that] fit'] size by auto
    then show ?thesis
      using True scan r by (auto simp: mtdsplit_parse_uimage_def)
  qed
qed

theorem mtdsplit_parse_uimage_parts_witness:
  "\<exists>p q. mtdsplit_parse_uimage uimage_dev default_dt True = Some (Inr [p, q]) \<and>
     disjoint_parts p q \<and> inside uimage_dev p \<and> inside uimage_dev q"
proof -
  have p: "mtdsplit_parse_uimage uimage_dev default_dt True = Some (Inr [\<lparr>p_name = ''rootfs'', p_offset = 0, p_size = 64\<rparr>,
      \<lparr>p_name = ''kernel'', p_offset = 64, p_size = 128\<rparr>])"
    by code_simp
  have s: "eb_scan uimage_dev (uimage_candidate uimage_dev default_dt) 0 0 = Some (64, 128)"
    by code_simp
  have "dt_extralen default_dt < 2 ^ 31" by (simp add: uimage_parse_dt_def)
  from mtdsplit_parse_uimage_parts [OF uimage_dev_geom(1) _ this, of True] p s show ?thesis
    by (auto simp: uimage_dev_geom)
qed

text \<open>A scan in which no image fits, and the last erase block holds a header of size \<open>s\<close>.\<close>

lemma eb_scan_oversize:
  assumes geom: "mtd_geom m" and e: "e = unat (md_erasesize m)"
    and last_eb: "n * e < unat (md_size m)" "unat (md_size m) \<le> (n + 1) * e"
    and cand: "cand (of_nat (n * e)) = Some s"
    and none: "\<And>i s'. i \<le> n \<Longrightarrow> cand (of_nat (i * e)) = Some s' \<Longrightarrow> md_size m < of_nat (i * e) + s'"
  shows "j \<le> n \<Longrightarrow> eb_scan m cand (of_nat (j * e)) sz = Some (of_nat ((n + 1) * e), s)"
proof (induction "n - j" arbitrary: j sz)
  case 0
  then have j: "j = n" by simp
  have u: "unat (of_nat (n * e) :: u64) = n * e" "unat (of_nat ((n + 1) * e) :: u64) = (n + 1) * e"
    using geom last_eb unfolding mtd_geom_def e by (intro unat_of_nat_small; simp)+
  have lt: "of_nat (n * e) < md_size m" "\<not> of_nat ((n + 1) * e) < md_size m"
    unfolding word_less_unat u using last_eb by simp_all
  have nx: "of_nat (n * e) + ucast (md_erasesize m) = (of_nat ((n + 1) * e) :: u64)"
    by (simp add: e)
  have "eb_scan m cand (of_nat (n * e)) sz = eb_scan m cand (of_nat ((n + 1) * e)) s"
    using lt(1) cand none [of n s] unfolding nx [symmetric] by (subst eb_scan.simps) simp
  also have "\<dots> = Some (of_nat ((n + 1) * e), s)"
    using lt(2) by (subst eb_scan.simps) (simp only: if_False)
  finally show ?case unfolding j .
next
  case (Suc x)
  then have j: "j < n" "x = n - Suc j" by simp_all
  have "j * e < unat (md_size m)"
    using mult_le_mono1 [of j n e] j(1) last_eb(1) by linarith
  then have lt: "of_nat (j * e) < md_size m"
    using unat_less_2p [of "md_size m"] by (simp only: word_less_unat) (subst unat_of_nat_small, simp_all)
  have nx: "of_nat (j * e) + ucast (md_erasesize m) = (of_nat (Suc j * e) :: u64)"
    by (simp add: e)
  have "\<exists>sz'. eb_scan m cand (of_nat (j * e)) sz = eb_scan m cand (of_nat (Suc j * e)) sz'"
    using lt none [of j] j(1) unfolding nx [symmetric]
    by (subst eb_scan.simps) (cases "cand (of_nat (j * e))", auto)
  then show ?case using Suc.hyps(1) [OF j(2)] j(1) by fastforce
qed

text \<open>
  C26. A header whose size exceeds the device, in the last erase block, is not skipped: when no
  image before it fits and the device starts with a root file system, the uImage parser rejects
  the image but keeps its size, leaves the loop at the end of the last erase block, which is not
  before the end of the device, and returns a kernel partition of that size that starts there.
\<close>

theorem mtdsplit_uimage_oversize:
  assumes "mtd_geom m" "n * unat (md_erasesize m) < unat (md_size m)" "unat (md_size m) \<le> (n + 1) * unat (md_erasesize m)"
    and "uimage_candidate m dt (of_nat (n * unat (md_erasesize m))) = Some s" "s \<noteq> 0"
    and "\<forall>i s'. i \<le> n \<and> uimage_candidate m dt (of_nat (i * unat (md_erasesize m))) = Some s' \<longrightarrow>
      md_size m < of_nat (i * unat (md_erasesize m)) + s'"
    and "mtd_check_rootfs_magic m 0 = Inr ty"
  shows "\<exists>off. mtdsplit_parse_uimage m dt True =
      Some (Inr [\<lparr>p_name = rootfs_name ty, p_offset = 0, p_size = off\<rparr>,
                 \<lparr>p_name = ''kernel'', p_offset = off, p_size = s\<rparr>]) \<and>
    off = of_nat ((n + 1) * unat (md_erasesize m)) \<and> md_size m \<le> off"
proof -
  let ?off = "of_nat ((n + 1) * unat (md_erasesize m)) :: u64"
  have scan: "eb_scan m (uimage_candidate m dt) 0 0 = Some (?off, s)"
    using eb_scan_oversize [where cand = "uimage_candidate m dt" and j = 0 and sz = 0, OF assms(1) refl assms(2-4)] assms(6)
    by simp
  have "unat ?off = (n + 1) * unat (md_erasesize m)"
    using assms(1,2) unfolding mtd_geom_def by (intro unat_of_nat_small) simp
  then have "md_size m \<le> ?off" "?off \<noteq> 0"
    using assms(1,3) by (simp_all only: word_le_unat) (auto simp: mtd_geom_def unat_eq_0 simp flip: unat_eq_0)
  then show ?thesis
    using scan assms(5,7) by (intro exI [of _ ?off]) (simp add: mtdsplit_parse_uimage_def image_split_def del: of_nat_mult of_nat_add)
qed

theorem mtdsplit_uimage_oversize_witness:
  "mtdsplit_parse_uimage oversize_dev default_dt True =
     Some (Inr [\<lparr>p_name = ''rootfs'', p_offset = 0, p_size = 128\<rparr>,
                \<lparr>p_name = ''kernel'', p_offset = 128, p_size = 65\<rparr>])"
proof -
  have es: "md_erasesize oversize_dev = 64" by (simp add: oversize_dev_def mem_mtd_def)
  have c: "uimage_candidate oversize_dev default_dt 0 = None" "uimage_candidate oversize_dev default_dt 64 = Some 65"
      "mtd_check_rootfs_magic oversize_dev 0 = Inr PART_SQUASHFS"
    by code_simp+
  have "\<forall>i s'. i \<le> 1 \<and> uimage_candidate oversize_dev default_dt (of_nat (i * unat (64 :: u32))) = Some s' \<longrightarrow>
      md_size oversize_dev < of_nat (i * unat (64 :: u32)) + s'"
    using c(1,2) by (auto simp: le_Suc_eq oversize_dev_geom)
  with mtdsplit_uimage_oversize [OF oversize_dev_geom(1), of 1 default_dt 65 PART_SQUASHFS] c show ?thesis
    by (simp add: oversize_dev_geom es rootfs_name_def)
qed

end
