(* ===== verification/Mtd_Parsers.thy ===== *)
theory Mtd_Parsers
  imports Mtd_Split
begin

text \<open>
  Further firmware splitters: H3C VFS images (\<open>mtdsplit_h3c_vfs.c\<close>), FIT images
  (\<open>mtdsplit_fit.c\<close>), BCM63xx image tags (\<open>mtdsplit_bcm63xx.c\<close>) and the Broadcom and Sercomm WFI
  images (\<open>mtdsplit_bcm_wfi.c\<close>). Functions of the kernel are parameters: \<open>crc\<close> is \<open>crc32\<close>, the
  record \<open>libfdt\<close> has the functions of the device tree library, \<open>bcm_tag_ops\<close> the layout of the
  image tag. The lemmas show where the partitions lie, when the search for a JFFS2 file ends, and
  that it does not end at an entry of length 0.
\<close>

abbreviation (input) ENOENT :: int where "ENOENT \<equiv> 2"

section \<open>mtdsplit\_h3c\_vfs.c\<close>

text \<open>
  \<open>FORMAT_FLAG\<close> is \<open>VFS_ERASEBLOCK_SIZE << 12 | VFS_BLOCK_SIZE\<close>; an erase block has 64 VFS blocks,
  one of them a header. The block number is an \<open>int\<close> that is below \<open>2 ^ 31\<close> here, the sum wraps as an \<open>int\<close>.
\<close>

definition block_offset :: "u32 \<Rightarrow> u64" where
  "block_offset block = scast (0x10000 * (block div 63) + 0x400 * (1 + block mod 63))"

definition block_count :: "u64 \<Rightarrow> u32" where
  "block_count sz = ucast ((sz + 0x3ff) div 0x400)"

definition h3c_name :: bytes where
  "h3c_name = [0x6f, 0x70, 0x65, 0x6e, 0x77, 0x72, 0x74, 0x2d, 0x6b, 0x65, 0x72, 0x6e, 0x65, 0x6c, 0x2e, 0x62, 0x69, 0x6e]"

definition mtdsplit_h3c_vfs_parse :: "mtd \<Rightarrow> bool \<Rightarrow> mtd_part list result option" where
  "mtdsplit_h3c_vfs_parse m alloc =
     (if md_erasesize m \<noteq> 0x10000 then Some (Inl (- EINVAL))
      else case read_hdr m 0 4 of
        Inl e \<Rightarrow> Some (Inl e)
      | Inr flag \<Rightarrow>
          if rd32 flag 0 \<noteq> 0x10000400 then Some (Inl (- EINVAL))
          else case read_hdr m 0x800 128 of
            Inl e \<Rightarrow> Some (Inl e)
          | Inr fe \<Rightarrow>
              if rd8 fe 0 \<noteq> 0x3f then Some (Inl (- EINVAL))
              else if rd32 fe 20 \<noteq> 0 then Some (Inl (- EINVAL))
              else if cpu16 fe 24 \<noteq> 0 then Some (Inl (- EINVAL))
              else if rd32 fe 28 \<noteq> 2 then Some (Inl (- EINVAL))
              else if take 19 (drop 32 fe) \<noteq> h3c_name @ [0] then Some (Inl (- EINVAL))
              else
                let kernel_size = block_offset (rd32 fe 28 + block_count (ucast (rd32 fe 16)) - 1) + 0x400
                in split_found m alloc ''kernel'' (\<lambda>_. ''rootfs'') (roundup_eb m kernel_size))"

section \<open>mtdsplit\_fit.c\<close>

text \<open>
  \<open>fdt_getprop\<close> returns the offset of the property's value in the tree and the value;
  \<open>fdt_next_node\<close> the offset of the next node and its depth.
\<close>

record libfdt =
  fdt_path_offset :: "bytes \<Rightarrow> string \<Rightarrow> int"
  fdt_next_node :: "bytes \<Rightarrow> int \<Rightarrow> int \<Rightarrow> int \<times> int"
  fdt_getprop :: "bytes \<Rightarrow> int \<Rightarrow> string \<Rightarrow> (nat \<times> bytes) option"

definition fit_image_get_data :: "libfdt \<Rightarrow> bytes \<Rightarrow> int \<Rightarrow> (u64 \<times> u64) result" where
  "fit_image_get_data lib fit noffset =
     (case fdt_getprop lib fit noffset ''data'' of
        None \<Rightarrow> Inl (- 1)
      | Some (at, bs) \<Rightarrow> Inr (of_nat at, of_nat (length bs)))"

definition fit_prop32 :: "libfdt \<Rightarrow> bytes \<Rightarrow> int \<Rightarrow> string \<Rightarrow> u32 option" where
  "fit_prop32 lib fit noffset name = map_option (\<lambda>(at, bs). be32 bs 0) (fdt_getprop lib fit noffset name)"

definition fit_image_get_data_offset :: "libfdt \<Rightarrow> bytes \<Rightarrow> int \<Rightarrow> u32 option" where
  "fit_image_get_data_offset lib fit noffset = fit_prop32 lib fit noffset ''data-offset''"

definition fit_image_get_data_position :: "libfdt \<Rightarrow> bytes \<Rightarrow> int \<Rightarrow> u32 option" where
  "fit_image_get_data_position lib fit noffset = fit_prop32 lib fit noffset ''data-position''"

definition fit_image_get_data_size :: "libfdt \<Rightarrow> bytes \<Rightarrow> int \<Rightarrow> u32 option" where
  "fit_image_get_data_size lib fit noffset = fit_prop32 lib fit noffset ''data-size''"

text \<open>The data's offset from the start of the tree (\<open>img_data - fit\<close>) and its size.\<close>

definition fit_image_get_data_and_size :: "libfdt \<Rightarrow> bytes \<Rightarrow> int \<Rightarrow> (u64 \<times> u64) result" where
  "fit_image_get_data_and_size lib fit noffset =
     (let external =
        (case fit_image_get_data_position lib fit noffset of
           Some pos \<Rightarrow> Some pos
         | None \<Rightarrow>
             (case fit_image_get_data_offset lib fit noffset of
                Some off \<Rightarrow> Some (off + ((be32 fit 4 + 3) AND NOT 3))
              | None \<Rightarrow> None))
      in case external of
           Some offset \<Rightarrow>
             (case fit_image_get_data_size lib fit noffset of
                None \<Rightarrow> Inl (- ENOENT)
              | Some len \<Rightarrow> Inr (scast offset, scast len))
         | None \<Rightarrow> fit_image_get_data lib fit noffset)"

text \<open>
  The search for the header. It ends at a header with the magic or behind the device; \<open>hdr\<close> is
  the header read last, before the first read what is on the stack.
\<close>

partial_function (option) fit_scan :: "mtd \<Rightarrow> u32 \<Rightarrow> u64 \<Rightarrow> bytes \<Rightarrow> (u64 \<times> bytes) result option" where
  "fit_scan m offset_start offset hdr =
     (if offset + 40 \<le> md_size m then
        (case read_hdr m (offset + ucast offset_start) 40 of
           Inl e \<Rightarrow> Some (Inl e)
         | Inr h \<Rightarrow>
             if be32 h 0 \<noteq> 0xd00dfeed then fit_scan m offset_start (offset + ucast (md_erasesize m)) h
             else Some (Inr (offset, h)))
      else Some (Inr (offset, hdr)))"

declare fit_scan.simps [code]

text \<open>The largest end of an image of the tree, \<open>None\<close> for an image without data.\<close>

partial_function (option) fit_max_size ::
    "libfdt \<Rightarrow> bytes \<Rightarrow> int \<Rightarrow> int \<Rightarrow> u64 \<Rightarrow> u64 option option" where
  "fit_max_size lib fit noffset ndepth max_size =
     (if noffset \<ge> 0 \<and> ndepth > 0 then
        (if ndepth = 1 then
           (case fit_image_get_data_and_size lib fit noffset of
              Inl _ \<Rightarrow> Some None
            | Inr (at, sz) \<Rightarrow>
                fit_max_size lib fit (fst (fdt_next_node lib fit noffset ndepth)) (snd (fdt_next_node lib fit noffset ndepth))
                  (max max_size (sz + at)))
         else fit_max_size lib fit (fst (fdt_next_node lib fit noffset ndepth)) (snd (fdt_next_node lib fit noffset ndepth)) max_size)
      else Some (Some max_size))"

declare fit_max_size.simps [code]

text \<open>
  \<open>cmdline_ok\<close> is false when the device tree asks for a match that the kernel command line does
  not have. The partitions are none when an image has no data (the function then returns 0).
  The tree is what the second read returns; the source reads \<open>fit_size + offset_start\<close> bytes into
  a buffer of \<open>fit_size\<close> bytes.
\<close>

definition mtdsplit_fit_parse ::
    "libfdt \<Rightarrow> mtd \<Rightarrow> bool \<Rightarrow> u32 \<Rightarrow> bytes \<Rightarrow> bool \<Rightarrow> mtd_part list result option" where
  "mtdsplit_fit_parse lib m cmdline_ok offset_start stack alloc =
     (if \<not> cmdline_ok then Some (Inl (- ENODEV))
      else case fit_scan m offset_start 0 stack of
        None \<Rightarrow> None
      | Some (Inl e) \<Rightarrow> Some (Inl e)
      | Some (Inr (fit_offset, hdr)) \<Rightarrow>
          let fit_size = ucast (be32 hdr 4) :: u64; start = ucast offset_start
          in if fit_size = 0 then Some (Inl (- ENODEV))
             else if fit_size > 0x1000 then
               (case mtd_find_rootfs_from m (fit_offset + fit_size + start) (md_size m) of
                  None \<Rightarrow> None
                | Some (Inl e) \<Rightarrow> Some (Inl e)
                | Some (Inr (roff, ty)) \<Rightarrow>
                    if \<not> alloc then Some (Inl (- ENOMEM))
                    else Some (Inr [\<lparr>p_name = ''kernel'', p_offset = fit_offset, p_size = roundup_eb m (fit_size + start)\<rparr>,
                                    \<lparr>p_name = rootfs_name ty, p_offset = roff, p_size = md_size m - roff\<rparr>]))
             else
               let (err, fit) = md_read m fit_offset (unat (fit_size + start))
               in if err \<noteq> 0 then Some (Inl err)
                  else if fdt_path_offset lib fit ''/images'' < 0 then Some (Inl (- ENODEV))
                  else
                    let (n, d) = fdt_next_node lib fit (fdt_path_offset lib fit ''/images'') 0
                    in case fit_max_size lib fit n d 0 of
                         None \<Rightarrow> None
                       | Some None \<Rightarrow> Some (Inr [])
                       | Some (Some max_size) \<Rightarrow>
                           if \<not> alloc then Some (Inl (- ENOMEM))
                           else
                             let poff = fit_offset + roundup_eb m max_size
                             in Some (Inr [\<lparr>p_name = ''rootfs_data'', p_offset = poff, p_size = md_size m - poff\<rparr>]))"

section \<open>mtdsplit\_bcm63xx.c\<close>

text \<open>
  The image tag is declared in the kernel's \<open>linux/bcm963xx_tag.h\<close>: its size, the offset and the
  value of the header checksum, the three decimal fields and the address of the flash are
  parameters, and so are \<open>crc32_le\<close> and \<open>kstrtouint\<close>.
\<close>

record bcm_tag_ops =
  tag_sizeof :: nat
  tag_crc_offset :: nat
  tag_header_crc :: "bytes \<Rightarrow> u32"
  tag_flash_image_start :: "bytes \<Rightarrow> bytes"
  tag_kernel_address :: "bytes \<Rightarrow> bytes"
  tag_kernel_length :: "bytes \<Rightarrow> bytes"
  tag_crc32_le :: "bytes \<Rightarrow> u32"
  tag_kstrtouint :: "bytes \<Rightarrow> u32 option"
  tag_extended_size :: u32

text \<open>A field without its last byte and what follows its first NUL.\<close>

definition STR_NULL_TERMINATE :: "bytes \<Rightarrow> bytes" where
  "STR_NULL_TERMINATE x = takeWhile (\<lambda>c. c \<noteq> 0) (butlast x)"

definition bcm63xx_read_image_tag :: "bcm_tag_ops \<Rightarrow> mtd \<Rightarrow> u64 \<Rightarrow> bytes result" where
  "bcm63xx_read_image_tag ops m offset =
     (case read_hdr m offset (tag_sizeof ops) of
        Inl e \<Rightarrow> Inl e
      | Inr hdr \<Rightarrow>
          if tag_crc32_le ops (take (tag_crc_offset ops) hdr) = tag_header_crc ops hdr then Inr hdr else Inl 1)"

text \<open>\<open>part_offset\<close> is \<open>mtdpart_get_offset\<close>.\<close>

definition bcm63xx_parse_partitions :: "bcm_tag_ops \<Rightarrow> mtd \<Rightarrow> u64 \<Rightarrow> bool \<Rightarrow> bytes \<Rightarrow> mtd_part list result" where
  "bcm63xx_parse_partitions ops m part_offset alloc hdr =
     (case tag_kstrtouint ops (STR_NULL_TERMINATE (tag_flash_image_start ops hdr)) of
        None \<Rightarrow> Inl (- EINVAL)
      | Some flash_image_start \<Rightarrow>
          if flash_image_start < tag_extended_size ops then Inl (- EINVAL)
          else case tag_kstrtouint ops (STR_NULL_TERMINATE (tag_kernel_address ops hdr)) of
            None \<Rightarrow> Inl (- EINVAL)
          | Some kernel_address \<Rightarrow>
              if kernel_address < tag_extended_size ops then Inl (- EINVAL)
              else case tag_kstrtouint ops (STR_NULL_TERMINATE (tag_kernel_length ops hdr)) of
                None \<Rightarrow> Inl (- EINVAL)
              | Some kernel_length \<Rightarrow>
                  if kernel_length = 0 then Inl (- EINVAL)
                  else
                    let kernel_offset = ucast (kernel_address - tag_extended_size ops) - part_offset;
                        kernel_size = ucast kernel_length;
                        rootfs_first = flash_image_start < kernel_address;
                        rootfs_offset = (if rootfs_first then ucast (flash_image_start - tag_extended_size ops) - part_offset
                                         else kernel_offset + kernel_size);
                        rootfs_size = (if rootfs_first then kernel_offset - rootfs_offset else md_size m - rootfs_offset);
                        kernel = \<lparr>p_name = ''kernel'', p_offset = kernel_offset, p_size = kernel_size\<rparr>;
                        rootfs = \<lparr>p_name = ''rootfs'', p_offset = rootfs_offset, p_size = rootfs_size\<rparr>
                    in if \<not> alloc then Inl (- ENOMEM)
                       else Inr (if rootfs_first then [rootfs, kernel] else [kernel, rootfs]))"

partial_function (option) bcm63xx_scan :: "bcm_tag_ops \<Rightarrow> mtd \<Rightarrow> u64 \<Rightarrow> bool \<Rightarrow> int \<Rightarrow> mtd_part list result option" where
  "bcm63xx_scan ops m part_offset alloc offset =
     (if offset < uint (md_size m) then
        (case bcm63xx_read_image_tag ops m (word_of_int offset) of
           Inr hdr \<Rightarrow> Some (bcm63xx_parse_partitions ops m part_offset alloc hdr)
         | Inl _ \<Rightarrow> bcm63xx_scan ops m part_offset alloc (offset + uint (md_erasesize m)))
      else Some (Inl (- EINVAL)))"

declare bcm63xx_scan.simps [code]

definition mtdsplit_parse_bcm63xx :: "bcm_tag_ops \<Rightarrow> mtd \<Rightarrow> bool \<Rightarrow> u64 \<Rightarrow> bool \<Rightarrow> mtd_part list result option" where
  "mtdsplit_parse_bcm63xx ops m nand part_offset alloc =
     (if nand then Some (Inl (- EINVAL)) else bcm63xx_scan ops m part_offset alloc 0)"

section \<open>mtdsplit\_bcm\_wfi.c\<close>

text \<open>
  A JFFS2 directory entry in the block buffer: magic at 0, type at 2, length at 4, inode at 20,
  name length at 28, checksum at 32, name at 40. Bytes past the buffer read as 0.
\<close>

definition jffs2_dirent_crc :: "(u32 \<Rightarrow> bytes \<Rightarrow> u32) \<Rightarrow> bytes \<Rightarrow> u32" where
  "jffs2_dirent_crc crc node = crc 0 (map (rd8 node) [0..<32])"

definition jffs2_dirent_valid :: "(u32 \<Rightarrow> bytes \<Rightarrow> u32) \<Rightarrow> bytes \<Rightarrow> bool" where
  "jffs2_dirent_valid crc node \<longleftrightarrow>
     cpu16 node 0 = 0x1985 \<and> cpu16 node 2 = 0xe001 \<and> rd32 node 20 \<noteq> 0 \<and> rd32 node 32 = jffs2_dirent_crc crc node"

definition openwrt_name :: bytes where
  "openwrt_name = [0x31, 0x2d, 0x6f, 0x70, 0x65, 0x6e, 0x77, 0x72, 0x74]"

definition cferam_default :: bytes where
  "cferam_default = [0x63, 0x66, 0x65, 0x72, 0x61, 0x6d]"

definition kernel_file :: bytes where
  "kernel_file = [0x76, 0x6d, 0x6c, 0x69, 0x6e, 0x75, 0x78, 0x2e, 0x6c, 0x7a]"

text \<open>
  The entries of one block. The result is the name of the entry found, or whether the
  directory of the image was seen when the block ends. An entry of length 0 is visited for ever.
\<close>

partial_function (option) jffs2_scan_block ::
    "(u32 \<Rightarrow> bytes \<Rightarrow> u32) \<Rightarrow> u32 \<Rightarrow> bytes \<Rightarrow> bytes \<Rightarrow> u32 \<Rightarrow> bool \<Rightarrow> (bool + (bytes \<times> u8)) result option" where
  "jffs2_scan_block crc es buf name block_offs valid =
     (if block_offs < es then
        let node = drop (unat block_offs) buf;
            next = (block_offs + rd32 node 4 + 3) AND NOT 3
        in if \<not> jffs2_dirent_valid crc node then jffs2_scan_block crc es buf name (block_offs + 4) valid
           else if take 9 (drop 40 node) = openwrt_name then jffs2_scan_block crc es buf name next True
           else if take (length name) (drop 40 node) = name then
             (if \<not> valid then Some (Inl (- EINVAL))
              else Some (Inr (Inr (takeWhile (\<lambda>c. c \<noteq> 0) (take (unat (rd8 node 28)) (drop 40 node)), rd8 node 28))))
           else jffs2_scan_block crc es buf name next valid
      else Some (Inr (Inl valid)))"

declare jffs2_scan_block.simps [code]

text \<open>Offsets of type \<open>loff_t\<close> are integers. The block found and the name and its length.\<close>

partial_function (option) jffs2_find_file ::
    "mtd \<Rightarrow> (u32 \<Rightarrow> bytes \<Rightarrow> u32) \<Rightarrow> bytes \<Rightarrow> int \<Rightarrow> int \<Rightarrow> bool \<Rightarrow> (int \<times> bytes \<times> u8) result option" where
  "jffs2_find_file m crc name offs limit valid =
     (if offs < limit then
        let (rc, magic) = md_read m (word_of_int offs) 2;
            next = offs + uint (md_erasesize m)
        in if rc \<noteq> 0 \<or> length magic \<noteq> 2 \<or> cpu16 magic 0 \<noteq> 0x1985 then jffs2_find_file m crc name next limit valid
           else
             let (rc, buf) = md_read m (word_of_int offs) (unat (md_erasesize m))
             in if rc \<noteq> 0 then Some (Inl rc)
                else if length buf \<noteq> unat (md_erasesize m) then Some (Inl (- EINVAL))
                else case jffs2_scan_block crc (md_erasesize m) buf name 0 valid of
                       None \<Rightarrow> None
                     | Some (Inl e) \<Rightarrow> Some (Inl e)
                     | Some (Inr (Inr (nm, nsize))) \<Rightarrow> Some (Inr (offs, nm, nsize))
                     | Some (Inr (Inl valid1)) \<Rightarrow> jffs2_find_file m crc name next limit valid1
      else Some (Inl (- ENOENT)))"

declare jffs2_find_file.simps [code]

partial_function (option) ubifs_find :: "mtd \<Rightarrow> int \<Rightarrow> int \<Rightarrow> int result option" where
  "ubifs_find m offs limit =
     (if offs < limit then
        let (rc, magic) = md_read m (word_of_int offs) 4
        in if rc \<noteq> 0 \<or> length magic \<noteq> 4 \<or> be32 magic 0 \<noteq> 0x55424923
           then ubifs_find m (offs + uint (md_erasesize m)) limit
           else Some (Inr offs)
      else Some (Inl (- ENOENT)))"

declare ubifs_find.simps [code]

definition mk_part :: "string \<Rightarrow> int \<Rightarrow> int \<Rightarrow> mtd_part" where
  "mk_part name off sz = \<lparr>p_name = name, p_offset = word_of_int off, p_size = word_of_int sz\<rparr>"

text \<open>
  \<open>cferam\<close> is the property \<open>brcm,cferam\<close> of the node, or the default name. The search for the kernel
  starts behind the CFE RAM block; without that partition \<open>cfe_off\<close> is not used.
\<close>

definition parse_bcm_wfi ::
    "mtd \<Rightarrow> (u32 \<Rightarrow> bytes \<Rightarrow> u32) \<Rightarrow> bytes \<Rightarrow> bool \<Rightarrow> int \<Rightarrow> int \<Rightarrow> bool \<Rightarrow> mtd_part list result option" where
  "parse_bcm_wfi m crc cferam alloc off sz cfe_part =
     (let es = uint (md_erasesize m);
          name = take (min 32 (length cferam) - 1) cferam;
          cfe = (if cfe_part
                 then map_option (map_sum id (\<lambda>(c, _). (c, c + es))) (jffs2_find_file m crc name off (off + sz) False)
                 else Some (Inr (off, off)))
      in case cfe of
           None \<Rightarrow> None
         | Some (Inl e) \<Rightarrow> Some (Inl e)
         | Some (Inr (cfe_off, kernel_start)) \<Rightarrow>
             case jffs2_find_file m crc kernel_file kernel_start (off + sz) False of
               None \<Rightarrow> None
             | Some (Inl e) \<Rightarrow> Some (Inl e)
             | Some (Inr (kernel_off, _)) \<Rightarrow>
                 case ubifs_find m (kernel_off + es) (off + sz) of
                   None \<Rightarrow> None
                 | Some (Inl e) \<Rightarrow> Some (Inl e)
                 | Some (Inr rootfs_off) \<Rightarrow>
                     if \<not> alloc then Some (Inl (- ENOMEM))
                     else Some (Inr ((if cfe_part then [mk_part ''cferam'' cfe_off (kernel_off - cfe_off)] else []) @
                            [mk_part ''firmware'' kernel_off (sz - (kernel_off - off)),
                             mk_part ''kernel'' kernel_off (rootfs_off - kernel_off),
                             mk_part ''ubi'' rootfs_off (sz - (rootfs_off - off))])))"

text \<open>\<open>node\<close>: whether the node has \<open>brcm,no-cferam\<close>, and its \<open>brcm,cferam\<close>.\<close>

definition mtdsplit_parse_bcm_wfi ::
    "mtd \<Rightarrow> (u32 \<Rightarrow> bytes \<Rightarrow> u32) \<Rightarrow> (bool \<times> bytes option) option \<Rightarrow> bool \<Rightarrow> bool \<Rightarrow> mtd_part list result option" where
  "mtdsplit_parse_bcm_wfi m crc node alloc1 alloc =
     (case node of
        None \<Rightarrow> Some (Inl (- EINVAL))
      | Some (no_cferam, cferam) \<Rightarrow>
          if \<not> alloc1 then Some (Inl (- ENOMEM))
          else parse_bcm_wfi m crc (case cferam of None \<Rightarrow> cferam_default | Some nm \<Rightarrow> nm) alloc 0 (uint (md_size m)) (\<not> no_cferam))"

definition char_to_num :: "u8 \<Rightarrow> int" where
  "char_to_num c = (if 0x30 \<le> c \<and> c \<le> 0x39 then uint c - 0x30 else 0)"

definition flag_value :: "bytes \<Rightarrow> nat \<Rightarrow> int" where
  "flag_value bs k = char_to_num (rd8 bs k) * 100 + char_to_num (rd8 bs (k + 1)) * 10 + char_to_num (rd8 bs (k + 2))"

definition cferam_bootflag_value :: "(bytes \<times> u8) option \<Rightarrow> int" where
  "cferam_bootflag_value file =
     (case file of
        Some (name, len) \<Rightarrow>
          if len \<ge> 10 \<and> take 7 name = cferam_default @ [0x2e] then flag_value name 7 else - ENOENT
      | None \<Rightarrow> - ENOENT)"

text \<open>The end shared by the two parsers for devices with two images.\<close>

definition wfi_active :: "mtd \<Rightarrow> int \<Rightarrow> int \<Rightarrow> (int \<times> int) \<times> (string \<times> int \<times> int)" where
  "wfi_active m bf1 bf2 =
     (let img2_off = uint (md_size m) div 2; img2_size = uint (md_size m) - img2_off
      in if bf1 \<ge> bf2 then ((0, img2_off), (''img2'', img2_off, img2_size))
         else ((img2_off, img2_size), (''img1'', 0, img2_off)))"

definition wfi_split_parts :: "(string \<times> int \<times> int) \<Rightarrow> bool \<Rightarrow> mtd_part list result option \<Rightarrow> mtd_part list result option" where
  "wfi_split_parts inactive alloc res =
     (case res of
        Some (Inr parts) \<Rightarrow>
          if \<not> alloc then Some (Inl (- ENOMEM))
          else Some (Inr (parts @ [mk_part (fst inactive) (fst (snd inactive)) (snd (snd inactive))]))
      | _ \<Rightarrow> res)"

text \<open>The name handed to the caller; \<open>dup\<close> is whether \<open>kstrndup\<close> has memory.\<close>

definition found_file :: "bool \<Rightarrow> (int \<times> bytes \<times> u8) result \<Rightarrow> (bytes \<times> u8) option" where
  "found_file dup r = (case r of Inl _ \<Rightarrow> None | Inr (_, file) \<Rightarrow> if dup then Some file else None)"

definition mtdsplit_parse_bcm_wfi_split ::
    "mtd \<Rightarrow> (u32 \<Rightarrow> bytes \<Rightarrow> u32) \<Rightarrow> bytes \<Rightarrow> bool \<Rightarrow> bool \<Rightarrow> bool \<Rightarrow> mtd_part list result option" where
  "mtdsplit_parse_bcm_wfi_split m crc cferam alloc1 dup alloc =
     (if \<not> alloc1 then Some (Inl (- ENOMEM))
      else
        let img2_off = uint (md_size m) div 2
        in case jffs2_find_file m crc cferam_default 0 img2_off False of
             None \<Rightarrow> None
           | Some r1 \<Rightarrow>
               case jffs2_find_file m crc cferam_default img2_off (uint (md_size m)) False of
                 None \<Rightarrow> None
               | Some r2 \<Rightarrow>
                   let (active, inactive) =
                         wfi_active m (cferam_bootflag_value (found_file dup r1)) (cferam_bootflag_value (found_file dup r2))
                   in wfi_split_parts inactive alloc (parse_bcm_wfi m crc cferam alloc (fst active) (snd active) True))"

partial_function (option) sercomm_scan :: "mtd \<Rightarrow> int \<Rightarrow> int option" where
  "sercomm_scan m offs =
     (if offs < uint (md_size m) then
        let (rc, buf) = md_read m (word_of_int offs) 10
        in if rc \<noteq> 0 \<or> length buf \<noteq> 10 \<or> take 7 buf \<noteq> [0x65, 0x52, 0x63, 0x4f, 0x6d, 0x4d, 0x2e]
           then sercomm_scan m (offs + uint (md_erasesize m))
           else Some (flag_value buf 7)
      else Some (- ENOENT))"

declare sercomm_scan.simps [code]

definition sercomm_bootflag_value :: "mtd \<Rightarrow> int option" where
  "sercomm_bootflag_value m = sercomm_scan m 0"

text \<open>The result and whether the second boot flag partition is erased; \<open>None\<close> for a partition that does not exist.\<close>

definition mtdsplit_parse_ser_wfi ::
    "mtd \<Rightarrow> (u32 \<Rightarrow> bytes \<Rightarrow> u32) \<Rightarrow> bytes \<Rightarrow> mtd option \<Rightarrow> mtd option \<Rightarrow> bool \<Rightarrow> bool \<Rightarrow> (mtd_part list result option \<times> bool)" where
  "mtdsplit_parse_ser_wfi m crc cferam mtd_bf1 mtd_bf2 alloc1 alloc =
     (case (mtd_bf1, mtd_bf2) of
        (Some m1, Some m2) \<Rightarrow>
          if \<not> alloc1 then (Some (Inl (- ENOMEM)), False)
          else
            (case (sercomm_bootflag_value m1, sercomm_bootflag_value m2) of
               (Some bf1, Some bf2) \<Rightarrow>
                 let same = (bf1 = bf2 \<and> bf2 \<ge> 0);
                     (active, inactive) = wfi_active m bf1 (if same then - ENOENT else bf2)
                 in (wfi_split_parts inactive alloc (parse_bcm_wfi m crc cferam alloc (fst active) (snd active) False), same)
             | _ \<Rightarrow> (None, False))
      | _ \<Rightarrow> (Some (Inl (- ENOENT)), False))"

section \<open>What the parsers return\<close>

lemma le_add_uintD: "offs + uint x \<le> a \<Longrightarrow> offs \<le> a"
  using uint_ge_0 [of x] by linarith

lemma uint_erasesize_pos: "md_erasesize m \<noteq> 0 \<Longrightarrow> 0 < uint (md_erasesize m)"
  by (metis uint_0_iff uint_ge_0 order_le_imp_less_or_eq)

lemma jffs2_find_file_range:
  assumes "jffs2_find_file m crc name offs limit valid = Some (Inr (off, file))"
  shows "offs \<le> off \<and> off < limit"
proof -
  have "case (Inr (off, file) :: (int \<times> bytes \<times> u8) result) of Inl _ \<Rightarrow> True | Inr (off, _) \<Rightarrow> offs \<le> off \<and> off < limit"
  proof (rule jffs2_find_file.raw_induct [where P = "\<lambda>m crc name offs limit valid r.
      case r of Inl _ \<Rightarrow> True | Inr (off, _) \<Rightarrow> offs \<le> off \<and> off < limit", OF _ assms], goal_cases)
    case (1 f m crc name offs limit valid r)
    have nxt: "offs \<le> off \<and> off < limit"
      if "f m crc name (offs + uint (md_erasesize m)) limit v = Some (Inr (off, fl))" for v off fl
      using 1(1) [OF that] by (auto dest: le_add_uintD)
    from 1(2) show ?case
      by (simp add: Let_def case_prod_beta split: if_splits option.splits sum.splits prod.splits) (auto dest: nxt)
  qed
  then show ?thesis by simp
qed

lemma ubifs_find_range:
  assumes "ubifs_find m offs limit = Some (Inr off)"
  shows "offs \<le> off \<and> off < limit"
proof -
  have "case (Inr off :: int result) of Inl _ \<Rightarrow> True | Inr off \<Rightarrow> offs \<le> off \<and> off < limit"
  proof (rule ubifs_find.raw_induct [where P = "\<lambda>m offs limit r.
      case r of Inl _ \<Rightarrow> True | Inr off \<Rightarrow> offs \<le> off \<and> off < limit", OF _ assms], goal_cases)
    case (1 f m offs limit r)
    have nxt: "case r of Inl _ \<Rightarrow> True | Inr off \<Rightarrow> offs \<le> off \<and> off < limit"
      if "f m (offs + uint (md_erasesize m)) limit = Some r"
      using 1(1) [OF that] by (cases r) (auto dest: le_add_uintD)
    from 1(2) show ?case
      by (simp add: Let_def case_prod_beta split: if_splits) (auto dest: nxt)
  qed
  then show ?thesis by simp
qed

text \<open>
  An image in \<open>off\<close> to \<open>off + sz\<close>: a CFE RAM partition if asked for, then the firmware up to the
  end, which the kernel and the UBI partition tile.
\<close>

definition wfi_layout :: "int \<Rightarrow> int \<Rightarrow> bool \<Rightarrow> mtd_part list \<Rightarrow> bool" where
  "wfi_layout off sz cfe_part parts \<longleftrightarrow>
     (\<exists>c k r. off \<le> k \<and> k < r \<and> r < off + sz \<and> (cfe_part \<longrightarrow> off \<le> c \<and> c < k) \<and>
        parts = (if cfe_part then [mk_part ''cferam'' c (k - c)] else []) @
          [mk_part ''firmware'' k (off + sz - k), mk_part ''kernel'' k (r - k), mk_part ''ubi'' r (off + sz - r)])"

lemma parse_bcm_wfiE:
  assumes "parse_bcm_wfi m crc cferam alloc off sz cfe_part = Some (Inr parts)"
  obtains c s k nm r where
    "if cfe_part then off \<le> c \<and> s = c + uint (md_erasesize m) else s = off"
    "jffs2_find_file m crc kernel_file s (off + sz) False = Some (Inr (k, nm))"
    "ubifs_find m (k + uint (md_erasesize m)) (off + sz) = Some (Inr r)"
    "parts = (if cfe_part then [mk_part ''cferam'' c (k - c)] else []) @
       [mk_part ''firmware'' k (off + sz - k), mk_part ''kernel'' k (r - k), mk_part ''ubi'' r (off + sz - r)]"
proof -
  have sz: "sz - (k - off) = off + sz - k" for k by simp
  obtain c s where cfe: "if cfe_part then off \<le> c \<and> s = c + uint (md_erasesize m) else s = off"
    and rest: "(case jffs2_find_file m crc kernel_file s (off + sz) False of
               None \<Rightarrow> None
             | Some (Inl e) \<Rightarrow> Some (Inl e)
             | Some (Inr (kernel_off, _)) \<Rightarrow>
                 case ubifs_find m (kernel_off + uint (md_erasesize m)) (off + sz) of
                   None \<Rightarrow> None
                 | Some (Inl e) \<Rightarrow> Some (Inl e)
                 | Some (Inr rootfs_off) \<Rightarrow>
                     if \<not> alloc then Some (Inl (- ENOMEM))
                     else Some (Inr ((if cfe_part then [mk_part ''cferam'' c (kernel_off - c)] else []) @
                            [mk_part ''firmware'' kernel_off (sz - (kernel_off - off)),
                             mk_part ''kernel'' kernel_off (rootfs_off - kernel_off),
                             mk_part ''ubi'' rootfs_off (sz - (rootfs_off - off))]))) = Some (Inr parts)"
  proof (cases cfe_part)
    case False
    with assms that [of off off] show ?thesis unfolding parse_bcm_wfi_def Let_def by simp
  next
    case True
    then obtain c f where "jffs2_find_file m crc (take (min 32 (length cferam) - 1) cferam) off (off + sz) False = Some (Inr (c, f))"
      using assms unfolding parse_bcm_wfi_def Let_def
      by (cases "jffs2_find_file m crc (take (min 32 (length cferam) - 1) cferam) off (off + sz) False")
         (auto split: option.splits sum.splits prod.splits simp: map_sum_def)
    with True assms jffs2_find_file_range [OF this] that [where c = c and s = "c + uint (md_erasesize m)"] show ?thesis
      unfolding parse_bcm_wfi_def Let_def by simp
  qed
  from rest obtain k nm where k: "jffs2_find_file m crc kernel_file s (off + sz) False = Some (Inr (k, nm))"
    by (auto split: option.splits sum.splits)
  from rest k obtain r where r: "ubifs_find m (k + uint (md_erasesize m)) (off + sz) = Some (Inr r)"
    by (auto split: option.splits sum.splits)
  show ?thesis using rest k r by (intro that [OF cfe k r]) (auto simp: sz split: if_splits)
qed

lemma parse_bcm_wfi_layout:
  assumes es: "md_erasesize m \<noteq> 0" and res: "parse_bcm_wfi m crc cferam alloc off sz cfe_part = Some (Inr parts)"
  shows "wfi_layout off sz cfe_part parts"
proof -
  note pos = uint_erasesize_pos [OF es]
  from parse_bcm_wfiE [OF res] obtain c s k nm r where
    c: "if cfe_part then off \<le> c \<and> s = c + uint (md_erasesize m) else s = off"
    and k: "jffs2_find_file m crc kernel_file s (off + sz) False = Some (Inr (k, nm))"
    and r: "ubifs_find m (k + uint (md_erasesize m)) (off + sz) = Some (Inr r)"
    and parts: "parts = (if cfe_part then [mk_part ''cferam'' c (k - c)] else []) @
       [mk_part ''firmware'' k (off + sz - k), mk_part ''kernel'' k (r - k), mk_part ''ubi'' r (off + sz - r)]"
    by blast
  note b = jffs2_find_file_range [OF k] ubifs_find_range [OF r] c pos
  have "off \<le> k" using b by (cases cfe_part) simp_all
  moreover have "k < r" "r < off + sz" using b by simp_all
  moreover have "cfe_part \<longrightarrow> off \<le> c \<and> c < k" using b by (cases cfe_part) simp_all
  ultimately show ?thesis unfolding wfi_layout_def using parts by blast
qed

text \<open>
  The three parsers. With two images the one of the larger boot flag is split in its half of the
  device, the other half is one more partition.
\<close>

definition wfi_split_layout :: "mtd \<Rightarrow> bool \<Rightarrow> bool \<Rightarrow> mtd_part list \<Rightarrow> bool" where
  "wfi_split_layout m first cfe_part parts \<longleftrightarrow>
     (let half = uint (md_size m) div 2; rest = uint (md_size m) - half
      in if first then wfi_layout 0 half cfe_part (butlast parts) \<and> last parts = mk_part ''img2'' half rest
         else wfi_layout half rest cfe_part (butlast parts) \<and> last parts = mk_part ''img1'' 0 half)"

lemma wfi_split_parts_layout:
  assumes es: "md_erasesize m \<noteq> 0"
    and act: "wfi_active m bf1 bf2 = (active, inactive)"
    and res: "wfi_split_parts inactive alloc (parse_bcm_wfi m crc cferam alloc (fst active) (snd active) cfe_part) = Some (Inr parts)"
  shows "wfi_split_layout m (bf2 \<le> bf1) cfe_part parts"
proof -
  from res obtain ps where ps: "parse_bcm_wfi m crc cferam alloc (fst active) (snd active) cfe_part = Some (Inr ps)"
    and parts: "parts = ps @ [mk_part (fst inactive) (fst (snd inactive)) (snd (snd inactive))]"
    by (auto simp: wfi_split_parts_def split: option.splits sum.splits if_splits)
  from parse_bcm_wfi_layout [OF es ps] act show ?thesis
    by (auto simp: wfi_split_layout_def wfi_active_def Let_def parts split: if_splits)
qed

lemma mtdsplit_parse_bcm_wfi_layout:
  assumes "md_erasesize m \<noteq> 0" "mtdsplit_parse_bcm_wfi m crc node alloc1 alloc = Some (Inr parts)"
  shows "\<exists>no_cferam cferam. node = Some (no_cferam, cferam) \<and> wfi_layout 0 (uint (md_size m)) (\<not> no_cferam) parts"
  using assms by (auto simp: mtdsplit_parse_bcm_wfi_def parse_bcm_wfi_layout split: option.splits if_splits)

lemma mtdsplit_parse_bcm_wfi_split_layout:
  assumes es: "md_erasesize m \<noteq> 0"
    and res: "mtdsplit_parse_bcm_wfi_split m crc cferam alloc1 dup alloc = Some (Inr parts)"
  shows "\<exists>r1 r2. jffs2_find_file m crc cferam_default 0 (uint (md_size m) div 2) False = Some r1 \<and>
      jffs2_find_file m crc cferam_default (uint (md_size m) div 2) (uint (md_size m)) False = Some r2 \<and>
      wfi_split_layout m (cferam_bootflag_value (found_file dup r2) \<le> cferam_bootflag_value (found_file dup r1)) True parts"
  using res unfolding mtdsplit_parse_bcm_wfi_split_def Let_def
  by (auto simp: wfi_split_parts_layout [OF es] split: if_splits option.splits prod.splits)

lemma mtdsplit_parse_ser_wfi_layout:
  assumes es: "md_erasesize m \<noteq> 0"
    and res: "mtdsplit_parse_ser_wfi m crc cferam (Some m1) (Some m2) alloc1 alloc = (Some (Inr parts), erased)"
  shows "\<exists>bf1 bf2. sercomm_bootflag_value m1 = Some bf1 \<and> sercomm_bootflag_value m2 = Some bf2 \<and>
      erased = (bf1 = bf2 \<and> 0 \<le> bf1) \<and> wfi_split_layout m (bf2 \<le> bf1) False parts"
  using res unfolding mtdsplit_parse_ser_wfi_def Let_def
  by (auto dest!: wfi_split_parts_layout [OF es] split: if_splits option.splits prod.splits)

lemma mtdsplit_parse_ser_wfi_missing:
  "mtdsplit_parse_ser_wfi m crc cferam None mtd_bf2 alloc1 alloc = (Some (Inl (- ENOENT)), False)"
  "mtdsplit_parse_ser_wfi m crc cferam mtd_bf1 None alloc1 alloc = (Some (Inl (- ENOENT)), False)"
  by (simp_all add: mtdsplit_parse_ser_wfi_def split: option.splits)

section \<open>Termination of the JFFS2 search\<close>

text \<open>
  The walk over the directory entries ends when the length of every valid entry is neither 0 nor
  more than the block; at an entry of length 0 it does not.
\<close>

definition dirents_advance :: "(u32 \<Rightarrow> bytes \<Rightarrow> u32) \<Rightarrow> u32 \<Rightarrow> bytes \<Rightarrow> bool" where
  "dirents_advance crc es buf \<longleftrightarrow>
     (\<forall>k < unat es. jffs2_dirent_valid crc (drop k buf) \<longrightarrow> 0 < rd32 (drop k buf) 4 \<and> rd32 (drop k buf) 4 \<le> es)"

lemma unat_align4: "unat (y AND NOT 3) = unat y - unat y mod 4" for y :: u32
proof -
  have "NOT y AND (y AND 3) = 0" by (simp add: bit_eq_iff bit_simps)
  then have "y - (y AND 3) = y AND NOT (y AND 3)" by (rule disjunctive_diff_eq_and_not)
  also have "\<dots> = y AND NOT 3" by (auto simp: bit_eq_iff bit_simps)
  finally have eq: "y AND NOT 3 = y - (y AND 3)" ..
  have "y AND 3 = take_bit 2 y" by (simp add: take_bit_eq_mask mask_eq_exp_minus_1)
  then have "unat (y AND 3) = unat y mod 4" by (simp add: take_bit_eq_mod unat_mod)
  moreover from this have "y AND 3 \<le> y" by (simp add: word_le_nat_alt)
  ultimately show ?thesis unfolding eq by (simp add: unat_sub_le)
qed

lemma align4_advance:
  fixes k n es :: u32
  assumes "k < es" "0 < n" "n \<le> es" "es \<le> 2 ^ 30"
  shows "k < (k + n + 3) AND NOT 3"
proof -
  have es: "unat es \<le> 2 ^ 30" using assms(4) by (simp add: word_le_nat_alt)
  then have "unat (k + n + 3) = unat k + unat n + 3"
    using assms(1,3) by (simp add: unat_word_ariths word_less_nat_alt word_le_nat_alt)
  then have "unat ((k + n + 3) AND NOT 3) = unat k + unat n + 3 - (unat k + unat n + 3) mod 4"
    by (simp only: unat_align4)
  moreover have "0 < unat n" using assms(2) by (simp add: word_less_nat_alt)
  moreover have "(unat k + unat n + 3) mod 4 < 4" by simp
  ultimately show ?thesis unfolding word_less_nat_alt by linarith
qed

lemma jffs2_scan_block_returns:
  assumes "dirents_advance crc es buf" "es \<le> 2 ^ 30"
  shows "\<exists>r. jffs2_scan_block crc es buf name k valid = Some r"
proof (induction "unat es - unat k" arbitrary: k valid rule: less_induct)
  case less
  show ?case
  proof (cases "k < es")
    case False
    then show ?thesis by (simp add: jffs2_scan_block.simps [of crc es buf name k valid])
  next
    case True
    let ?node = "drop (unat k) buf"
    let ?next = "(k + rd32 ?node 4 + 3) AND NOT 3"
    have step: "\<exists>r. jffs2_scan_block crc es buf name k' v = Some r" if "k < k'" for k' v
      using that True by (intro less) (simp add: word_less_nat_alt)
    have "unat k + 4 < 2 ^ 32" using True assms(2) by (simp add: word_less_nat_alt word_le_nat_alt)
    then have "k < k + 4" by (simp add: word_less_nat_alt unat_word_ariths)
    moreover have "k < ?next" if "jffs2_dirent_valid crc ?node"
      using that assms True by (intro align4_advance [where es = es]) (auto simp: dirents_advance_def word_less_nat_alt)
    ultimately show ?thesis
      using step by (subst jffs2_scan_block.simps) (auto simp: Let_def)
  qed
qed

lemma jffs2_scan_block_stuck:
  assumes "k < es" "k AND NOT 3 = k" "jffs2_dirent_valid crc (drop (unat k) buf)" "rd32 (drop (unat k) buf) 4 = 0"
    "take (length name) (drop 40 (drop (unat k) buf)) \<noteq> name"
  shows "jffs2_scan_block crc es buf name k valid = None"
proof (rule ccontr)
  assume "jffs2_scan_block crc es buf name k valid \<noteq> None"
  then obtain r where r: "jffs2_scan_block crc es buf name k valid = Some r" by blast
  have nxt: "(k + 3) AND NOT 3 = k"
  proof -
    have "unat k - unat k mod 4 = unat k" using arg_cong [OF assms(2), of unat] by (simp only: unat_align4)
    then have m: "unat k mod 4 = 0" using mod_less_eq_dividend [of "unat k" 4] by linarith
    moreover have "unat k < 4294967296" using unat_less_2p [of k] by simp
    ultimately have "unat k + 3 < 4294967296" by presburger
    then have "unat (k + 3) = unat k + 3" by (simp add: unat_word_ariths)
    moreover have "(unat k + 3) mod 4 = 3" using m by presburger
    ultimately have "unat ((k + 3) AND NOT 3) = unat k" unfolding unat_align4 by (metis add_diff_cancel_right')
    then show ?thesis by (rule unsigned_word_eqI)
  qed
  define x where "x = (crc, es, buf, name, k)"
  have "(crc, es, buf, name, k) \<noteq> x"
  proof (rule jffs2_scan_block.raw_induct [where P = "\<lambda>crc es buf name k valid r. (crc, es, buf, name, k) \<noteq> x", OF _ r], goal_cases)
    case (1 f crc' es' buf' name' k' valid' r')
    show ?case
    proof
      assume "(crc', es', buf', name', k') = x"
      then have eq: "crc' = crc" "es' = es" "buf' = buf" "name' = name" "k' = k" by (simp_all add: x_def)
      from 1(2) obtain v where "f crc es buf name k v = Some r'"
        unfolding eq using assms nxt by (auto simp: Let_def split: if_splits)
      from 1(1) [OF this] show False by (simp add: x_def)
    qed
  qed
  then show False by (simp add: x_def)
qed

text \<open>The blocks of a device can be walked through.\<close>

definition wfi_walkable :: "mtd \<Rightarrow> (u32 \<Rightarrow> bytes \<Rightarrow> u32) \<Rightarrow> bool" where
  "wfi_walkable m crc \<longleftrightarrow> 0 < md_erasesize m \<and> md_erasesize m \<le> 2 ^ 30 \<and>
     (\<forall>off buf. md_read m off (unat (md_erasesize m)) = (0, buf) \<longrightarrow> dirents_advance crc (md_erasesize m) buf)"

lemma wfi_walkable_erasesize: "wfi_walkable m crc \<Longrightarrow> 0 < uint (md_erasesize m)" "wfi_walkable m crc \<Longrightarrow> md_erasesize m \<noteq> 0"
  by (auto simp: wfi_walkable_def word_less_def)

lemma eb_loop_step: "0 < uint (es :: u32) \<Longrightarrow> offs < limit \<Longrightarrow> nat (limit - (offs + uint es)) < nat (limit - offs)"
  by linarith

lemma jffs2_find_file_returns:
  assumes "wfi_walkable m crc"
  shows "\<exists>r. jffs2_find_file m crc name offs limit valid = Some r"
proof (induction "nat (limit - offs)" arbitrary: offs valid rule: less_induct)
  case less
  have nxt: "\<exists>r. jffs2_find_file m crc name (offs + uint (md_erasesize m)) limit v = Some r" if "offs < limit" for v
    using eb_loop_step [OF wfi_walkable_erasesize(1) [OF assms] that] by (rule less)
  have blk: "\<exists>r. jffs2_scan_block crc (md_erasesize m) buf name 0 valid = Some r"
    if "md_read m (word_of_int offs) (unat (md_erasesize m)) = (0, buf)" for buf
    using assms that unfolding wfi_walkable_def by (blast intro: jffs2_scan_block_returns)
  show ?case
    using nxt blk by (subst jffs2_find_file.simps) (fastforce simp: Let_def split: prod.splits option.splits sum.splits)
qed

lemma ubifs_find_returns:
  assumes "0 < uint (md_erasesize m)"
  shows "\<exists>r. ubifs_find m offs limit = Some r"
proof (induction "nat (limit - offs)" arbitrary: offs rule: less_induct)
  case less
  show ?case
    using less [OF eb_loop_step [OF assms]] by (subst ubifs_find.simps) (auto simp: Let_def split: prod.splits)
qed

lemma sercomm_scan_returns:
  assumes "0 < uint (md_erasesize m)"
  shows "\<exists>r. sercomm_scan m offs = Some r"
proof (induction "nat (uint (md_size m) - offs)" arbitrary: offs rule: less_induct)
  case less
  show ?case
    using less [OF eb_loop_step [OF assms]] by (subst sercomm_scan.simps) (auto simp: Let_def split: prod.splits)
qed

lemma bcm63xx_scan_returns:
  assumes "0 < uint (md_erasesize m)"
  shows "\<exists>r. bcm63xx_scan ops m part_offset alloc offs = Some r"
proof (induction "nat (uint (md_size m) - offs)" arbitrary: offs rule: less_induct)
  case less
  show ?case
    using less [OF eb_loop_step [OF assms]] by (subst bcm63xx_scan.simps) (auto split: sum.splits)
qed

lemma parse_bcm_wfi_returns:
  assumes w: "wfi_walkable m crc"
  shows "\<exists>r. parse_bcm_wfi m crc cferam alloc off sz cfe_part = Some r"
proof -
  have ex: "jffs2_find_file m crc n s l v \<noteq> None" "ubifs_find m s l \<noteq> None" for n s l v
    using jffs2_find_file_returns [OF w, of n s l v] ubifs_find_returns [OF wfi_walkable_erasesize(1) [OF w], of s l] by auto
  have "parse_bcm_wfi m crc cferam alloc off sz cfe_part \<noteq> None"
    unfolding parse_bcm_wfi_def Let_def
    by (auto simp: ex split: option.splits sum.splits prod.splits if_splits)
  then show ?thesis by blast
qed

lemma mtdsplit_parse_bcm_wfi_split_returns:
  assumes w: "wfi_walkable m crc"
  shows "\<exists>r. mtdsplit_parse_bcm_wfi_split m crc cferam alloc1 dup alloc = Some r"
proof -
  have ex: "jffs2_find_file m crc n s l v \<noteq> None" "parse_bcm_wfi m crc cferam alloc s l c \<noteq> None" for n s l v c
    using jffs2_find_file_returns [OF w, of n s l v] parse_bcm_wfi_returns [OF w, of cferam alloc s l c] by auto
  have "mtdsplit_parse_bcm_wfi_split m crc cferam alloc1 dup alloc \<noteq> None"
    unfolding mtdsplit_parse_bcm_wfi_split_def Let_def wfi_split_parts_def
    by (auto simp: ex split: option.splits sum.splits prod.splits if_splits)
  then show ?thesis by blast
qed

section \<open>The other parsers\<close>

lemma mtdsplit_h3c_vfs_parse_tiles:
  assumes "mtd_geom m" "mtdsplit_h3c_vfs_parse m alloc = Some (Inr parts)"
  shows "tiles m parts"
  using assms(2) unfolding mtdsplit_h3c_vfs_parse_def Let_def
  by (auto split: sum.splits if_splits intro: split_found_tiles [OF assms(1)])

text \<open>A FIT image with its data inside: the kernel is at the image, the root file system behind it.\<close>

lemma mtdsplit_fit_parse_parts:
  assumes g: "mtd_geom m" and res: "mtdsplit_fit_parse lib m cmdline_ok start stack alloc = Some (Inr [k, r])"
  shows "\<exists>hdr ty. fit_scan m start 0 stack = Some (Inr (p_offset k, hdr)) \<and>
      p_size k = roundup_eb m (ucast (be32 hdr 4) + ucast start) \<and>
      (eb_exact m (p_offset k + ucast (be32 hdr 4) + ucast start) \<longrightarrow>
         p_offset k + ucast (be32 hdr 4) + ucast start \<le> p_offset r) \<and> p_offset r < md_size m \<and>
      p_size r = md_size m - p_offset r \<and> mtd_check_rootfs_magic m (p_offset r) = Inr ty \<and> p_name r = rootfs_name ty"
  using res find_rootfs_found [OF g] unfolding mtdsplit_fit_parse_def Let_def
  by (auto split: sum.splits if_splits option.splits prod.splits)

text \<open>A BCM63xx image: root file system and kernel abut, and the second of them runs to the end unless it is the kernel.\<close>

lemma bcm63xx_parse_partitions_parts:
  assumes "bcm63xx_parse_partitions ops m part_offset alloc hdr = Inr parts"
  shows "\<exists>p q. parts = [p, q] \<and> p_offset q = p_offset p + p_size p \<and>
      (p_name p = ''rootfs'' \<and> p_name q = ''kernel'' \<or>
       p_name p = ''kernel'' \<and> p_name q = ''rootfs'' \<and> p_offset q + p_size q = md_size m)"
  using assms unfolding bcm63xx_parse_partitions_def Let_def
  by (auto split: option.splits if_splits)

lemma mtdsplit_parse_bcm63xx_returns:
  assumes "md_erasesize m \<noteq> 0"
  shows "\<exists>r. mtdsplit_parse_bcm63xx ops m nand part_offset alloc = Some r"
  using bcm63xx_scan_returns [OF uint_erasesize_pos [OF assms], of ops part_offset alloc 0]
  by (simp add: mtdsplit_parse_bcm63xx_def)

section \<open>Devices with two images\<close>

text \<open>
  The device of the examples: six erase blocks of 128 bytes, the first image in three of them
  (CFE RAM, kernel, UBI), the second half erased. Reads start at erase blocks.
\<close>

definition byte_sum :: "u32 \<Rightarrow> bytes \<Rightarrow> u32" where
  "byte_sum s bs = s + sum_list (map ucast bs)"

definition dirent :: "bytes \<Rightarrow> bytes" where
  "dirent name =
     (let head = [0x85, 0x19, 0x01, 0xe0, of_nat (40 + length name)] @ replicate 15 0 @ [7] @ replicate 7 0 @
            [of_nat (length name), 8, 0, 0]
      in head @ [ucast (byte_sum 0 head), ucast (drop_bit 8 (byte_sum 0 head)), 0, 0] @ replicate 4 0 @ name @
         replicate ((4 - length name mod 4) mod 4) 0)"

definition wfi_block :: "bytes \<Rightarrow> bytes" where
  "wfi_block name = (let b = dirent openwrt_name @ dirent name in b @ replicate (128 - length b) 0xff)"

definition wfi_blocks :: "bytes list" where
  "wfi_blocks = [wfi_block (cferam_default @ [0x2e, 0x30, 0x30, 0x31]), wfi_block kernel_file,
     [0x55, 0x42, 0x49, 0x23] @ replicate 124 0] @ replicate 3 (replicate 128 0xff)"

definition wfi_dev :: mtd where
  "wfi_dev = \<lparr>md_size = 768, md_erasesize = 128,
     md_read = (\<lambda>off n. if off mod 128 = 0 \<and> off < 768 then (0, take n (wfi_blocks ! (unat off div 128))) else (- EIO, []))\<rparr>"

lemma cpu16_low: "ucast (cpu16 bs k) = rd8 bs k"
  unfolding cpu16_def by (rule bit_word_eqI) (auto simp: bit_simps)

lemma dirents_advanceI:
  assumes "length buf = unat es"
    and "list_all (\<lambda>(k, c). 0 < rd32 (drop k buf) 4 \<and> rd32 (drop k buf) 4 \<le> es) (filter (\<lambda>(k, c). c = 0x85) (enumerate 0 buf))"
  shows "dirents_advance crc es buf"
  unfolding dirents_advance_def
proof (intro allI impI)
  fix k assume k: "k < unat es" and v: "jffs2_dirent_valid crc (drop k buf)"
  have "rd8 (drop k buf) 0 = 0x85"
    using v cpu16_low [of "drop k buf" 0] by (simp add: jffs2_dirent_valid_def)
  then have "buf ! k = 0x85" using k assms(1) by (simp add: rd8_def hd_drop_conv_nth)
  then have "(k, 0x85) \<in> set (filter (\<lambda>(k, c). c = 0x85) (enumerate 0 buf))"
    using k assms(1) by (simp add: in_set_enumerate_eq)
  then show "0 < rd32 (drop k buf) 4 \<and> rd32 (drop k buf) 4 \<le> es"
    using assms(2) by (fastforce simp: list_all_iff)
qed

lemma wfi_blocks_advance: "list_all (dirents_advance byte_sum 128) wfi_blocks"
proof -
  have "list_all (\<lambda>buf. list_all (\<lambda>(k, c). 0 < rd32 (drop k buf) 4 \<and> rd32 (drop k buf) 4 \<le> 128)
      (filter (\<lambda>(k, c). c = 0x85) (enumerate 0 buf))) wfi_blocks"
    by code_simp
  moreover have "list_all (\<lambda>b. length b = 128) wfi_blocks" by code_simp
  ultimately show ?thesis by (auto simp: list_all_iff intro: dirents_advanceI)
qed

lemma wfi_dev_walkable: "wfi_walkable wfi_dev byte_sum"
proof -
  have "length wfi_blocks = 6" by (simp add: wfi_blocks_def)
  moreover have "list_all (\<lambda>b. length b = 128) wfi_blocks" by code_simp
  ultimately show ?thesis
    using wfi_blocks_advance
    by (auto simp: wfi_walkable_def wfi_dev_def list_all_length word_less_nat_alt split: if_splits)
qed

text \<open>
  C24. The parser for Broadcom devices with two images ends on every device whose directory
  entries have a length. When it returns partitions, they are the image of the half with the
  larger boot flag (the first half when they are equal): CFE RAM, then a firmware partition that
  runs to the end of the half and that kernel and UBI tile, all inside the half, and last the
  whole other half.
\<close>

theorem wfi_split_active_image:
  assumes "wfi_walkable m crc"
  shows "\<exists>res. mtdsplit_parse_bcm_wfi_split m crc cferam alloc1 dup alloc = Some res \<and>
    (\<forall>parts. res = Inr parts \<longrightarrow>
      (\<exists>r1 r2. jffs2_find_file m crc cferam_default 0 (uint (md_size m) div 2) False = Some r1 \<and>
        jffs2_find_file m crc cferam_default (uint (md_size m) div 2) (uint (md_size m)) False = Some r2 \<and>
        wfi_split_layout m
          (cferam_bootflag_value (found_file dup r2) \<le> cferam_bootflag_value (found_file dup r1)) True parts))"
proof -
  obtain res where "mtdsplit_parse_bcm_wfi_split m crc cferam alloc1 dup alloc = Some res"
    using mtdsplit_parse_bcm_wfi_split_returns [OF assms] by blast
  then show ?thesis
    using mtdsplit_parse_bcm_wfi_split_layout [OF wfi_walkable_erasesize(2) [OF assms]] by blast
qed

theorem wfi_split_active_image_witness:
  "\<exists>parts. mtdsplit_parse_bcm_wfi_split wfi_dev byte_sum cferam_default True True True = Some (Inr parts) \<and>
     map p_name parts = [''cferam'', ''firmware'', ''kernel'', ''ubi'', ''img2''] \<and> wfi_split_layout wfi_dev True True parts"
proof -
  have "mtdsplit_parse_bcm_wfi_split wfi_dev byte_sum cferam_default True True True = Some (Inr
      [\<lparr>p_name = ''cferam'', p_offset = 0, p_size = 128\<rparr>, \<lparr>p_name = ''firmware'', p_offset = 128, p_size = 256\<rparr>,
       \<lparr>p_name = ''kernel'', p_offset = 128, p_size = 128\<rparr>, \<lparr>p_name = ''ubi'', p_offset = 256, p_size = 128\<rparr>,
       \<lparr>p_name = ''img2'', p_offset = 384, p_size = 384\<rparr>])"
    by code_simp
  moreover have "jffs2_find_file wfi_dev byte_sum cferam_default 0 384 False = Some (Inr (0, cferam_default @ [0x2e, 0x30, 0x30, 0x31], 10))"
    by code_simp
  moreover have "jffs2_find_file wfi_dev byte_sum cferam_default 384 768 False = Some (Inl (- ENOENT))"
    by code_simp
  moreover have "cferam_bootflag_value (Some (cferam_default @ [0x2e, 0x30, 0x30, 0x31], 10)) = 1"
    by code_simp
  ultimately show ?thesis
    using wfi_split_active_image [OF wfi_dev_walkable, of cferam_default True True True]
    by (auto simp: wfi_dev_def found_file_def cferam_bootflag_value_def)
qed

end
