(* ===== verification/Mtd_Fd.thy ===== *)
theory Mtd_Fd
  imports Flash_Prelude
begin

text \<open>
  The MTD character device as the \<open>mtd\<close> command line tool sees it (\<open>package/system/mtd/src\<close>),
  with the helpers of \<open>mtd.c\<close> that its commands share. The system calls are code outside this
  repository: they are fields of the record \<open>mtd_fd\<close> over an arbitrary type of device states.
  A \<open>size_t\<close> is a 64-bit word, as on the 64-bit targets.
\<close>

section \<open>An open device\<close>

text \<open>
  A read returns its result and the bytes stored in the buffer; the file position is passed
  explicitly (\<open>lseek\<close> then \<open>write\<close> is a \<open>pwrite\<close>). \<open>fd_nand\<close> is \<open>mtdtype == MTD_NANDFLASH\<close>.
\<close>

record 'f mtd_fd =
  fd_size :: u32
  fd_erasesize :: u32
  fd_writesize :: u32
  fd_nand :: bool
  fd_pread :: "'f \<Rightarrow> u64 \<Rightarrow> u64 \<Rightarrow> int \<times> bytes"
  fd_pwrite :: "'f \<Rightarrow> u64 \<Rightarrow> bytes \<Rightarrow> int \<times> 'f"
  fd_memerase :: "'f \<Rightarrow> u32 \<Rightarrow> u32 \<Rightarrow> int \<times> 'f"
  fd_memunlock :: "'f \<Rightarrow> u32 \<Rightarrow> u32 \<Rightarrow> 'f"
  fd_badblock :: "'f \<Rightarrow> u64 \<Rightarrow> int"

text \<open>A command returns a value or ends the program with \<open>exit(1)\<close>.\<close>

datatype 'a outcome = Return 'a | Exit1

definition mtd_block_is_bad :: "'f mtd_fd \<Rightarrow> 'f \<Rightarrow> u32 \<Rightarrow> bool outcome" where
  "mtd_block_is_bad fd f offset =
     (if fd_nand fd then
        (let r = fd_badblock fd f (scast offset) in if r < 0 then Exit1 else Return (r \<noteq> 0))
      else Return False)"

definition mtd_erase_block :: "'f mtd_fd \<Rightarrow> 'f \<Rightarrow> u32 \<Rightarrow> int \<times> 'f" where
  "mtd_erase_block fd f offset =
     (let f1 = fd_memunlock fd f offset (fd_erasesize fd);
          (r, f2) = fd_memerase fd f1 offset (fd_erasesize fd)
      in (if r < 0 then - 1 else 0, f2))"

section \<open>Reading the image file\<close>

text \<open>
  The image file or pipe as the reads to come: data that is available, an interrupted read
  (\<open>EINTR\<close>, \<open>EAGAIN\<close>) or a failing one. A read takes at most \<open>n\<close> bytes of what is available;
  no data is the end of the file.
\<close>

datatype img_event = Img_data bytes | Img_intr | Img_fail

fun img_read :: "nat \<Rightarrow> img_event list \<Rightarrow> img_event \<times> img_event list" where
  "img_read n [] = (Img_data [], [])"
| "img_read n (Img_data bs # evs) =
     (if length bs \<le> n then (Img_data bs, evs) else (Img_data (take n bs), Img_data (drop n bs) # evs))"
| "img_read n (ev # evs) = (ev, evs)"

section \<open>A flash device that keeps what is written\<close>

text \<open>
  What the kernel documents of a device that works: \<open>D\<close> is the set of its states, \<open>mem\<close> its
  content and \<open>bad\<close> the set of bad blocks. Reads return the content, a write to erased bytes
  of good blocks stores the data, an erase of good blocks sets them to 0xff.
\<close>

definition good_region :: "nat \<Rightarrow> nat set \<Rightarrow> nat \<Rightarrow> nat \<Rightarrow> bool" where
  "good_region es bad off len \<longleftrightarrow> (\<forall>x. off \<le> x \<and> x < off + len \<longrightarrow> x div es \<notin> bad)"

definition reads_mem :: "'f mtd_fd \<Rightarrow> 'f set \<Rightarrow> ('f \<Rightarrow> nat \<Rightarrow> u8) \<Rightarrow> bool" where
  "reads_mem fd D mem \<longleftrightarrow> (\<forall>f \<in> D. \<forall>off len. unat off + unat len \<le> unat (fd_size fd) \<longrightarrow>
     fd_pread fd f off len = (int (unat len), map (mem f) [unat off..<unat off + unat len]))"

definition put_bytes :: "(nat \<Rightarrow> u8) \<Rightarrow> nat \<Rightarrow> bytes \<Rightarrow> nat \<Rightarrow> u8" where
  "put_bytes m off bs x = (if off \<le> x \<and> x < off + length bs then bs ! (x - off) else m x)"

definition writes_mem :: "'f mtd_fd \<Rightarrow> 'f set \<Rightarrow> ('f \<Rightarrow> nat \<Rightarrow> u8) \<Rightarrow> nat set \<Rightarrow> bool" where
  "writes_mem fd D mem bad \<longleftrightarrow> (\<forall>f \<in> D. \<forall>off bs. unat off + length bs \<le> unat (fd_size fd) \<longrightarrow>
     good_region (unat (fd_erasesize fd)) bad (unat off) (length bs) \<longrightarrow>
     (\<forall>i < length bs. mem f (unat off + i) = 0xff) \<longrightarrow>
     (\<exists>f' \<in> D. fd_pwrite fd f off bs = (int (length bs), f') \<and> mem f' = put_bytes (mem f) (unat off) bs))"

definition erases_mem :: "'f mtd_fd \<Rightarrow> 'f set \<Rightarrow> ('f \<Rightarrow> nat \<Rightarrow> u8) \<Rightarrow> nat set \<Rightarrow> bool" where
  "erases_mem fd D mem bad \<longleftrightarrow> (\<forall>f \<in> D. \<forall>start len. unat start + unat len \<le> unat (fd_size fd) \<longrightarrow>
     unat (fd_erasesize fd) dvd unat start \<longrightarrow> unat (fd_erasesize fd) dvd unat len \<longrightarrow>
     good_region (unat (fd_erasesize fd)) bad (unat start) (unat len) \<longrightarrow>
     (\<exists>f' \<in> D. fd_memerase fd f start len = (0, f') \<and>
        mem f' = put_bytes (mem f) (unat start) (replicate (unat len) 0xff)))"

definition flash_ok :: "'f mtd_fd \<Rightarrow> 'f set \<Rightarrow> ('f \<Rightarrow> nat \<Rightarrow> u8) \<Rightarrow> nat set \<Rightarrow> bool" where
  "flash_ok fd D mem bad \<longleftrightarrow> reads_mem fd D mem \<and> writes_mem fd D mem bad \<and> erases_mem fd D mem bad \<and>
     (\<forall>f \<in> D. \<forall>start len. fd_memunlock fd f start len \<in> D \<and> mem (fd_memunlock fd f start len) = mem f) \<and>
     (\<forall>f \<in> D. \<forall>off. unat off < unat (fd_size fd) \<longrightarrow>
        fd_badblock fd f off = (if unat off div unat (fd_erasesize fd) \<in> bad then 1 else 0)) \<and>
     (\<not> fd_nand fd \<longrightarrow> bad = {}) \<and> 0 < fd_erasesize fd"

lemma flash_read:
  assumes "flash_ok fd D mem bad" "f \<in> D" "unat off + unat len \<le> unat (fd_size fd)"
  shows "fd_pread fd f off len = (int (unat len), map (mem f) [unat off..<unat off + unat len])"
  using assms by (simp add: flash_ok_def reads_mem_def)

lemma flash_write:
  assumes "flash_ok fd D mem bad" "f \<in> D" "unat off + length bs \<le> unat (fd_size fd)"
    "good_region (unat (fd_erasesize fd)) bad (unat off) (length bs)" "\<forall>i < length bs. mem f (unat off + i) = 0xff"
  obtains f' where "f' \<in> D" "fd_pwrite fd f off bs = (int (length bs), f')" "mem f' = put_bytes (mem f) (unat off) bs"
  using assms unfolding flash_ok_def writes_mem_def by blast

lemma flash_erase:
  assumes "flash_ok fd D mem bad" "f \<in> D" "unat start + unat len \<le> unat (fd_size fd)"
    "unat (fd_erasesize fd) dvd unat start" "unat (fd_erasesize fd) dvd unat len"
    "good_region (unat (fd_erasesize fd)) bad (unat start) (unat len)"
  obtains f' where "f' \<in> D" "fd_memerase fd f start len = (0, f')"
    "mem f' = put_bytes (mem f) (unat start) (replicate (unat len) 0xff)"
  using assms unfolding flash_ok_def erases_mem_def by blast

lemma flash_erase_block:
  assumes ok: "flash_ok fd D mem bad" and f: "f \<in> D" and start: "unat start + unat (fd_erasesize fd) \<le> unat (fd_size fd)"
    "unat (fd_erasesize fd) dvd unat start" "good_region (unat (fd_erasesize fd)) bad (unat start) (unat (fd_erasesize fd))"
  obtains f' where "f' \<in> D" "mtd_erase_block fd f start = (0, f')"
    "mem f' = put_bytes (mem f) (unat start) (replicate (unat (fd_erasesize fd)) 0xff)"
proof -
  let ?f1 = "fd_memunlock fd f start (fd_erasesize fd)"
  have f1: "?f1 \<in> D" "mem ?f1 = mem f" using ok f by (simp_all add: flash_ok_def)
  obtain f' where "f' \<in> D" "fd_memerase fd ?f1 start (fd_erasesize fd) = (0, f')"
      "mem f' = put_bytes (mem ?f1) (unat start) (replicate (unat (fd_erasesize fd)) 0xff)"
    by (rule flash_erase [OF ok f1(1) start(1,2) dvd_refl start(3)])
  with that f1(2) show thesis by (simp add: mtd_erase_block_def Let_def)
qed

section \<open>A device in memory\<close>

definition ram_pread :: "bytes \<Rightarrow> u64 \<Rightarrow> u64 \<Rightarrow> int \<times> bytes" where
  "ram_pread f off len = (let bs = take (unat len) (drop (unat off) f) in (int (length bs), bs))"

definition ram_pwrite :: "bytes \<Rightarrow> u64 \<Rightarrow> bytes \<Rightarrow> int \<times> bytes" where
  "ram_pwrite f off bs =
     (if unat off + length bs \<le> length f
      then (int (length bs), take (unat off) f @ bs @ drop (unat off + length bs) f) else (- 1, f))"

definition ram_memerase :: "bytes \<Rightarrow> u32 \<Rightarrow> u32 \<Rightarrow> int \<times> bytes" where
  "ram_memerase f start len =
     (if unat start + unat len \<le> length f
      then (0, take (unat start) f @ replicate (unat len) 0xff @ drop (unat start + unat len) f) else (- 1, f))"

definition ram_memunlock :: "bytes \<Rightarrow> u32 \<Rightarrow> u32 \<Rightarrow> bytes" where
  "ram_memunlock f start len = f"

definition ram_badblock :: "u64 \<Rightarrow> u64 list \<Rightarrow> bytes \<Rightarrow> u64 \<Rightarrow> int" where
  "ram_badblock es bad f off = (if unat off < length f then (if off div es \<in> set bad then 1 else 0) else - 1)"

definition ram_fd :: "u32 \<Rightarrow> u32 \<Rightarrow> u32 \<Rightarrow> u64 list \<Rightarrow> bytes mtd_fd" where
  "ram_fd sz es ws bad =
     \<lparr>fd_size = sz, fd_erasesize = es, fd_writesize = ws, fd_nand = (bad \<noteq> []), fd_pread = ram_pread,
      fd_pwrite = ram_pwrite, fd_memerase = ram_memerase, fd_memunlock = ram_memunlock,
      fd_badblock = ram_badblock (ucast es) bad\<rparr>"

definition ram_mem :: "bytes \<Rightarrow> nat \<Rightarrow> u8" where
  "ram_mem f x = (if x < length f then f ! x else 0)"

lemma ram_mem_put:
  "off + length bs \<le> length f \<Longrightarrow> ram_mem (take off f @ bs @ drop (off + length bs) f) = put_bytes (ram_mem f) off bs"
  by (auto simp: fun_eq_iff ram_mem_def put_bytes_def nth_append)

lemma ram_flash_ok:
  assumes "0 < es"
  shows "flash_ok (ram_fd sz es ws bad) {f. length f = unat sz} ram_mem (unat ` set bad)"
proof -
  let ?D = "{f :: bytes. length f = unat sz}" and ?fd = "ram_fd sz es ws bad"
  have "reads_mem ?fd ?D ram_mem"
    by (auto simp: reads_mem_def ram_fd_def ram_pread_def Let_def ram_mem_def intro!: nth_equalityI)
  moreover have "writes_mem ?fd ?D ram_mem (unat ` set bad)"
    by (auto simp: writes_mem_def ram_fd_def ram_pwrite_def ram_mem_put)
  moreover have "erases_mem ?fd ?D ram_mem (unat ` set bad)"
    using ram_mem_put [of _ "replicate _ 0xff"] by (auto simp: erases_mem_def ram_fd_def ram_memerase_def)
  moreover have "off div ucast es \<in> set bad \<longleftrightarrow> unat off div unat es \<in> unat ` set bad" for off :: u64
  proof -
    have "unat (off div ucast es) = unat off div unat es" by (simp add: unat_div)
    then show ?thesis by (metis (no_types, lifting) image_iff word_unat_eq_iff)
  qed
  ultimately show ?thesis
    using assms by (auto simp: flash_ok_def ram_fd_def ram_memunlock_def ram_badblock_def)
qed

end
