(* ===== verification/Mtd_Bootcount.thy ===== *)
theory Mtd_Bootcount
  imports Mtd_Fd
begin

text \<open>
  Two commands of the \<open>mtd\<close> tool that keep small records on flash: the reset of the boot counter
  log (\<open>linksys_bootcount.c\<close>), shown to implement an append-only list of counts, and the recovery
  flag (\<open>tpl_ramips_recoveryflag.c\<close>).
\<close>

section \<open>linksys\_bootcount.c\<close>

abbreviation (input) BOOTCOUNT_MAGIC :: u32 where "BOOTCOUNT_MAGIC \<equiv> 0x20110811"
abbreviation (input) BC_OFFSET_INCREMENT_MIN :: u32 where "BC_OFFSET_INCREMENT_MIN \<equiv> 16"

record bootcounter =
  bc_magic :: u32
  bc_count :: u32
  bc_checksum :: u32

definition bc_read :: "bytes \<Rightarrow> bootcounter" where
  "bc_read bs = \<lparr>bc_magic = rd32 bs 0, bc_count = rd32 bs 4, bc_checksum = rd32 bs 8\<rparr>"

definition bc_increment :: "'f mtd_fd \<Rightarrow> u32" where
  "bc_increment fd =
     (if fd_writesize fd < BC_OFFSET_INCREMENT_MIN then BC_OFFSET_INCREMENT_MIN else fd_writesize fd)"

text \<open>
  The scan of the log: the index where it stops and the last count, or the error. \<open>num\<close> is
  \<open>num_bc\<close>, an int that the comparison with the unsigned index converts back.
\<close>

function bc_scan :: "'f mtd_fd \<Rightarrow> 'f \<Rightarrow> u32 \<Rightarrow> u32 \<Rightarrow> u32 \<Rightarrow> int + u32 \<times> u32" where
  "bc_scan fd f num i last_count =
     (if i < num then
        (let (ret, bs) = fd_pread fd f (ucast (i * bc_increment fd)) 12; curr = bc_read bs
         in if ret \<noteq> 12 then Inl (- 5)
            else if bc_magic curr = 0xffffffff then Inr (i, last_count)
            else if bc_magic curr \<noteq> BOOTCOUNT_MAGIC \<or> bc_checksum curr \<noteq> bc_magic curr + bc_count curr
            then Inl (- 2)
            else bc_scan fd f num (i + 1) (bc_count curr))
      else Inr (i, last_count))"
  by pat_completeness auto
termination
  by (relation "measure (\<lambda>(fd, f, num, i, c). unat num - unat i)") (auto simp: word_less_unat)

declare bc_scan.simps [simp del]

definition bc_record :: "u32 \<Rightarrow> bytes" where
  "bc_record inc = le32 BOOTCOUNT_MAGIC @ le32 0 @ le32 BOOTCOUNT_MAGIC @ replicate (unat inc - 12) 0xff"

text \<open>\<open>info_ok\<close>: the device was opened and \<open>MEMGETINFO\<close> succeeded.\<close>

definition mtd_resetbc :: "'f mtd_fd \<Rightarrow> bool \<Rightarrow> bool \<Rightarrow> 'f \<Rightarrow> int \<times> 'f" where
  "mtd_resetbc fd info_ok malloc_ok f =
     (if \<not> info_ok then (- 1, f)
      else
        let inc = bc_increment fd; num = fd_size fd div inc
        in if \<not> malloc_ok then (- 6, f)
           else case bc_scan fd f num 0 0 of
             Inl e \<Rightarrow> (e, f)
           | Inr (i, last_count) \<Rightarrow>
               if last_count = 0 then (0, f)
               else
                 let (ret, f1) = (if i = num then fd_memerase fd f 0 (fd_size fd) else (0, f));
                     i1 = (if i = num then 0 else i)
                 in if ret < 0 then (- 3, f1)
                    else let (w, f2) = fd_pwrite fd f1 (ucast (i1 * inc)) (bc_record inc)
                         in (if w < 0 then - 4 else 0, f2))"

section \<open>The log as a list of counts\<close>

definition slot_holds :: "nat \<Rightarrow> (nat \<Rightarrow> u8) \<Rightarrow> nat \<Rightarrow> u32 \<Rightarrow> bool" where
  "slot_holds inc m i c \<longleftrightarrow>
     bc_read (map m [i * inc..<i * inc + 12]) = \<lparr>bc_magic = BOOTCOUNT_MAGIC, bc_count = c, bc_checksum = BOOTCOUNT_MAGIC + c\<rparr>"

definition slot_blank :: "nat \<Rightarrow> (nat \<Rightarrow> u8) \<Rightarrow> nat \<Rightarrow> bool" where
  "slot_blank inc m i \<longleftrightarrow> (\<forall>x. i * inc \<le> x \<and> x < (i + 1) * inc \<longrightarrow> m x = 0xff)"

text \<open>The log of a device: the counts in its first slots, the other slots erased.\<close>

definition bc_log :: "nat \<Rightarrow> nat \<Rightarrow> (nat \<Rightarrow> u8) \<Rightarrow> u32 list \<Rightarrow> bool" where
  "bc_log inc num m counts \<longleftrightarrow> length counts \<le> num \<and>
     (\<forall>i < length counts. slot_holds inc m i (counts ! i)) \<and>
     (\<forall>i. length counts \<le> i \<and> i < num \<longrightarrow> slot_blank inc m i)"

text \<open>What a reset does to the list: nothing when the last count is 0, else it appends a 0, to the empty list when the log is full.\<close>

definition bc_reset :: "nat \<Rightarrow> u32 list \<Rightarrow> u32 list" where
  "bc_reset num counts =
     (if counts = [] \<or> last counts = 0 then counts else if length counts = num then [0] else counts @ [0])"

lemma rd32_blank:
  assumes "\<And>k. k < length bs \<Longrightarrow> bs ! k = 0xff" "4 \<le> length bs"
  shows "rd32 bs 0 = 0xffffffff"
proof -
  have "rd8 bs k = 0xff" if "k < 4" for k using assms that by (simp add: rd8_def)
  then show ?thesis unfolding rd32_def by simp
qed

lemma bc_magic_used: "(BOOTCOUNT_MAGIC = 0xffffffff) = False"
  by simp

lemma bc_read_blank:
  assumes "slot_blank inc m i" "12 \<le> inc"
  shows "bc_magic (bc_read (map m [i * inc..<i * inc + 12])) = 0xffffffff"
  using assms by (auto simp: bc_read_def slot_blank_def intro!: rd32_blank)

lemma bc_read_record:
  "12 \<le> unat inc \<Longrightarrow> bc_read (take 12 (bc_record inc)) = \<lparr>bc_magic = BOOTCOUNT_MAGIC, bc_count = 0, bc_checksum = BOOTCOUNT_MAGIC\<rparr>"
  by (simp add: bc_read_def bc_record_def le_codec)

lemma length_bc_record [simp]: "12 \<le> unat inc \<Longrightarrow> length (bc_record inc) = unat inc"
  by (simp add: bc_record_def)

lemma slot_in_device:
  assumes "i < unat (fd_size fd div bc_increment fd)"
  shows "i * unat (bc_increment fd) + unat (bc_increment fd) \<le> unat (fd_size fd)"
    "unat (of_nat i * bc_increment fd) = i * unat (bc_increment fd)" "12 \<le> unat (bc_increment fd)"
proof -
  let ?inc = "unat (bc_increment fd)"
  have "i + 1 \<le> unat (fd_size fd) div ?inc" using assms by (simp add: unat_div)
  then have "(i + 1) * ?inc \<le> unat (fd_size fd) div ?inc * ?inc" by (rule mult_le_mono1)
  also have "\<dots> \<le> unat (fd_size fd)" by simp
  finally show fits: "i * ?inc + ?inc \<le> unat (fd_size fd)" by simp
  show inc: "12 \<le> ?inc" by (auto simp: bc_increment_def not_less word_le_unat)
  have "i * ?inc < 2 ^ 32" using fits inc unat_less_2p [of "fd_size fd"] by simp
  moreover have "of_nat i * bc_increment fd = of_nat (i * ?inc)" by simp
  ultimately show "unat (of_nat i * bc_increment fd) = i * ?inc" using unat_of_nat_small [of "i * ?inc", where ?'a = 32] by simp
qed

lemma bc_slot_read:
  assumes "flash_ok fd D mem bad" "f \<in> D" "i < unat (fd_size fd div bc_increment fd)"
  shows "fd_pread fd f (ucast (of_nat i * bc_increment fd)) 12 =
    (12, map (mem f) [i * unat (bc_increment fd)..<i * unat (bc_increment fd) + 12])"
  using flash_read [OF assms(1,2), of "ucast (of_nat i * bc_increment fd)" 12] slot_in_device [OF assms(3)] by simp

lemma bc_scan_log:
  assumes ok: "flash_ok fd D mem bad" "f \<in> D"
    and log: "bc_log (unat (bc_increment fd)) (unat (fd_size fd div bc_increment fd)) (mem f) counts"
  shows "i \<le> length counts \<Longrightarrow> bc_scan fd f (fd_size fd div bc_increment fd) (of_nat i) c =
    Inr (of_nat (length counts), if i = length counts then c else last counts)"
proof (induction "length counts - i" arbitrary: i c)
  case 0
  let ?num = "fd_size fd div bc_increment fd"
  from 0 have i: "i = length counts" by simp
  have le: "i \<le> unat ?num" using log i by (simp add: bc_log_def)
  then have ui: "unat (of_nat i :: u32) = i" using unat_less_2p [of ?num] by (intro unat_of_nat_small) simp
  show ?case
  proof (cases "i < unat ?num")
    case False
    then show ?thesis using i ui le by (subst bc_scan.simps) (simp add: word_less_unat)
  next
    case True
    then have "slot_blank (unat (bc_increment fd)) (mem f) i" using log i by (simp add: bc_log_def)
    from bc_read_blank [OF this] slot_in_device(3) [OF True] bc_slot_read [OF ok True] True ui i show ?thesis
      by (subst bc_scan.simps) (simp add: word_less_unat Let_def)
  qed
next
  case (Suc n)
  let ?num = "fd_size fd div bc_increment fd"
  from Suc have i: "i < length counts" by simp
  then have lt: "i < unat ?num" using log by (simp add: bc_log_def)
  then have ui: "unat (of_nat i :: u32) = i" using unat_less_2p [of ?num] by (intro unat_of_nat_small) simp
  have "slot_holds (unat (bc_increment fd)) (mem f) i (counts ! i)" using log i by (simp add: bc_log_def)
  then have "bc_scan fd f ?num (of_nat i) c = bc_scan fd f ?num (of_nat (Suc i)) (counts ! i)"
    using bc_slot_read [OF ok lt] lt ui by (subst bc_scan.simps) (simp only: bc_magic_used word_less_unat Let_def slot_holds_def bootcounter.select_convs prod.case if_True if_False simp_thms of_nat_Suc add.commute [of 1])
  also have "\<dots> = Inr (of_nat (length counts), if Suc i = length counts then counts ! i else last counts)"
    using Suc i by (intro Suc.hyps) simp_all
  also have "(if Suc i = length counts then counts ! i else last counts) = last counts"
    using i last_conv_nth [of counts] by (cases counts) (auto simp: Suc_eq_plus1 [symmetric])
  finally show ?case using i by simp
qed

lemma put_bytes_before: "x < off \<Longrightarrow> put_bytes m off bs x = m x"
  by (simp add: put_bytes_def)

lemma put_bytes_after: "off + length bs \<le> x \<Longrightarrow> put_bytes m off bs x = m x"
  by (simp add: put_bytes_def)

lemma bc_log_append:
  assumes log: "bc_log (unat inc) num m counts" "length counts < num" and inc: "12 \<le> unat inc"
  shows "bc_log (unat inc) num (put_bytes m (length counts * unat inc) (bc_record inc)) (counts @ [0])"
proof -
  let ?L = "length counts" and ?inc = "unat inc"
  let ?m = "put_bytes m (?L * ?inc) (bc_record inc)"
  have "slot_holds ?inc ?m i (counts ! i)" if i: "i < ?L" for i
  proof -
    have "(i + 1) * ?inc \<le> ?L * ?inc" using i by (intro mult_le_mono1) simp
    then have "i * ?inc + 12 \<le> ?L * ?inc" using inc by (simp add: add_mult_distrib)
    then have "map ?m [i * ?inc..<i * ?inc + 12] = map m [i * ?inc..<i * ?inc + 12]"
      by (intro map_cong refl put_bytes_before) simp
    moreover have "slot_holds ?inc m i (counts ! i)" using log(1) i by (simp add: bc_log_def)
    ultimately show ?thesis by (simp only: slot_holds_def)
  qed
  moreover have "slot_holds ?inc ?m ?L 0"
  proof -
    have "map ?m [?L * ?inc..<?L * ?inc + 12] = take 12 (bc_record inc)"
      using inc by (intro nth_equalityI) (simp_all add: put_bytes_def)
    then show ?thesis using bc_read_record [OF inc] by (simp add: slot_holds_def)
  qed
  moreover have "slot_blank ?inc ?m i" if i: "?L + 1 \<le> i" "i < num" for i
  proof -
    have "(?L + 1) * ?inc \<le> i * ?inc" using i by (intro mult_le_mono1) simp
    then have far: "?L * ?inc + length (bc_record inc) \<le> i * ?inc" using inc by simp
    have "slot_blank ?inc m i" using log(1) i by (simp add: bc_log_def)
    then show ?thesis
      unfolding slot_blank_def using put_bytes_after [OF order_trans [OF far]] by auto
  qed
  ultimately show ?thesis
    using log(2) by (auto simp: bc_log_def nth_append less_Suc_eq)
qed

lemma bc_log_erased:
  assumes "\<And>x. x < unat sz \<Longrightarrow> m x = 0xff" "num * inc \<le> unat sz"
  shows "bc_log inc num m []"
proof -
  have "slot_blank inc m i" if "i < num" for i
  proof -
    have "(i + 1) * inc \<le> num * inc" using that by (intro mult_le_mono1) simp
    then show ?thesis using assms unfolding slot_blank_def by (meson order_less_le_trans order_trans)
  qed
  then show ?thesis by (simp add: bc_log_def)
qed

text \<open>A device of four slots with one boot counted three times.\<close>

definition bc_image :: bytes where
  "bc_image = le32 BOOTCOUNT_MAGIC @ le32 3 @ le32 (BOOTCOUNT_MAGIC + 3) @ replicate 52 0xff"

text \<open>
  C39. On a working device without bad blocks whose log holds the boot counts \<open>counts\<close>, a reset
  succeeds and the log then holds what the specification says: nothing is written when the last
  count is already 0, a 0 is appended otherwise, and a full log is erased first.
\<close>

theorem mtd_resetbc_refines:
  assumes ok: "flash_ok fd D mem {}" "f \<in> D" "unat (fd_erasesize fd) dvd unat (fd_size fd)"
    and inc: "inc = unat (bc_increment fd)" and num: "num = unat (fd_size fd div bc_increment fd)"
    and log: "bc_log inc num (mem f) counts"
  shows "\<exists>f' \<in> D. mtd_resetbc fd True True f = (0, f') \<and> bc_log inc num (mem f') (bc_reset num counts)"
proof -
  let ?n = "fd_size fd div bc_increment fd"
  have scan: "bc_scan fd f ?n 0 0 = Inr (of_nat (length counts), if counts = [] then 0 else last counts)"
    using bc_scan_log [OF ok(1,2) log [unfolded inc num], of 0 0] by simp
  show ?thesis
  proof (cases "counts = [] \<or> last counts = 0")
    case True
    then have "mtd_resetbc fd True True f = (0, f)" using scan by (auto simp: mtd_resetbc_def Let_def)
    then show ?thesis using True log ok(2) by (auto simp: bc_reset_def)
  next
    case nz: False
    have L: "length counts \<le> num" using log by (simp add: bc_log_def)
    then have uL: "unat (of_nat (length counts) :: u32) = length counts"
      unfolding num using unat_less_2p [of ?n] by (intro unat_of_nat_small) simp
    have full: "of_nat (length counts) = ?n \<longleftrightarrow> length counts = num" by (simp add: word_unat_eq_iff uL num)
    define base where "base = (if length counts = num then [] else counts)"
    obtain f1 where f1: "f1 \<in> D" "bc_log inc num (mem f1) base"
        "(if length counts = num then fd_memerase fd f 0 (fd_size fd) else (0, f)) = (0, f1)"
    proof (cases "length counts = num")
      case True
      obtain f1 where "f1 \<in> D" "fd_memerase fd f 0 (fd_size fd) = (0, f1)"
          "mem f1 = put_bytes (mem f) (unat (0 :: u32)) (replicate (unat (fd_size fd)) 0xff)"
        by (rule flash_erase [OF ok(1,2), of 0 "fd_size fd"]) (use ok(3) in \<open>simp_all add: good_region_def\<close>)
      moreover have "num * inc \<le> unat (fd_size fd)" by (simp add: num inc unat_div)
      ultimately show thesis
        using that True bc_log_erased [of "fd_size fd" "mem f1" num inc] by (simp add: base_def put_bytes_def)
    next
      case False
      then show thesis using that log ok(2) by (simp add: base_def)
    qed
    have b: "length base < num" "length base = (if length counts = num then 0 else length counts)"
      using L nz by (auto simp: base_def)
    have slot: "length base * inc + inc \<le> unat (fd_size fd)" "unat (of_nat (length base) * bc_increment fd) = length base * inc" "12 \<le> inc"
      using slot_in_device [of "length base" fd] b(1) by (simp_all add: num inc)
    have blank: "mem f1 (length base * inc + i) = 0xff" if "i < inc" for i
      using f1(2) b(1) that by (auto simp: bc_log_def slot_blank_def)
    obtain f2 where f2: "f2 \<in> D" "fd_pwrite fd f1 (ucast (of_nat (length base) * bc_increment fd)) (bc_record (bc_increment fd)) = (int inc, f2)"
        "mem f2 = put_bytes (mem f1) (length base * inc) (bc_record (bc_increment fd))"
      using flash_write [OF ok(1) f1(1), of "ucast (of_nat (length base) * bc_increment fd)" "bc_record (bc_increment fd)"]
        slot blank inc by (auto simp: good_region_def)
    have "mtd_resetbc fd True True f = (0, f2)"
      using scan nz full f1(3) f2(2) b(2) by (auto simp: mtd_resetbc_def Let_def)
    moreover have "bc_log inc num (mem f2) (base @ [0])"
      unfolding f2(3) inc using bc_log_append [OF f1(2) [unfolded inc] b(1)] slot(3) inc by simp
    moreover have "bc_reset num counts = base @ [0]" using nz by (auto simp: bc_reset_def base_def)
    ultimately show ?thesis using f2(1) by auto
  qed
qed

theorem mtd_resetbc_refines_witness:
  "\<exists>f'. mtd_resetbc (ram_fd 64 32 1 []) True True bc_image = (0, f') \<and> bc_log 16 4 (ram_mem f') [3, 0]"
proof -
  let ?fd = "ram_fd 64 32 1 []"
  have fd: "bc_increment ?fd = 16" "fd_size ?fd = 64" "fd_erasesize ?fd = 32" by (simp_all add: ram_fd_def bc_increment_def)
  have ok: "flash_ok ?fd {f. length f = unat (64 :: u32)} ram_mem {}" using ram_flash_ok [of 32 64 1 "[]"] by simp
  have f: "bc_image \<in> {f. length f = unat (64 :: u32)}" by (simp add: bc_image_def)
  have "map (ram_mem bc_image) [0..<12] = take 12 bc_image"
    using f by (intro nth_equalityI) (simp_all add: ram_mem_def)
  moreover have "bc_read (take 12 bc_image) = \<lparr>bc_magic = BOOTCOUNT_MAGIC, bc_count = 3, bc_checksum = BOOTCOUNT_MAGIC + 3\<rparr>"
    by code_simp
  ultimately have "slot_holds 16 (ram_mem bc_image) 0 3"
    by (simp only: slot_holds_def mult_zero_left add_0)
  moreover have "slot_blank 16 (ram_mem bc_image) i" if i: "1 \<le> i" "i < 4" for i
  proof -
    define pre where "pre = le32 BOOTCOUNT_MAGIC @ le32 3 @ le32 (BOOTCOUNT_MAGIC + 3)"
    have img: "bc_image = pre @ replicate 52 0xff" and len: "length pre = 12" by (simp_all add: bc_image_def pre_def)
    have "ram_mem bc_image x = 0xff" if "16 \<le> x" "x < 64" for x
      using that len by (simp add: img ram_mem_def nth_append)
    moreover have "16 \<le> i * 16" "(i + 1) * 16 \<le> 64" using i by simp_all
    ultimately show ?thesis unfolding slot_blank_def by (meson order_less_le_trans order_trans)
  qed
  ultimately have log: "bc_log 16 4 (ram_mem bc_image) [3]" by (simp add: bc_log_def)
  have "bc_reset 4 [3] = [3, 0]" by (simp add: bc_reset_def)
  moreover have "unat (fd_erasesize ?fd) dvd unat (fd_size ?fd)" "16 = unat (bc_increment ?fd)"
    "4 = unat (fd_size ?fd div bc_increment ?fd)" by (simp_all add: fd)
  note mtd_resetbc_refines [OF ok f this log]
  ultimately show ?thesis by auto
qed

section \<open>tpl\_ramips\_recoveryflag.c\<close>

abbreviation (input) TPL_RECOVER_MAGIC :: u32 where "TPL_RECOVER_MAGIC \<equiv> 0x89abcdef"
abbreviation (input) TPL_NO_RECOVER_MAGIC :: u32 where "TPL_NO_RECOVER_MAGIC \<equiv> 0"

text \<open>\<open>heap\<close> is what the allocated buffer holds before the read, whose result is not checked.\<close>

definition mtd_tpl_recoverflag_write :: "'f mtd_fd \<Rightarrow> bool \<Rightarrow> bool \<Rightarrow> bytes \<Rightarrow> 'f \<Rightarrow> bool \<Rightarrow> int \<times> 'f" where
  "mtd_tpl_recoverflag_write fd malloc_ok open_ok heap f recovery_active =
     (if \<not> malloc_ok then (- 1, f)
      else if \<not> open_ok then (- 1, f)
      else
        let bs = snd (fd_pread fd f 0 (ucast (fd_erasesize fd)));
            args = bs @ drop (length bs) heap;
            magic = (if recovery_active then TPL_RECOVER_MAGIC else TPL_NO_RECOVER_MAGIC)
        in if magic = rd32 args 0 then (0, f)
           else
             let (ret, f1) = fd_memerase fd f 0 (fd_erasesize fd)
             in if ret < 0 then (ret, f1)
                else fd_pwrite fd f1 0 (le32 magic @ drop 4 args))"

lemma map_mem_rd32: "4 \<le> n \<Longrightarrow> rd32 (map m [0..<n]) 0 = rd32 (map m [0..<4]) 0"
  by (simp add: rd32_def rd8_def)

text \<open>
  On a working device whose first block is good, writing the recovery flag succeeds, the
  first word of the device is then the requested magic, and every other byte is as before.
\<close>

lemma mtd_tpl_recoverflag_sets:
  assumes ok: "flash_ok fd D mem bad" "f \<in> D" and es: "4 \<le> unat (fd_erasesize fd)" "fd_erasesize fd \<le> fd_size fd" "0 \<notin> bad"
    and heap: "length heap = unat (fd_erasesize fd)"
  shows "\<exists>ret. \<exists>f' \<in> D. mtd_tpl_recoverflag_write fd True True heap f active = (ret, f') \<and> 0 \<le> ret \<and>
    rd32 (map (mem f') [0..<4]) 0 = (if active then TPL_RECOVER_MAGIC else TPL_NO_RECOVER_MAGIC) \<and>
    (\<forall>x. 4 \<le> x \<longrightarrow> mem f' x = mem f x)"
proof -
  let ?es = "unat (fd_erasesize fd)" and ?args = "map (mem f) [0..<unat (fd_erasesize fd)]"
  define magic where "magic = (if active then TPL_RECOVER_MAGIC else TPL_NO_RECOVER_MAGIC)"
  have sz: "?es \<le> unat (fd_size fd)" using es(2) by (simp add: word_le_unat)
  have rd: "fd_pread fd f 0 (ucast (fd_erasesize fd)) = (int ?es, ?args)"
    using flash_read [OF ok, of 0 "ucast (fd_erasesize fd)"] sz by simp
  have good: "good_region ?es bad 0 ?es" using es(3) by (auto simp: good_region_def)
  show ?thesis
  proof (cases "magic = rd32 ?args 0")
    case True
    then have "mtd_tpl_recoverflag_write fd True True heap f active = (0, f)"
      using rd heap by (simp add: mtd_tpl_recoverflag_write_def Let_def magic_def)
    then show ?thesis using True ok(2) map_mem_rd32 [OF es(1), of "mem f"] by (auto simp: magic_def)
  next
    case False
    obtain f1 where f1: "f1 \<in> D" "fd_memerase fd f 0 (fd_erasesize fd) = (0, f1)" "mem f1 = put_bytes (mem f) 0 (replicate ?es 0xff)"
      using flash_erase [OF ok, of 0 "fd_erasesize fd"] sz good by auto
    let ?bs = "le32 magic @ drop 4 ?args"
    have len: "length ?bs = ?es" using es(1) by simp
    obtain f2 where f2: "f2 \<in> D" "fd_pwrite fd f1 0 ?bs = (int ?es, f2)" "mem f2 = put_bytes (mem f1) 0 ?bs"
      using flash_write [OF ok(1) f1(1), of 0 ?bs] sz good len by (auto simp: f1(3) put_bytes_def)
    have run: "mtd_tpl_recoverflag_write fd True True heap f active = (int ?es, f2)"
      using rd heap False f1(2) f2(2) by (simp add: mtd_tpl_recoverflag_write_def Let_def magic_def)
    have "map (mem f2) [0..<4] = le32 magic"
      using len es(1) by (intro nth_equalityI) (simp_all add: f2(3) put_bytes_def nth_append)
    moreover have "mem f2 x = mem f x" if "4 \<le> x" for x
      using that len es(1) by (auto simp: f2(3) f1(3) put_bytes_def nth_append)
    ultimately show ?thesis using run f2(1) by (auto simp: magic_def)
  qed
qed

lemma mtd_tpl_recoverflag_sets_example:
  "\<exists>f'. mtd_tpl_recoverflag_write (ram_fd 64 32 1 []) True True (replicate 32 0) (replicate 64 0xff) True = (32, f') \<and>
     rd32 (map (ram_mem f') [0..<4]) 0 = TPL_RECOVER_MAGIC"
proof -
  let ?fd = "ram_fd 64 32 1 []"
  have ok: "flash_ok ?fd {f. length f = unat (64 :: u32)} ram_mem {}" using ram_flash_ok [of 32 64 1 "[]"] by simp
  have "fst (mtd_tpl_recoverflag_write ?fd True True (replicate 32 0) (replicate 64 0xff) True) = 32" by code_simp
  then show ?thesis
    using mtd_tpl_recoverflag_sets [OF ok, of "replicate 64 0xff" "replicate 32 0" True] by (auto simp: ram_fd_def)
qed

end
