(* ===== verification/Mtd_Trx.thy ===== *)
theory Mtd_Trx
  imports Mtd_Fd Mtd_Crc32
begin

text \<open>
  The TRX image header of the \<open>mtd\<close> tool (\<open>trx.c\<close>): the check of an image before it is written
  and the repair of the header's length and checksum on flash. \<open>struct trx_header\<close> is read and
  written in the buffer at its offsets 0 (magic), 4 (len) and 8 (crc32), in little-endian order.
\<close>

section \<open>trx.c\<close>

abbreviation (input) TRX_CRC32_DATA_OFFSET :: u64 where "TRX_CRC32_DATA_OFFSET \<equiv> 12"
abbreviation (input) TRX_CRC32_DATA_SIZE :: u64 where "TRX_CRC32_DATA_SIZE \<equiv> 16"

definition swab32 :: "u32 \<Rightarrow> u32" where
  "swab32 w = rd32 (rev (le32 w)) 0"

text \<open>
  \<open>erasesize\<close> and \<open>mtdsize\<close> are C ints that the arithmetic with \<open>size_t\<close> sign extends.
  \<open>eb_base\<close> is an offset rounded down to its erase block.
\<close>

definition eb_size :: "'f mtd_fd \<Rightarrow> u64" where
  "eb_size fd = scast (fd_erasesize fd)"

definition eb_base :: "'f mtd_fd \<Rightarrow> u64 \<Rightarrow> u64" where
  "eb_base fd off = off AND NOT (eb_size fd - 1)"

text \<open>The loop that collects the data of the good blocks; with an erase size of 0 it does not end.\<close>

partial_function (option) trx_collect ::
    "'f mtd_fd \<Rightarrow> 'f \<Rightarrow> u64 \<Rightarrow> u64 \<Rightarrow> bytes \<Rightarrow> bytes outcome option" where
  "trx_collect fd f data_offset data_size buf =
     (if data_size = 0 then Some (Return buf)
      else
        let chunk = min (eb_size fd - (data_offset AND (eb_size fd - 1))) data_size
        in case mtd_block_is_bad fd f (ucast (eb_base fd data_offset)) of
             Exit1 \<Rightarrow> Some Exit1
           | Return bad \<Rightarrow>
               if bad then trx_collect fd f (data_offset + chunk) (data_size - chunk) buf
               else
                 let (res, bs) = fd_pread fd f data_offset chunk
                 in if res \<noteq> int (unat chunk) then Some Exit1
                    else trx_collect fd f (data_offset + chunk) (data_size - chunk) (buf @ take (unat chunk) bs))"

declare trx_collect.simps [code]

definition trx_put :: "bytes \<Rightarrow> nat \<Rightarrow> u32 \<Rightarrow> u32 \<Rightarrow> bytes" where
  "trx_put blk off len crc = take (off + 4) blk @ le32 len @ le32 crc @ drop (off + 12) blk"

definition mtd_fixtrx ::
    "u32 \<Rightarrow> 'f mtd_fd \<Rightarrow> bool \<Rightarrow> bool \<Rightarrow> bool \<Rightarrow> u64 \<Rightarrow> u64 \<Rightarrow> 'f \<Rightarrow> (int outcome \<times> 'f) option" where
  "mtd_fixtrx opt_trxmagic fd open_ok malloc1_ok malloc2_ok offset data_size f =
     (if \<not> open_ok then Some (Exit1, f)
      else
        let data_offset = offset + TRX_CRC32_DATA_OFFSET;
            data_size = (if data_size \<noteq> 0 then data_size + TRX_CRC32_DATA_SIZE
                         else eb_size fd - TRX_CRC32_DATA_OFFSET);
            block_offset = eb_base fd offset;
            offset = offset - block_offset
        in if data_offset + data_size > scast (fd_size fd) then Some (Exit1, f)
           else if \<not> malloc1_ok then Some (Exit1, f)
           else
             let (res, first_block) = fd_pread fd f block_offset (eb_size fd)
             in if res \<noteq> sint (fd_erasesize fd) then Some (Exit1, f)
                else if swab32 (rd32 first_block (unat offset)) \<noteq> opt_trxmagic then Some (Exit1, f)
                else if \<not> malloc2_ok then Some (Exit1, f)
                else case trx_collect fd f data_offset data_size [] of
                  None \<Rightarrow> None
                | Some Exit1 \<Rightarrow> Some (Exit1, f)
                | Some (Return buf) \<Rightarrow>
                    let n = (of_nat (length buf) :: u64); crc = crc32buf buf
                    in if ucast (rd32 first_block (unat offset + 4)) = n + TRX_CRC32_DATA_OFFSET \<and>
                          rd32 first_block (unat offset + 8) = crc
                       then Some (Return 0, f)
                       else
                         let blk = trx_put first_block (unat offset) (ucast (n + 12)) crc;
                             (e, f1) = mtd_erase_block fd f (ucast block_offset)
                         in if e \<noteq> 0 then Some (Exit1, f1)
                            else
                              let (w, f2) = fd_pwrite fd f1 block_offset blk
                              in if w \<noteq> sint (fd_erasesize fd) then Some (Exit1, f2)
                                 else Some (Return 0, f2))"

text \<open>
  \<open>trx_check\<close>: one read completes the header; when it fails, \<open>*len\<close> is decremented by its
  result -1. The result carries the buffer, the updated \<open>*len\<close> and the rest of the image.
  \<open>firmware\<close> tells whether the target is named so.
\<close>

definition trx_check ::
    "u32 \<Rightarrow> 'f mtd_fd \<Rightarrow> bool \<Rightarrow> bool \<Rightarrow> img_event list \<Rightarrow> bytes \<Rightarrow> int outcome \<times> bytes \<times> int \<times> img_event list" where
  "trx_check opt_trxmagic fd firmware open_ok img buf =
     (let len = int (length buf)
      in if \<not> firmware then (Return 1, buf, len, img)
         else
           let (buf1, len1, img1) =
             (if len < 32 then
                (case img_read (32 - length buf) img of
                   (Img_data got, img1) \<Rightarrow> (buf @ got, len + int (length got), img1)
                 | (_, img1) \<Rightarrow> (buf, len - 1, img1))
              else (buf, len, img))
           in if len1 < 32 then (Return 0, buf1, len1, img1)
              else if swab32 (rd32 buf1 0) \<noteq> opt_trxmagic \<or> rd32 buf1 4 < 28 then (Return 0, buf1, len1, img1)
              else if \<not> open_ok then (Exit1, buf1, len1, img1)
              else if fd_size fd < rd32 buf1 4 then (Return 0, buf1, len1, img1)
              else (Return 1, buf1, len1, img1))"

section \<open>The bytes the checksum covers\<close>

definition good_bytes :: "nat \<Rightarrow> nat set \<Rightarrow> (nat \<Rightarrow> u8) \<Rightarrow> nat \<Rightarrow> nat \<Rightarrow> bytes" where
  "good_bytes es bad m off n = map m (filter (\<lambda>x. x div es \<notin> bad) [off..<off + n])"

lemma good_bytes_split: "good_bytes es bad m off (c + n) = good_bytes es bad m off c @ good_bytes es bad m (off + c) n"
  using upt_add_eq_append [of off "off + c" n] by (simp add: good_bytes_def add.assoc)

lemma length_good_bytes: "length (good_bytes es bad m off n) \<le> n"
  using length_filter_le [of "\<lambda>x. x div es \<notin> bad" "[off..<off + n]"] by (simp add: good_bytes_def)

lemma good_bytes_block:
  assumes "off mod es + c \<le> es"
  shows "good_bytes es bad m off c = (if off div es \<in> bad then [] else map m [off..<off + c])"
proof -
  have blk: "x div es = off div es" if "off \<le> x" "x < off + c" for x
  proof -
    have "off mod es + (x - off) < es" using assms that by linarith
    from div_mod_within(1) [OF this] show ?thesis using that(1) by simp
  qed
  show ?thesis
  proof (cases "off div es \<in> bad")
    case True
    then have "filter (\<lambda>x. x div es \<notin> bad) [off..<off + c] = []"
      unfolding filter_empty_conv by (metis atLeastLessThan_iff blk set_upt)
    with True show ?thesis by (simp add: good_bytes_def)
  next
    case False
    then have "filter (\<lambda>x. x div es \<notin> bad) [off..<off + c] = [off..<off + c]"
      unfolding filter_id_conv by (metis atLeastLessThan_iff blk set_upt)
    with False show ?thesis by (simp add: good_bytes_def)
  qed
qed

text \<open>A device whose erase blocks are powers of two, below 2 GiB.\<close>

definition eb_geom :: "'f mtd_fd \<Rightarrow> nat \<Rightarrow> bool" where
  "eb_geom fd k \<longleftrightarrow> k < 31 \<and> fd_erasesize fd = 2 ^ k \<and> unat (fd_size fd) < 2 ^ 31 \<and> 2 ^ k dvd unat (fd_size fd)"

lemma unat_exp: "k < LENGTH('a) \<Longrightarrow> unat (2 ^ k :: 'a::len word) = 2 ^ k"
proof -
  assume "k < LENGTH('a)"
  then have "(2 :: nat) ^ k < 2 ^ LENGTH('a)" by (intro power_strict_increasing) simp_all
  then have "unat (of_nat (2 ^ k) :: 'a word) = 2 ^ k" by (rule unat_of_nat_small)
  then show ?thesis by simp
qed

lemma scast_pos:
  assumes "unat w < 2 ^ 31"
  shows "(scast (w :: u32) :: u64) = ucast w" "sint w = int (unat w)"
proof -
  have "int (unat w) < int (2 ^ 31)" using assms by (simp only: of_nat_less_iff)
  then have "uint w < 2 ^ 31" by (simp only: uint_nat of_nat_power of_nat_numeral)
  then have s: "sint w = uint w" by (rule sint_small)
  then show "sint w = int (unat w)" by (simp only: uint_nat)
  show "(scast w :: u64) = ucast w" unfolding scast_eq s ucast_eq ..
qed

lemma eb_size_exp:
  assumes "eb_geom fd k"
  shows "eb_size fd = 2 ^ k" "unat (fd_erasesize fd) = 2 ^ k" "k < 31"
proof -
  show k: "k < 31" using assms by (simp add: eb_geom_def)
  show u: "unat (fd_erasesize fd) = 2 ^ k" using assms k by (simp add: eb_geom_def unat_exp)
  moreover have "(2 :: nat) ^ k < 2 ^ 31" using k by (intro power_strict_increasing) simp_all
  ultimately have "unat (fd_erasesize fd) < 2 ^ 31" by simp
  from scast_pos(1) [OF this] have "eb_size fd = ucast (fd_erasesize fd)" by (simp add: eb_size_def)
  then show "eb_size fd = 2 ^ k" using u k by (simp add: word_unat_eq_iff unat_exp)
qed

lemma eb_size_sint:
  assumes "eb_geom fd k"
  shows "sint (fd_erasesize fd) = 2 ^ k"
proof -
  have "(2 :: nat) ^ k < 2 ^ 31" using eb_size_exp(3) [OF assms] by (intro power_strict_increasing) simp_all
  then show ?thesis using scast_pos(2) [of "fd_erasesize fd"] eb_size_exp(2) [OF assms] by simp
qed

lemma eb_offset:
  assumes "eb_geom fd k"
  shows "unat (off AND (eb_size fd - 1)) = unat off mod 2 ^ k"
    and "unat (eb_base fd off) = unat off - unat off mod 2 ^ k"
    and "off - eb_base fd off = off AND (eb_size fd - 1)"
proof -
  have m: "eb_size fd - 1 = mask k" using eb_size_exp(1) [OF assms] by (simp add: mask_eq_exp_minus_1)
  have t: "unat (take_bit k off) = unat off mod 2 ^ k"
    by (subst unsigned_take_bit_eq) (simp add: take_bit_eq_mod)
  then show lo: "unat (off AND (eb_size fd - 1)) = unat off mod 2 ^ k"
    unfolding m by (simp add: take_bit_eq_mask [symmetric])
  have "off = (off AND NOT (mask k)) + (off AND mask k)"
  proof -
    have "(off AND NOT (mask k)) AND (off AND mask k) = 0" by (rule bit_word_eqI) (auto simp: bit_simps)
    then have "(off AND NOT (mask k)) + (off AND mask k) = (off AND NOT (mask k)) OR (off AND mask k)"
      by (rule disjunctive_add_eq_or)
    also have "\<dots> = off" by (rule bit_word_eqI) (auto simp: bit_simps)
    finally show ?thesis by simp
  qed
  then show d: "off - eb_base fd off = off AND (eb_size fd - 1)"
    unfolding eb_base_def m by (simp add: algebra_simps)
  have "eb_base fd off \<le> off"
  proof -
    have "eb_base fd off = off - (off AND (eb_size fd - 1))" using d by (simp add: algebra_simps)
    moreover have "off AND (eb_size fd - 1) \<le> off" unfolding word_le_unat lo by simp
    ultimately show ?thesis by (simp add: word_le_unat unat_sub_le)
  qed
  then show "unat (eb_base fd off) = unat off - unat off mod 2 ^ k"
    using arg_cong [OF d, of unat] lo by (simp add: unat_sub_le word_le_unat)
qed

lemma unat_u64_u32: "unat (x :: u64) < 2 ^ 32 \<Longrightarrow> unat (ucast x :: u32) = unat x"
  by (rule unat_ucast_small) simp

lemma block_is_bad_iff:
  assumes ok: "flash_ok fd D mem bad" "f \<in> D" and geom: "eb_geom fd k" and off: "unat off < unat (fd_size fd)"
  shows "mtd_block_is_bad fd f (ucast (eb_base fd off)) = Return (unat off div 2 ^ k \<in> bad)"
proof (cases "fd_nand fd")
  case False
  then have "bad = {}" using ok by (simp add: flash_ok_def)
  with False show ?thesis by (simp add: mtd_block_is_bad_def)
next
  case True
  have sz: "unat (fd_size fd) < 2 ^ 31" using geom by (simp add: eb_geom_def)
  have le: "unat (eb_base fd off) \<le> unat off" using eb_offset(2) [OF geom, of off] by simp
  then have lt: "unat (eb_base fd off) < 2 ^ 31" using off sz by simp
  then have u: "unat (ucast (eb_base fd off) :: u32) = unat (eb_base fd off)" by (intro unat_u64_u32) simp
  have "(scast (ucast (eb_base fd off) :: u32) :: u64) = ucast (ucast (eb_base fd off) :: u32)"
    using lt u by (intro scast_pos) simp
  also have "\<dots> = eb_base fd off" by (simp add: word_unat_eq_iff u)
  finally have s: "(scast (ucast (eb_base fd off) :: u32) :: u64) = eb_base fd off" .
  have "unat (eb_base fd off) div 2 ^ k = unat off div 2 ^ k"
    unfolding eb_offset(2) [OF geom] by (simp add: minus_mod_eq_mult_div)
  moreover have "fd_badblock fd f (eb_base fd off) = (if unat (eb_base fd off) div unat (fd_erasesize fd) \<in> bad then 1 else 0)"
    using ok le off by (simp add: flash_ok_def)
  ultimately show ?thesis
    using True by (simp add: mtd_block_is_bad_def s eb_size_exp(2) [OF geom])
qed

lemma trx_collect_spec:
  assumes ok: "flash_ok fd D mem bad" "f \<in> D" and geom: "eb_geom fd k"
  shows "unat off + unat sz \<le> unat (fd_size fd) \<Longrightarrow>
    trx_collect fd f off sz buf = Some (Return (buf @ good_bytes (2 ^ k) bad (mem f) (unat off) (unat sz)))"
proof (induction "unat sz" arbitrary: off sz buf rule: less_induct)
  case less
  show ?case
  proof (cases "sz = 0")
    case True
    then show ?thesis by (subst trx_collect.simps) (simp add: good_bytes_def)
  next
    case False
    then have pos: "0 < unat sz" by (simp add: unat_gt_0)
    let ?x = "unat off mod 2 ^ k"
    define c where "c = min (eb_size fd - (off AND (eb_size fd - 1))) sz"
    have e: "unat (eb_size fd) = 2 ^ k" using eb_size_exp [OF geom] by (simp add: unat_exp)
    have o: "unat (off AND (eb_size fd - 1)) = ?x" by (rule eb_offset(1) [OF geom])
    have x: "?x < 2 ^ k" by simp
    have "unat (eb_size fd - (off AND (eb_size fd - 1))) = 2 ^ k - ?x"
      using x by (subst unat_sub_le) (simp_all add: word_le_unat e o)
    then have c: "unat c = min (2 ^ k - ?x) (unat sz)"
      unfolding c_def min_def by (simp add: word_le_unat)
    then have cb: "0 < unat c" "unat c \<le> unat sz" "?x + unat c \<le> 2 ^ k" using x pos by linarith+
    have sz: "unat (fd_size fd) < 2 ^ 31" using geom by (simp add: eb_geom_def)
    have off': "unat (off + c) = unat off + unat c" using less.prems cb(2) sz by (simp add: unat_word_ariths)
    have sz': "unat (sz - c) = unat sz - unat c" using cb(2) by (simp add: unat_sub_le word_le_unat)
    have gb: "good_bytes (2 ^ k) bad (mem f) (unat off) (unat sz) =
        (if unat off div 2 ^ k \<in> bad then [] else map (mem f) [unat off..<unat off + unat c]) @
        good_bytes (2 ^ k) bad (mem f) (unat (off + c)) (unat (sz - c))"
      using good_bytes_split [of "2 ^ k" bad "mem f" "unat off" "unat c" "unat sz - unat c"] cb(2)
      by (simp add: good_bytes_block [OF cb(3)] off' sz')
    have rest: "trx_collect fd f (off + c) (sz - c) b = Some (Return (b @ good_bytes (2 ^ k) bad (mem f) (unat (off + c)) (unat (sz - c))))" for b
      using cb less.prems by (intro less.hyps) (simp_all add: off' sz')
    have bd: "mtd_block_is_bad fd f (ucast (eb_base fd off)) = Return (unat off div 2 ^ k \<in> bad)"
      using less.prems pos by (intro block_is_bad_iff [OF ok geom]) linarith
    have rd: "fd_pread fd f off c = (int (unat c), map (mem f) [unat off..<unat off + unat c])"
      using less.prems cb(2) by (intro flash_read [OF ok]) linarith
    show ?thesis
      unfolding gb using False bd rd rest
      by (subst trx_collect.simps) (simp add: Let_def c_def [symmetric])
  qed
qed

section \<open>The repaired header\<close>

definition word_at :: "(nat \<Rightarrow> u8) \<Rightarrow> nat \<Rightarrow> u32" where
  "word_at m x = rd32 (map m [x..<x + 4]) 0"

lemma rd32_map_upt: "x + k + 4 \<le> y \<Longrightarrow> rd32 (map m [x..<y]) k = word_at m (x + k)"
  by (auto simp: word_at_def rd32_def rd8_def add.assoc less_diff_conv)

definition trx_span :: "nat \<Rightarrow> u64 \<Rightarrow> nat" where
  "trx_span k data_size = (if data_size = 0 then 2 ^ k - 12 else unat data_size + 16)"

text \<open>
  The header lies in one good block, and the data of the checksum in the device.
\<close>

definition trx_site :: "'f mtd_fd \<Rightarrow> nat \<Rightarrow> nat set \<Rightarrow> u64 \<Rightarrow> u64 \<Rightarrow> bool" where
  "trx_site fd k bad off data_size \<longleftrightarrow> eb_geom fd k \<and> unat off mod 2 ^ k + 12 \<le> 2 ^ k \<and>
     unat off div 2 ^ k \<notin> bad \<and> unat off + 12 + trx_span k data_size \<le> unat (fd_size fd)"

lemma trx_site_block:
  assumes "trx_site fd k bad off data_size"
  shows "unat (eb_base fd off) + 2 ^ k \<le> unat (fd_size fd)" "2 ^ k dvd unat (eb_base fd off)"
    "unat (eb_base fd off) + unat off mod 2 ^ k = unat off"
    "good_region (2 ^ k) bad (unat (eb_base fd off)) (2 ^ k)"
    "unat (ucast (eb_base fd off) :: u32) = unat (eb_base fd off)"
proof -
  have geom: "eb_geom fd k" using assms by (simp add: trx_site_def)
  have b: "unat (eb_base fd off) = unat off div 2 ^ k * 2 ^ k"
    unfolding eb_offset(2) [OF geom] by (simp add: minus_mod_eq_div_mult)
  obtain n where n: "unat (fd_size fd) = n * 2 ^ k" using geom by (auto simp: eb_geom_def dvd_def mult.commute)
  have "unat off < unat (fd_size fd)" using assms by (simp add: trx_site_def)
  then have "unat off div 2 ^ k < n" unfolding n by (simp add: div_less_iff_less_mult)
  then have "(unat off div 2 ^ k + 1) * 2 ^ k \<le> n * 2 ^ k" by (intro mult_le_mono1) simp
  then show le: "unat (eb_base fd off) + 2 ^ k \<le> unat (fd_size fd)" by (simp add: b n add_mult_distrib)
  show "2 ^ k dvd unat (eb_base fd off)" by (simp add: b)
  show "unat (eb_base fd off) + unat off mod 2 ^ k = unat off"
    unfolding b by (rule div_mult_mod_eq)
  have "x div 2 ^ k = unat off div 2 ^ k" if "unat (eb_base fd off) \<le> x" "x < unat (eb_base fd off) + 2 ^ k" for x
    using that unfolding b by (intro div_nat_eqI) (simp_all add: algebra_simps)
  then show "good_region (2 ^ k) bad (unat (eb_base fd off)) (2 ^ k)"
    using assms by (auto simp: good_region_def trx_site_def)
  have "unat (fd_size fd) < 2 ^ 31" using geom by (simp add: eb_geom_def)
  with le show "unat (ucast (eb_base fd off) :: u32) = unat (eb_base fd off)" by (intro unat_u64_u32) simp
qed

lemma le32_word_at: "le32 (word_at m x) = map m [x..<x + 4]"
  by (simp add: word_at_def le32_rd32)

lemma word_at_put: "word_at (put_bytes m x (le32 w @ bs)) x = w"
proof -
  have "map (put_bytes m x (le32 w @ bs)) [x..<x + 4] = le32 w"
    by (intro nth_equalityI) (simp_all add: put_bytes_def nth_append)
  then show ?thesis by (simp add: word_at_def)
qed

lemma put_bytes_map: "put_bytes m x (map m [x..<x + n]) = m"
  by (auto simp: put_bytes_def fun_eq_iff)

lemma put_bytes_same: "put_bytes m x (le32 (word_at m x) @ le32 (word_at m (x + 4))) = m"
proof -
  have "le32 (word_at m x) @ le32 (word_at m (x + 4)) = map m [x..<x + 8]"
    using upt_add_eq_append [of x "x + 4" 4] by (simp add: le32_word_at add.assoc)
  then show ?thesis by (simp only: put_bytes_map)
qed

lemma put_trx_block:
  assumes "x + h + 12 \<le> x + n"
  shows "put_bytes m x (trx_put (map m [x..<x + n]) h len crc) = put_bytes m (x + h + 4) (le32 len @ le32 crc)"
proof
  fix y
  have l: "length (trx_put (map m [x..<x + n]) h len crc) = n" using assms by (simp add: trx_put_def)
  consider "y < x + h + 4" | "x + h + 4 \<le> y" "y < x + h + 8" | "x + h + 8 \<le> y" "y < x + h + 12" | "x + h + 12 \<le> y" by linarith
  then show "put_bytes m x (trx_put (map m [x..<x + n]) h len crc) y = put_bytes m (x + h + 4) (le32 len @ le32 crc) y"
    using assms by cases (auto simp: put_bytes_def l trx_put_def nth_append min_def add.assoc)
qed

lemma trx_span_word:
  assumes "trx_site fd k bad off data_size"
  shows "unat (if data_size \<noteq> 0 then data_size + TRX_CRC32_DATA_SIZE else eb_size fd - TRX_CRC32_DATA_OFFSET) = trx_span k data_size"
    "unat (off + TRX_CRC32_DATA_OFFSET) = unat off + 12"
proof -
  have geom: "eb_geom fd k" using assms by (simp add: trx_site_def)
  have sz: "unat (fd_size fd) < 2 ^ 31" using geom by (simp add: eb_geom_def)
  have le: "unat off + 12 + trx_span k data_size < 2 ^ 31" using assms sz by (simp add: trx_site_def)
  then show "unat (off + TRX_CRC32_DATA_OFFSET) = unat off + 12" by (simp add: unat_word_ariths)
  have e: "unat (eb_size fd) = 2 ^ k" using eb_size_exp [OF geom] by (simp add: unat_exp)
  have "12 \<le> (2 :: nat) ^ k" using assms by (simp add: trx_site_def)
  then have "unat (eb_size fd - 12) = 2 ^ k - 12" by (subst unat_sub_le) (simp_all add: word_le_unat e)
  moreover have "data_size \<noteq> 0 \<Longrightarrow> unat (data_size + 16) = unat data_size + 16"
    using le by (simp add: trx_span_def unat_word_ariths)
  ultimately show "unat (if data_size \<noteq> 0 then data_size + TRX_CRC32_DATA_SIZE else eb_size fd - TRX_CRC32_DATA_OFFSET) = trx_span k data_size"
    by (simp add: trx_span_def)
qed

lemma trx_len_word:
  assumes "n + 12 < 2 ^ 31"
  shows "(ucast (of_nat n + 12 :: u64) :: u32) = of_nat (n + 12)"
    "(ucast w = (of_nat n + 12 :: u64)) = (w = (of_nat (n + 12) :: u32))"
proof -
  define len where "len = (of_nat (n + 12) :: u32)"
  have ul: "unat (of_nat n + 12 :: u64) = n + 12" "unat len = n + 12"
    using assms unat_of_nat_small [of "n + 12", where 'a = 64] unat_of_nat_small [of "n + 12", where 'a = 32]
    by (simp_all add: len_def)
  have "(ucast (of_nat n + 12 :: u64) :: u32) = len"
    using assms ul unat_u64_u32 [of "of_nat n + 12"] by (simp add: word_unat_eq_iff)
  moreover have "(ucast w = (of_nat n + 12 :: u64)) = (w = len)"
    using ul by (simp add: word_unat_eq_iff)
  ultimately show "(ucast (of_nat n + 12 :: u64) :: u32) = of_nat (n + 12)"
    "(ucast w = (of_nat n + 12 :: u64)) = (w = (of_nat (n + 12) :: u32))"
    unfolding len_def .
qed

text \<open>On a working device the command is a test of the two header words and, if it fails, their rewrite.\<close>

lemma mtd_fixtrx_run:
  assumes ok: "flash_ok fd D mem bad" "f \<in> D" and site: "trx_site fd k bad off data_size"
    and magic: "swab32 (word_at (mem f) (unat off)) = opt_trxmagic"
    and g: "g = good_bytes (2 ^ k) bad (mem f) (unat off + 12) (trx_span k data_size)"
  shows "\<exists>f' \<in> D. mtd_fixtrx opt_trxmagic fd True True True off data_size f = Some (Return 0, f') \<and>
     mem f' = put_bytes (mem f) (unat off + 4) (le32 (of_nat (length g + 12)) @ le32 (crc32buf g)) \<and>
     (word_at (mem f) (unat off + 4) = of_nat (length g + 12) \<and> word_at (mem f) (unat off + 8) = crc32buf g \<longrightarrow> f' = f)"
proof -
  have geom: "eb_geom fd k" using site by (simp add: trx_site_def)
  note blk = trx_site_block [OF site] and span = trx_span_word [OF site]
  define ds where "ds = (if data_size \<noteq> 0 then data_size + TRX_CRC32_DATA_SIZE else eb_size fd - TRX_CRC32_DATA_OFFSET)"
  define b where "b = unat (eb_base fd off)"
  define h where "h = unat off mod 2 ^ k"
  have ud: "unat ds = trx_span k data_size" using span(1) by (simp add: ds_def)
  have sz: "unat (fd_size fd) < 2 ^ 31" using geom by (simp add: eb_geom_def)
  have bh: "b + h = unat off" "h + 12 \<le> 2 ^ k" using blk(3) site by (simp_all add: b_def h_def trx_site_def)
  have uo: "unat (off - eb_base fd off) = h" by (simp add: eb_offset(1,3) [OF geom] h_def)
  have lim: "unat (off + 12) + unat ds \<le> unat (fd_size fd)" using site span(2) ud by (simp add: trx_site_def)
  have "unat (off + 12 + ds) = unat (off + 12) + unat ds" using lim sz by (simp add: unat_word_ariths)
  then have nofail: "\<not> scast (fd_size fd) < off + 12 + ds"
    using lim scast_pos(1) [OF sz] by (simp add: word_less_unat)
  have e: "unat (eb_size fd) = 2 ^ k" using eb_size_exp [OF geom] by (simp add: unat_exp)
  note es = eb_size_sint [OF geom]
  have rd: "fd_pread fd f (eb_base fd off) (eb_size fd) = (2 ^ k, map (mem f) [b..<b + 2 ^ k])"
    using flash_read [OF ok, of "eb_base fd off" "eb_size fd"] blk(1) by (simp add: e b_def)
  have hd: "rd32 (map (mem f) [b..<b + 2 ^ k]) (h + i) = word_at (mem f) (unat off + i)" if "i \<le> 8" for i
    using that bh by (subst rd32_map_upt) (simp_all add: add.assoc [symmetric])
  have "trx_collect fd f (off + 12) ds [] = Some (Return g)"
    using trx_collect_spec [OF ok geom lim, of "[]"] span(2) by (simp add: g ud)
  note run = this nofail rd uo es
  have lg: "length g \<le> trx_span k data_size" unfolding g by (rule length_good_bytes)
  have gl: "length g + 12 < 2 ^ 31" using lg lim sz span(2) ud by linarith
  define len where "len = (of_nat (length g + 12) :: u32)"
  note cl = trx_len_word [OF gl, folded len_def]
  show ?thesis
  proof (cases "word_at (mem f) (unat off + 4) = len \<and> word_at (mem f) (unat off + 8) = crc32buf g")
    case True
    have "mtd_fixtrx opt_trxmagic fd True True True off data_size f = Some (Return 0, f)"
      using run hd [of 0] hd [of 4] hd [of 8] True cl magic
      by (simp add: mtd_fixtrx_def ds_def [symmetric] Let_def)
    moreover have "put_bytes (mem f) (unat off + 4) (le32 len @ le32 (crc32buf g)) = mem f"
      using put_bytes_same [of "mem f" "unat off + 4"] True by (simp add: add.commute [of 8])
    ultimately show ?thesis using ok(2) unfolding len_def by (intro bexI [of _ f]) simp_all
  next
    case False
    let ?new = "trx_put (map (mem f) [b..<b + 2 ^ k]) h len (crc32buf g)"
    have len: "length ?new = 2 ^ k" using bh(2) by (simp add: trx_put_def)
    obtain f1 where f1: "f1 \<in> D" "mtd_erase_block fd f (ucast (eb_base fd off)) = (0, f1)"
        "mem f1 = put_bytes (mem f) b (replicate (2 ^ k) 0xff)"
      using flash_erase_block [OF ok, of "ucast (eb_base fd off)"] blk by (auto simp: eb_size_exp(2) [OF geom] b_def)
    obtain f2 where f2: "f2 \<in> D" "fd_pwrite fd f1 (eb_base fd off) ?new = (2 ^ k, f2)" "mem f2 = put_bytes (mem f1) b ?new"
      using flash_write [OF ok(1) f1(1), of "eb_base fd off" ?new] blk len
      by (auto simp: eb_size_exp(2) [OF geom] b_def [symmetric] f1(3) put_bytes_def)
    have "mtd_fixtrx opt_trxmagic fd True True True off data_size f = Some (Return 0, f2)"
      using run hd [of 0] hd [of 4] hd [of 8] False cl magic f1(2) f2(2)
      by (auto simp: mtd_fixtrx_def ds_def [symmetric] Let_def)
    moreover have "mem f2 = put_bytes (mem f) (unat off + 4) (le32 len @ le32 (crc32buf g))"
    proof -
      have "mem f2 = put_bytes (mem f) b ?new" using len by (auto simp: f2(3) f1(3) put_bytes_def fun_eq_iff)
      also have "\<dots> = put_bytes (mem f) (b + h + 4) (le32 len @ le32 (crc32buf g))"
        using bh(2) by (intro put_trx_block) simp
      finally show ?thesis by (simp add: bh(1))
    qed
    ultimately show ?thesis using f2(1) False unfolding len_def by blast
  qed
qed

text \<open>
  C36. On a working device whose header of the expected magic lies in one good block, \<open>mtd_fixtrx\<close>
  ends with success. It writes the length and the CRC of the data in good blocks into the
  header and changes no other byte, and a second run finds the header fixed and writes nothing.
\<close>

theorem mtd_fixtrx_repairs_header:
  assumes "flash_ok fd D mem bad" "f \<in> D" "trx_site fd k bad off data_size"
    and "swab32 (word_at (mem f) (unat off)) = opt_trxmagic"
    and "g = good_bytes (2 ^ k) bad (mem f) (unat off + 12) (trx_span k data_size)"
  shows "\<exists>f' \<in> D. mtd_fixtrx opt_trxmagic fd True True True off data_size f = Some (Return 0, f') \<and>
     mem f' = put_bytes (mem f) (unat off + 4) (le32 (of_nat (length g + 12)) @ le32 (crc32buf g)) \<and>
     mtd_fixtrx opt_trxmagic fd True True True off data_size f' = Some (Return 0, f')"
proof -
  let ?hdr = "le32 (of_nat (length g + 12)) @ le32 (crc32buf g)"
  obtain f1 where f1: "f1 \<in> D" "mtd_fixtrx opt_trxmagic fd True True True off data_size f = Some (Return 0, f1)"
      "mem f1 = put_bytes (mem f) (unat off + 4) ?hdr"
    using mtd_fixtrx_run [OF assms] by blast
  have "map (mem f1) [unat off..<unat off + 4] = map (mem f) [unat off..<unat off + 4]"
    by (simp add: f1(3) put_bytes_def)
  then have magic: "swab32 (word_at (mem f1) (unat off)) = opt_trxmagic" using assms(4) by (simp only: word_at_def)
  have "mem f1 x = mem f x" if "unat off + 12 \<le> x" for x using that by (simp add: f1(3) put_bytes_def)
  then have g: "g = good_bytes (2 ^ k) bad (mem f1) (unat off + 12) (trx_span k data_size)"
    unfolding assms(5) good_bytes_def by simp
  have "word_at (mem f1) (unat off + 4) = of_nat (length g + 12)" unfolding f1(3) by (rule word_at_put)
  moreover have "mem f1 = put_bytes (put_bytes (mem f) (unat off + 4) (le32 (of_nat (length g + 12)))) (unat off + 8) (le32 (crc32buf g) @ [])"
    by (auto simp: f1(3) put_bytes_def fun_eq_iff nth_append add.assoc)
  then have "word_at (mem f1) (unat off + 8) = crc32buf g" by (simp only: word_at_put)
  ultimately have "mtd_fixtrx opt_trxmagic fd True True True off data_size f1 = Some (Return 0, f1)"
    using mtd_fixtrx_run [OF assms(1) f1(1) assms(3) magic g] by auto
  then show ?thesis using f1 by blast
qed

text \<open>A device of four blocks of 64 bytes, the second one bad, with a header at the start.\<close>

definition trx_image :: bytes where
  "trx_image = [0x48, 0x44, 0x52, 0x30] @ replicate 252 0"

theorem mtd_fixtrx_repairs_header_witness:
  "\<exists>f'. mtd_fixtrx 0x48445230 (ram_fd 256 64 1 [1]) True True True 0 150 trx_image = Some (Return 0, f') \<and>
     mtd_fixtrx 0x48445230 (ram_fd 256 64 1 [1]) True True True 0 150 f' = Some (Return 0, f')"
proof -
  let ?fd = "ram_fd 256 64 1 [1]"
  have ok: "flash_ok ?fd {f. length f = unat (256 :: u32)} ram_mem {1}" using ram_flash_ok [of 64 256 1 "[1]"] by simp
  have f: "trx_image \<in> {f. length f = unat (256 :: u32)}" by (simp add: trx_image_def)
  have site: "trx_site ?fd 6 {1} 0 150" by (simp add: trx_site_def eb_geom_def ram_fd_def trx_span_def)
  have "map (ram_mem trx_image) [0..<0 + 4] = [0x48, 0x44, 0x52, 0x30]"
    by code_simp
  moreover have "swab32 (rd32 [0x48, 0x44, 0x52, 0x30] 0) = 0x48445230" by code_simp
  ultimately have "swab32 (word_at (ram_mem trx_image) (unat (0 :: u64))) = 0x48445230" by (simp add: word_at_def)
  from mtd_fixtrx_repairs_header [OF ok f site this refl] show ?thesis by blast
qed

end
