(* ===== verification/Mtd_Write.thy ===== *)
theory Mtd_Write
  imports Mtd_Trx
begin

text \<open>
  The commands of \<open>mtd.c\<close> that erase, write and dump a device, as they are built for the MediaTek
  targets (no FIS table, no TP-Link recovery flag), for one device and without the \<open>-j\<close> option.
  Writing an image is shown to store it, padded to whole blocks, in the good blocks of the device
  in their order, and dumping gives it back.
\<close>

section \<open>mtd.c: erase and unlock\<close>

definition mtd_unlock :: "'f mtd_fd \<Rightarrow> bool \<Rightarrow> 'f \<Rightarrow> int outcome \<times> 'f" where
  "mtd_unlock fd open_ok f = (if \<not> open_ok then (Exit1, f) else (Return 0, fd_memunlock fd f 0 (fd_size fd)))"

partial_function (option) mtd_erase_from :: "'f mtd_fd \<Rightarrow> u32 \<Rightarrow> 'f \<Rightarrow> (int outcome \<times> 'f) option" where
  "mtd_erase_from fd start f =
     (if start < fd_size fd then
        case mtd_block_is_bad fd f start of
          Exit1 \<Rightarrow> Some (Exit1, f)
        | Return bad \<Rightarrow>
            mtd_erase_from fd (start + fd_erasesize fd)
              (if bad then f
               else snd (fd_memerase fd (fd_memunlock fd f start (fd_erasesize fd)) start (fd_erasesize fd)))
      else Some (Return 0, f))"

declare mtd_erase_from.simps [code]

definition mtd_erase :: "'f mtd_fd \<Rightarrow> bool \<Rightarrow> 'f \<Rightarrow> (int outcome \<times> 'f) option" where
  "mtd_erase fd open_ok f = (if \<not> open_ok then Some (Exit1, f) else mtd_erase_from fd 0 f)"

section \<open>mtd.c: dump\<close>

text \<open>
  The file position and \<open>size\<close> are passed along; a read that fails returns the negated \<open>errno\<close>,
  here 4 for \<open>EINTR\<close>. \<open>lseek\<close> keeps the position when the new one is past the end.
\<close>

definition fd_seek :: "'f mtd_fd \<Rightarrow> u64 \<Rightarrow> u64 \<Rightarrow> u64" where
  "fd_seek fd pos new = (if new \<le> ucast (fd_size fd) then new else pos)"

abbreviation (input) EINTR :: int where "EINTR \<equiv> 4"

partial_function (option) mtd_dump_loop ::
    "'f mtd_fd \<Rightarrow> 'f \<Rightarrow> u64 \<Rightarrow> int \<Rightarrow> int \<Rightarrow> bytes \<Rightarrow> (int outcome \<times> bytes) option" where
  "mtd_dump_loop fd f pos offset sz out =
     (let len = (if sz > sint (fd_erasesize fd) then sint (fd_erasesize fd) else sz);
          (rlen, bs) = fd_pread fd f pos (word_of_int len)
      in if rlen < 0 then
           if rlen = - EINTR then
             if sz > 0 then mtd_dump_loop fd f pos offset sz out else Some (Return 0, out)
           else Some (Return (- 1), out)
         else if rlen = 0 \<or> rlen \<noteq> len then Some (Return 0, out)
         else
           case mtd_block_is_bad fd f (word_of_int offset) of
             Exit1 \<Rightarrow> Some (Exit1, out)
           | Return bad \<Rightarrow>
               let sz1 = (if bad then sz else sz - rlen);
                   out1 = (if bad then out else out @ take (nat rlen) bs)
               in if sz1 > 0 then mtd_dump_loop fd f (pos + word_of_int rlen) (offset + rlen) sz1 out1
                  else Some (Return 0, out1))"

declare mtd_dump_loop.simps [code]

definition mtd_dump ::
    "'f mtd_fd \<Rightarrow> bool \<Rightarrow> bool \<Rightarrow> u32 \<Rightarrow> u32 \<Rightarrow> 'f \<Rightarrow> (int outcome \<times> bytes) option" where
  "mtd_dump fd open_ok malloc_ok part_offset sz f =
     (if \<not> open_ok then Some (Return (- 1), [])
      else
        let sz1 = (if sz = 0 then fd_size fd else sz);
            pos = (if part_offset \<noteq> 0 then fd_seek fd 0 (scast part_offset) else 0)
        in if \<not> malloc_ok then Some (Return (- 1), [])
           else mtd_dump_loop fd f pos 0 (sint sz1) [])"

section \<open>mtd.c: write\<close>

text \<open>The reads that fill the block buffer.\<close>

function img_fill :: "nat \<Rightarrow> bytes \<Rightarrow> img_event list \<Rightarrow> bytes \<times> img_event list" where
  "img_fill es buf img =
     (if es \<le> length buf then (buf, img)
      else
        case img_read (es - length buf) img of
          (Img_intr, img1) \<Rightarrow> img_fill es buf img1
        | (Img_fail, img1) \<Rightarrow> (buf, img1)
        | (Img_data bs, img1) \<Rightarrow> if bs = [] then (buf, img1) else img_fill es (buf @ bs) img1)"
  by auto

lemma img_read_shrinks:
  "img_read n img = (Img_intr, img') \<Longrightarrow> length img' < length img"
  "img_read n img = (Img_data bs, img') \<Longrightarrow> length img' \<le> length img \<and> length bs \<le> n"
  by (cases "(n, img)" rule: img_read.cases; auto split: if_splits)+

termination img_fill
proof (relation "measure (\<lambda>(es, buf, img). (es - length buf) + length img)", goal_cases)
  case (2 es buf img x img1 bs)
  then show ?case using img_read_shrinks(2) [of "es - length buf" img bs img1] by (cases bs) auto
next
  case (3 es buf img x img1)
  then show ?case using img_read_shrinks(1) [of "es - length buf" img img1] by simp
qed simp

declare img_fill.simps [simp del]

text \<open>
  The loop that erases until there is room for the buffer: \<open>e\<close> is the end of the erased part,
  \<open>skip_bad_blocks\<close> what of it lies in bad blocks. With an erase size of 0 it does not end.
\<close>

partial_function (option) mtd_write_erase ::
    "'f mtd_fd \<Rightarrow> u64 \<Rightarrow> int \<Rightarrow> int \<Rightarrow> int \<Rightarrow> u64 \<Rightarrow> 'f \<Rightarrow> ((int \<times> int \<times> u64) outcome \<times> 'f) option" where
  "mtd_write_erase fd part_offset need e skip_bad_blocks pos f =
     (if need > e - skip_bad_blocks then
        case mtd_block_is_bad fd f (word_of_int e) of
          Exit1 \<Rightarrow> Some (Exit1, f)
        | Return bad \<Rightarrow>
            if bad then
              mtd_write_erase fd part_offset need (e + sint (fd_erasesize fd))
                (skip_bad_blocks + sint (fd_erasesize fd)) (fd_seek fd pos (pos + scast (fd_erasesize fd))) f
            else
              let (r, f1) = mtd_erase_block fd f (ucast (word_of_int e + part_offset))
              in if r < 0 then Some (Exit1, f1)
                 else mtd_write_erase fd part_offset need (e + sint (fd_erasesize fd)) skip_bad_blocks pos f1
      else Some (Return (e, skip_bad_blocks, pos), f))"

declare mtd_write_erase.simps [code]

partial_function (option) mtd_write_loop ::
    "'f mtd_fd \<Rightarrow> bool \<Rightarrow> u64 \<Rightarrow> int \<Rightarrow> int \<Rightarrow> int \<Rightarrow> u64 \<Rightarrow> bytes \<Rightarrow> img_event list \<Rightarrow> 'f \<Rightarrow> (int outcome \<times> 'f) option" where
  "mtd_write_loop fd no_erase part_offset w e skip_bad_blocks pos buf img f =
     (let (buf1, img1) = img_fill (unat (fd_erasesize fd)) buf img
      in if buf1 = [] then Some (Return 0, f)
         else
           let buf2 = buf1 @ replicate (unat (fd_erasesize fd) - length buf1) 0xff;
               buflen = int (length buf2)
           in case (if no_erase then Some (Return (e, skip_bad_blocks, pos), f)
                    else mtd_write_erase fd part_offset (w + buflen) e skip_bad_blocks pos f) of
                None \<Rightarrow> None
              | Some (Exit1, f1) \<Rightarrow> Some (Exit1, f1)
              | Some (Return (e1, skip1, pos1), f1) \<Rightarrow>
                  let (result, f2) = fd_pwrite fd f1 pos1 buf2
                  in if result < buflen then Some (Exit1, f2)
                     else mtd_write_loop fd no_erase part_offset (w + buflen) e1 skip1
                            (pos1 + word_of_int buflen) [] img1 f2)"

declare mtd_write_loop.simps [code]

definition mtd_write ::
    "'f mtd_fd \<Rightarrow> bool \<Rightarrow> bool \<Rightarrow> u64 \<Rightarrow> bytes \<Rightarrow> img_event list \<Rightarrow> 'f \<Rightarrow> (int outcome \<times> 'f) option" where
  "mtd_write fd open_ok no_erase part_offset buf img f =
     (if \<not> open_ok then Some (Exit1, f)
      else mtd_write_loop fd no_erase part_offset 0 0 0
             (if part_offset > 0 then fd_seek fd 0 part_offset else 0) buf img f)"

text \<open>The check of the image, which leaves the bytes it read in the buffer.\<close>

datatype mtd_image_format =
    MTD_IMAGE_FORMAT_UNKNOWN
  | MTD_IMAGE_FORMAT_TRX
  | MTD_IMAGE_FORMAT_SEAMA
  | MTD_IMAGE_FORMAT_WRG
  | MTD_IMAGE_FORMAT_WRGG03

abbreviation (input) SEAMA_MAGIC :: u32 where "SEAMA_MAGIC \<equiv> 0x5ea3a417"
abbreviation (input) WRG_MAGIC :: u32 where "WRG_MAGIC \<equiv> 0x20040220"
abbreviation (input) WRGG03_MAGIC :: u32 where "WRGG03_MAGIC \<equiv> 0x20080321"

function img_magic :: "bytes \<Rightarrow> img_event list \<Rightarrow> bytes \<times> img_event list" where
  "img_magic buf img =
     (if length buf < 4 then
        case img_read (4 - length buf) img of
          (Img_data bs, img1) \<Rightarrow> if bs = [] then (buf, img1) else img_magic (buf @ bs) img1
        | (_, img1) \<Rightarrow> (buf, img1)
      else (buf, img))"
  by auto

termination img_magic
proof (relation "measure (\<lambda>(buf, img). 4 - length buf)", goal_cases)
  case (2 buf img x img1 bs)
  then show ?case by (cases bs) auto
qed simp

declare img_magic.simps [simp del]

definition image_format :: "u32 \<Rightarrow> u32 \<Rightarrow> mtd_image_format" where
  "image_format opt_trxmagic magic =
     (if swab32 magic = opt_trxmagic then MTD_IMAGE_FORMAT_TRX
      else if swab32 magic = SEAMA_MAGIC then MTD_IMAGE_FORMAT_SEAMA
      else if magic = WRG_MAGIC then MTD_IMAGE_FORMAT_WRG
      else if magic = WRGG03_MAGIC then MTD_IMAGE_FORMAT_WRGG03
      else MTD_IMAGE_FORMAT_UNKNOWN)"

definition image_check ::
    "u32 \<Rightarrow> 'f mtd_fd \<Rightarrow> bool \<Rightarrow> bool \<Rightarrow> bytes \<Rightarrow> img_event list \<Rightarrow> int outcome \<times> bytes \<times> img_event list" where
  "image_check opt_trxmagic fd firmware open_ok buf img =
     (let (buf1, img1) = img_magic buf img
      in if length buf1 < 4 then (Return 0, buf1, img1)
         else if image_format opt_trxmagic (rd32 buf1 0) = MTD_IMAGE_FORMAT_TRX then
           let (ret, buf2, len, img2) = trx_check opt_trxmagic fd firmware open_ok img1 buf1
           in (ret, take (nat len) buf2, img2)
         else (Return 1, buf1, img1))"

text \<open>The \<open>write\<close> command of \<open>main\<close>: \<open>mtd_check\<close>, the image check, the unlock and the write.\<close>

definition main_write ::
    "u32 \<Rightarrow> 'f mtd_fd \<Rightarrow> bool \<Rightarrow> bool \<Rightarrow> bool \<Rightarrow> bool \<Rightarrow> u64 \<Rightarrow> img_event list \<Rightarrow> 'f \<Rightarrow> (int outcome \<times> 'f) option" where
  "main_write opt_trxmagic fd open_ok firmware force no_erase part_offset img f =
     (if \<not> open_ok then Some (Exit1, f)
      else
        case image_check opt_trxmagic fd firmware open_ok [] img of
          (Exit1, _) \<Rightarrow> Some (Exit1, f)
        | (Return ok, buf, img1) \<Rightarrow>
            if ok = 0 \<and> \<not> force then Some (Exit1, f)
            else
              case mtd_unlock fd open_ok f of
                (Exit1, f1) \<Rightarrow> Some (Exit1, f1)
              | (Return _, f1) \<Rightarrow> mtd_write fd open_ok no_erase part_offset buf img1 f1)"

section \<open>The image as a byte string\<close>

definition img_bytes :: "img_event list \<Rightarrow> bytes" where
  "img_bytes img = concat (map (\<lambda>ev. case ev of Img_data bs \<Rightarrow> bs | _ \<Rightarrow> []) img)"

definition img_clean :: "img_event list \<Rightarrow> bool" where
  "img_clean img \<longleftrightarrow> Img_fail \<notin> set img \<and> Img_data [] \<notin> set img"

lemma img_bytes_simps [simp]:
  "img_bytes [] = []" "img_bytes (Img_data bs # img) = bs @ img_bytes img" "img_bytes (Img_intr # img) = img_bytes img"
  by (simp_all add: img_bytes_def)

lemma img_clean_simps [simp]:
  "img_clean []" "img_clean (Img_data bs # img) \<longleftrightarrow> bs \<noteq> [] \<and> img_clean img" "img_clean (Img_intr # img) \<longleftrightarrow> img_clean img"
  "\<not> img_clean (Img_fail # img)"
  by (auto simp: img_clean_def)

lemma img_read_clean:
  assumes "img_clean img" "img_read n img = (ev, img')" "0 < n"
  shows "img_clean img'"
    "ev = Img_intr \<and> img_bytes img' = img_bytes img \<or>
     (\<exists>bs. ev = Img_data bs \<and> length bs \<le> n \<and> img_bytes img = bs @ img_bytes img' \<and> (bs = [] \<longrightarrow> img_bytes img = []))"
  using assms by (cases "(n, img)" rule: img_read.cases; auto split: if_splits)+

lemma img_fill_spec:
  "img_clean img \<Longrightarrow> length buf \<le> es \<Longrightarrow>
   \<exists>img'. img_fill es buf img = (take es (buf @ img_bytes img), img') \<and> img_clean img' \<and>
     img_bytes img' = drop es (buf @ img_bytes img)"
proof (induction es buf img rule: img_fill.induct)
  case (1 es buf img)
  show ?case
  proof (cases "es = length buf")
    case True
    then show ?thesis using 1 by (subst img_fill.simps) simp
  next
    case False
    then have lt: "\<not> es \<le> length buf" "0 < es - length buf" using 1 by simp_all
    obtain ev img1 where rd: "img_read (es - length buf) img = (ev, img1)" by fastforce
    note rc = img_read_clean [OF 1(3) rd lt(2)]
    from rc(2) show ?thesis
    proof (elim disjE conjE exE)
      assume ev: "ev = Img_intr" "img_bytes img1 = img_bytes img"
      show ?thesis
        using 1(2) [OF lt(1) rd [symmetric]] 1(4) ev rc(1) rd lt(1) by (subst img_fill.simps) simp
    next
      fix bs assume ev: "ev = Img_data bs" "length bs \<le> es - length buf" "img_bytes img = bs @ img_bytes img1"
        "bs = [] \<longrightarrow> img_bytes img = []"
      show ?thesis
      proof (cases "bs = []")
        case True
        then show ?thesis using ev rd lt rc(1) by (subst img_fill.simps) simp
      next
        case False
        have "length (buf @ bs) \<le> es" using ev(2) lt by simp
        then show ?thesis
          using 1(1) [OF lt(1) rd [symmetric] ev(1) False rc(1)] ev rd lt False by (subst img_fill.simps) simp
      qed
    qed
  qed
qed

lemma img_magic_bytes:
  "img_clean img \<Longrightarrow> img_magic buf img = (buf', img') \<Longrightarrow> length buf \<le> 4 \<Longrightarrow>
   img_clean img' \<and> buf' @ img_bytes img' = buf @ img_bytes img \<and> length buf' \<le> 4"
proof (induction buf img rule: img_magic.induct)
  case (1 buf img)
  show ?case
  proof (cases "length buf < 4")
    case False
    then show ?thesis using 1 by (auto simp: img_magic.simps [of buf])
  next
    case True
    obtain ev img1 where rd: "img_read (4 - length buf) img = (ev, img1)" by fastforce
    have "0 < 4 - length buf" using True by simp
    note rc = img_read_clean [OF 1(2) rd this]
    from rc(2) show ?thesis
    proof (elim disjE conjE exE)
      assume "ev = Img_intr" "img_bytes img1 = img_bytes img"
      then show ?thesis using 1(3,4) rd rc(1) True by (auto simp: img_magic.simps [of buf])
    next
      fix bs assume ev: "ev = Img_data bs" "length bs \<le> 4 - length buf" "img_bytes img = bs @ img_bytes img1"
      show ?thesis
      proof (cases "bs = []")
        case bs: True
        then show ?thesis using 1(3,4) rd rc(1) True ev by (auto simp: img_magic.simps [of buf])
      next
        case bs: False
        then show ?thesis
          using 1(1) [OF True rd [symmetric] ev(1) bs] 1(3) rd rc(1) True ev by (auto simp: img_magic.simps [of buf])
      qed
    qed
  qed
qed

text \<open>An accepted image is complete: the bytes in the buffer and those still to be read.\<close>

lemma image_check_keeps_image:
  assumes clean: "img_clean img" and ok: "image_check opt_trxmagic fd firmware open_ok [] img = (Return ret, buf, img')" "ret \<noteq> 0"
  shows "img_clean img'" "buf @ img_bytes img' = img_bytes img" "length buf \<le> 32"
proof -
  obtain b1 i1 where m: "img_magic [] img = (b1, i1)" by fastforce
  have i1: "img_clean i1" "b1 @ img_bytes i1 = img_bytes img" "length b1 \<le> 4"
    using img_magic_bytes [OF clean m] by simp_all
  have l: "\<not> length b1 < 4" using ok m by (auto simp: image_check_def)
  have "img_clean img' \<and> buf @ img_bytes img' = img_bytes img \<and> length buf \<le> 32"
  proof (cases "image_format opt_trxmagic (rd32 b1 0) = MTD_IMAGE_FORMAT_TRX \<and> firmware")
    case False
    then show ?thesis using ok m l i1 by (auto simp: image_check_def trx_check_def Let_def split: if_splits)
  next
    case True
    obtain ev i2 where rd: "img_read (32 - length b1) i1 = (ev, i2)" by fastforce
    note rc = img_read_clean [OF i1(1) rd]
    from rc(2) i1(3) show ?thesis
      using ok m l True rd rc(1) i1
      by (elim disjE conjE exE) (auto simp: image_check_def trx_check_def Let_def split: if_splits)
  qed
  then show "img_clean img'" "buf @ img_bytes img' = img_bytes img" "length buf \<le> 32" by simp_all
qed

section \<open>The image in the good blocks\<close>

text \<open>The device as \<open>N\<close> erase blocks, below 2 GiB.\<close>

definition blocks_geom :: "'f mtd_fd \<Rightarrow> nat \<Rightarrow> bool" where
  "blocks_geom fd N \<longleftrightarrow> unat (fd_size fd) = N * unat (fd_erasesize fd) \<and> unat (fd_size fd) < 2 ^ 31"

text \<open>
  \<open>lay\<close> stores the data block by block in the blocks \<open>gs\<close>, the last one padded with 0xff;
  \<open>img_pad\<close> is the data with its padding.
\<close>

primrec lay :: "nat \<Rightarrow> nat list \<Rightarrow> bytes \<Rightarrow> (nat \<Rightarrow> u8) \<Rightarrow> nat \<Rightarrow> u8" where
  "lay es [] data m = m"
| "lay es (g # gs) data m =
     (if data = [] then m
      else lay es gs (drop es data) (put_bytes m (g * es) (take es data @ replicate (es - length data) 0xff)))"

definition img_pad :: "nat \<Rightarrow> bytes \<Rightarrow> bytes" where
  "img_pad es data = data @ replicate ((es - length data mod es) mod es) 0xff"

lemma block_is_bad_at:
  assumes ok: "flash_ok fd D mem bad" "f \<in> D" and sz: "unat (fd_size fd) < 2 ^ 31" and x: "x < unat (fd_size fd)"
  shows "mtd_block_is_bad fd f (of_nat x) = Return (x div unat (fd_erasesize fd) \<in> bad)"
proof (cases "fd_nand fd")
  case False
  then have "bad = {}" using ok by (simp add: flash_ok_def)
  with False show ?thesis by (simp add: mtd_block_is_bad_def)
next
  case True
  have u: "unat (of_nat x :: u32) = x" using x sz by (intro unat_of_nat_small) simp
  then have "(scast (of_nat x :: u32) :: u64) = ucast (of_nat x :: u32)" using x sz by (intro scast_pos) simp
  then have "unat (scast (of_nat x :: u32) :: u64) = x" using u by simp
  then have "fd_badblock fd f (scast (of_nat x :: u32)) = (if x div unat (fd_erasesize fd) \<in> bad then 1 else 0)"
    using ok x by (simp add: flash_ok_def)
  then show ?thesis using True by (simp add: mtd_block_is_bad_def)
qed

lemma good_block: "i \<notin> bad \<Longrightarrow> good_region es bad (i * es) es"
  unfolding good_region_def by (metis (no_types, lifting) div_nat_eqI mult.commute mult_Suc add.commute)

lemma filter_upt_Cons:
  assumes "filter P [i..<N] = g # gs"
  shows "i \<le> g" "g < N" "P g" "filter P [Suc g..<N] = gs"
proof -
  obtain us vs where s: "[i..<N] = us @ g # vs" "P g" "gs = filter P vs" using assms unfolding filter_eq_Cons_iff by auto
  have "g \<in> set [i..<N]" unfolding s(1) by simp
  then show g: "i \<le> g" "g < N" by simp_all
  have "length us < N - i" using arg_cong [OF s(1), of length] by simp
  then have "[i..<N] ! length us = i + length us" by simp
  then have "g = i + length us" unfolding s(1) by simp
  moreover have "drop (Suc (length us)) [i..<N] = vs" unfolding s(1) by simp
  ultimately have "vs = [Suc g..<N]" by (simp add: drop_upt)
  then show "P g" "filter P [Suc g..<N] = gs" using s by simp_all
qed

lemma block_end:
  assumes "blocks_geom fd N" "i < N"
  shows "i * unat (fd_erasesize fd) + unat (fd_erasesize fd) \<le> unat (fd_size fd)"
proof -
  have "(i + 1) * unat (fd_erasesize fd) \<le> N * unat (fd_erasesize fd)" using assms(2) by (intro mult_le_mono1) simp
  then show ?thesis using assms(1) by (simp add: blocks_geom_def)
qed

lemma mtd_write_erase_next:
  assumes ok: "flash_ok fd D mem bad" "f \<in> D" and geom: "blocks_geom fd N" and es: "es = unat (fd_erasesize fd)"
    and gs: "filter (\<lambda>g. g \<notin> bad) [i..<N] = g # gs" and need: "need = int (i * es) - skip + int es"
  shows "\<exists>f1 \<in> D. mtd_write_erase fd 0 need (int (i * es)) skip (of_nat (i * es)) f =
      Some (Return (int (Suc g * es), int (Suc g * es) - need, of_nat (g * es)), f1) \<and>
      mem f1 = put_bytes (mem f) (g * es) (replicate es 0xff)"
  using gs need
proof (induction "N - i" arbitrary: i skip)
  case 0
  then show ?case by simp
next
  case (Suc n)
  have i: "i < N" using Suc(2) by simp
  have sz: "unat (fd_size fd) < 2 ^ 31" using geom by (simp add: blocks_geom_def)
  have pos: "0 < es" using ok es by (simp add: flash_ok_def word_neq_0_conv unat_gt_0)
  have bd: "i * es + es \<le> unat (fd_size fd)" using block_end [OF geom i] es by simp
  have "mtd_block_is_bad fd f (of_nat (i * es)) = Return (i * es div unat (fd_erasesize fd) \<in> bad)"
    using bd pos by (intro block_is_bad_at [OF ok sz]) simp
  then have isbad: "mtd_block_is_bad fd f (word_of_int (int (i * es))) = Return (i \<in> bad)"
    using pos by (simp add: es [symmetric])
  have sint: "sint (fd_erasesize fd) = int es" "(scast (fd_erasesize fd) :: u64) = of_nat es"
    using scast_pos [of "fd_erasesize fd"] bd sz es by (simp_all add: word_unat_eq_iff unat_of_nat_small)
  have go: "need > int (i * es) - skip" using Suc.prems(2) pos by simp
  have e1: "int (i * es) + int es = int (Suc i * es)" by simp
  show ?case
  proof (cases "i \<in> bad")
    case True
    have gs: "filter (\<lambda>g. g \<notin> bad) [Suc i..<N] = g # gs" using Suc.prems(1) True i by (simp add: upt_conv_Cons)
    have w: "(of_nat (i * es) :: u64) + of_nat es = of_nat (Suc i * es)" by simp
    have "unat (of_nat (Suc i * es) :: u64) = Suc i * es" using bd sz by (intro unat_of_nat_small) simp
    then have seek: "fd_seek fd (of_nat (i * es)) (of_nat (i * es) + of_nat es) = of_nat (Suc i * es)"
      unfolding w fd_seek_def using bd by (simp add: word_le_unat)
    have "mtd_write_erase fd 0 need (int (i * es)) skip (of_nat (i * es)) f =
        mtd_write_erase fd 0 need (int (Suc i * es)) (skip + int es) (of_nat (Suc i * es)) f"
      by (subst mtd_write_erase.simps) (simp only: go isbad True if_True outcome.case sint seek e1)
    moreover have "need = int (Suc i * es) - (skip + int es) + int es" using Suc.prems(2) by simp
    ultimately show ?thesis using Suc.hyps(1) [of "Suc i"] Suc.hyps(2) gs by simp
  next
    case False
    then have gi: "g = i" using Suc.prems(1) i by (simp add: upt_conv_Cons)
    have "unat (of_nat (i * es) :: u32) = i * es" "unat (of_nat (i * es) :: u64) = i * es"
      using bd sz by (intro unat_of_nat_small; simp)+
    then have st: "(ucast (of_nat (i * es) :: u64) :: u32) = of_nat (i * es)" "unat (of_nat (i * es) :: u32) = i * es"
      using bd sz by (simp_all add: word_unat_eq_iff unat_u64_u32)
    obtain f1 where f1: "f1 \<in> D" "mtd_erase_block fd f (of_nat (i * es)) = (0, f1)"
        "mem f1 = put_bytes (mem f) (i * es) (replicate es 0xff)"
      using flash_erase_block [OF ok, of "of_nat (i * es)"] bd good_block [OF False, of es] st(2) es by auto
    have "mtd_write_erase fd 0 need (int (i * es)) skip (of_nat (i * es)) f =
        mtd_write_erase fd 0 need (int (Suc i * es)) skip (of_nat (i * es)) f1"
      using go isbad False f1(2) st(1) by (subst mtd_write_erase.simps) (simp add: sint add.commute)
    also have "\<dots> = Some (Return (int (Suc i * es), skip, of_nat (i * es)), f1)"
      using Suc.prems(2) by (subst mtd_write_erase.simps) simp
    finally show ?thesis using f1 gi Suc.prems(2) by auto
  qed
qed

lemma mtd_write_loop_lays:
  assumes ok: "flash_ok fd D mem bad" and geom: "blocks_geom fd N" and es: "es = unat (fd_erasesize fd)"
  shows "f \<in> D \<Longrightarrow> img_clean img \<Longrightarrow> length buf \<le> es \<Longrightarrow> data = buf @ img_bytes img \<Longrightarrow>
    filter (\<lambda>g. g \<notin> bad) [i..<N] = gs \<Longrightarrow> length data \<le> es * length gs \<Longrightarrow> w = int (i * es) - skip \<Longrightarrow>
    \<exists>f' \<in> D. mtd_write_loop fd False 0 w (int (i * es)) skip (of_nat (i * es)) buf img f = Some (Return 0, f') \<and>
      mem f' = lay es gs data (mem f)"
proof (induction gs arbitrary: i w skip buf img data f)
  case Nil
  then have "buf = []" "img_bytes img = []" by simp_all
  then obtain img' where "img_fill es buf img = ([], img')" using img_fill_spec [of img buf es] Nil(2) by auto
  then have "mtd_write_loop fd False 0 w (int (i * es)) skip (of_nat (i * es)) buf img f = Some (Return 0, f)"
    using es by (subst mtd_write_loop.simps) simp
  then show ?case using Nil(1) by auto
next
  case (Cons g gs)
  have pos: "0 < es" using ok es by (simp add: flash_ok_def word_neq_0_conv unat_gt_0)
  obtain img' where fill: "img_fill es buf img = (take es data, img')" "img_clean img'" "img_bytes img' = drop es data"
    using img_fill_spec [of img buf es] Cons.prems(2-4) by auto
  show ?case
  proof (cases "data = []")
    case True
    then have "mtd_write_loop fd False 0 w (int (i * es)) skip (of_nat (i * es)) buf img f = Some (Return 0, f)"
      using fill(1) es by (subst mtd_write_loop.simps) simp
    then show ?thesis using Cons.prems(1) True by auto
  next
    case False
    note g = filter_upt_Cons [OF Cons.prems(5)]
    define blk where "blk = take es data @ replicate (es - length data) 0xff"
    have blk: "length blk = es" "take es data @ replicate (es - length (take es data)) 0xff = blk" by (simp_all add: blk_def)
    define need where "need = w + int es"
    define skip1 where "skip1 = int (Suc g * es) - need"
    obtain f1 where f1: "f1 \<in> D" "mem f1 = put_bytes (mem f) (g * es) (replicate es 0xff)"
        "mtd_write_erase fd 0 need (int (i * es)) skip (of_nat (i * es)) f =
           Some (Return (int (Suc g * es), skip1, of_nat (g * es)), f1)"
      using mtd_write_erase_next [OF ok Cons.prems(1) geom es Cons.prems(5), of need skip] Cons.prems(7)
      by (auto simp: need_def skip1_def)
    have bd: "g * es + es \<le> unat (fd_size fd)" "unat (fd_size fd) < 2 ^ 31"
      using block_end [OF geom g(2)] geom es by (simp_all add: blocks_geom_def)
    then have ug: "unat (of_nat (g * es) :: u64) = g * es" by (intro unat_of_nat_small) simp
    obtain f2 where f2: "f2 \<in> D" "fd_pwrite fd f1 (of_nat (g * es)) blk = (int es, f2)"
        "mem f2 = put_bytes (mem f1) (g * es) blk"
      using flash_write [OF ok f1(1), of "of_nat (g * es)" blk] bd good_block [OF g(3), of es] ug blk(1) es
      by (auto simp: f1(2) put_bytes_def)
    have next_pos: "(of_nat (g * es) :: u64) + word_of_int (int es) = of_nat (Suc g * es)" by simp
    have w1: "need = int (Suc g * es) - skip1" by (simp add: skip1_def)
    have "length (drop es data) \<le> es * length gs" using Cons.prems(6) by simp
    then obtain f3 where f3: "f3 \<in> D" "mem f3 = lay es gs (drop es data) (mem f2)"
        "mtd_write_loop fd False 0 need (int (Suc g * es)) skip1 (of_nat (Suc g * es)) [] img' f2 = Some (Return 0, f3)"
      using Cons.IH [OF f2(1) fill(2) _ _ g(4) _ w1, of "[]" "drop es data"] fill(3) by auto
    have "mtd_write_loop fd False 0 w (int (i * es)) skip (of_nat (i * es)) buf img f = Some (Return 0, f3)"
      using False pos
      by (subst mtd_write_loop.simps, simp only: es [symmetric] fill(1) Let_def prod.case blk need_def [symmetric] if_False f1(3)
          option.case outcome.case f2(2) next_pos f3(3)) simp
    moreover have "mem f2 = put_bytes (mem f) (g * es) blk"
      using blk(1) by (auto simp: f2(3) f1(2) put_bytes_def fun_eq_iff)
    ultimately show ?thesis using f3 False by (auto simp: blk_def)
  qed
qed

lemma lay_other: "x div es \<notin> set gs \<Longrightarrow> lay es gs data m x = m x"
proof (induction gs arbitrary: data m)
  case (Cons g gs)
  have "put_bytes m (g * es) (take es data @ replicate (es - length data) 0xff) x = m x"
  proof -
    have "x div es = g" if "g * es \<le> x" "x < g * es + es"
      using that by (intro div_nat_eqI) (simp_all add: algebra_simps)
    moreover have "length (take es data @ replicate (es - length data) 0xff) = es" by simp
    ultimately show ?thesis using Cons.prems unfolding put_bytes_def by (metis list.set_intros(1))
  qed
  then show ?case using Cons by simp
qed simp

lemma img_pad_step:
  assumes "0 < es" "data \<noteq> []"
  shows "img_pad es data = (take es data @ replicate (es - length data) 0xff) @ img_pad es (drop es data)"
proof (cases "es \<le> length data")
  case True
  then have "length data mod es = (length data - es) mod es" by (simp add: le_mod_geq)
  then show ?thesis using True by (simp add: img_pad_def)
next
  case False
  then show ?thesis using assms by (simp add: img_pad_def)
qed

lemma good_bytes_lay:
  assumes es: "0 < es"
  shows "i \<le> N \<Longrightarrow> filter (\<lambda>g. g \<notin> bad) [i..<N] = gs \<Longrightarrow> length data \<le> es * length gs \<Longrightarrow>
    good_bytes es bad (lay es gs data m) (i * es) ((N - i) * es) =
      img_pad es data @ drop (length (img_pad es data)) (good_bytes es bad m (i * es) ((N - i) * es))"
proof (induction "N - i" arbitrary: i gs data m)
  case 0
  then show ?case by (simp add: good_bytes_def img_pad_def)
next
  case (Suc n)
  then have i: "i < N" "n = N - Suc i" "Suc i \<le> N" by simp_all
  have len: "(N - i) * es = es + (N - Suc i) * es" using i(1) by (simp add: Suc_diff_Suc [symmetric])
  have split: "good_bytes es bad m' (i * es) ((N - i) * es) =
      (if i \<in> bad then [] else map m' [i * es..<i * es + es]) @ good_bytes es bad m' (Suc i * es) ((N - Suc i) * es)" for m'
    unfolding len good_bytes_split using good_bytes_block [of "i * es" es es bad m'] es
    by (simp add: add.commute)
  show ?case
  proof (cases "i \<in> bad")
    case True
    then have "filter (\<lambda>g. g \<notin> bad) [Suc i..<N] = gs" using Suc.prems(2) i by (simp add: upt_conv_Cons)
    from Suc.hyps(1) [OF i(2,3) this Suc.prems(3)] True show ?thesis by (simp only: split if_True append_Nil)
  next
    case False
    then obtain gs' where gs: "gs = i # gs'" "filter (\<lambda>g. g \<notin> bad) [Suc i..<N] = gs'"
      using Suc.prems(2) i by (force simp: upt_conv_Cons)
    show ?thesis
    proof (cases "data = []")
      case True
      then show ?thesis by (simp add: gs(1) img_pad_def)
    next
      case ne: False
      define blk where "blk = take es data @ replicate (es - length data) 0xff"
      define m1 where "m1 = put_bytes m (i * es) blk"
      have blk: "length blk = es" by (simp add: blk_def)
      have "lay es gs' (drop es data) m1 x = m1 x" if "i * es \<le> x" "x < i * es + es" for x
      proof -
        have "x div es = i" using that by (intro div_nat_eqI) (simp_all add: algebra_simps)
        then show ?thesis using gs(2) by (intro lay_other) auto
      qed
      then have fst: "map (lay es gs data m) [i * es..<i * es + es] = blk"
        using ne blk by (intro nth_equalityI) (simp_all add: gs(1) blk_def [symmetric] m1_def [symmetric], simp add: m1_def put_bytes_def)
      have "length (drop es data) \<le> es * length gs'" using Suc.prems(3) gs(1) by simp
      note rest = Suc.hyps(1) [OF i(2,3) gs(2) this, of m1]
      have same: "good_bytes es bad m1 (Suc i * es) ((N - Suc i) * es) = good_bytes es bad m (Suc i * es) ((N - Suc i) * es)"
        using blk by (auto simp: good_bytes_def m1_def put_bytes_def)
      have "good_bytes es bad (lay es gs data m) (i * es) ((N - i) * es) =
          blk @ good_bytes es bad (lay es gs' (drop es data) m1) (Suc i * es) ((N - Suc i) * es)"
        unfolding split fst using False ne by (simp add: gs(1) blk_def m1_def)
      then show ?thesis
        unfolding rest same split [of m] img_pad_step [OF es ne] blk_def [symmetric] using False blk by simp
    qed
  qed
qed

lemma image_check_long:
  assumes "img_clean img" "fst (image_check opt_trxmagic fd firmware open_ok [] img) = Return ret" "ret \<noteq> 0"
  shows "4 \<le> length (img_bytes img)"
proof -
  obtain b1 i1 where m: "img_magic [] img = (b1, i1)" by fastforce
  have "\<not> length b1 < 4" using assms(2,3) m by (auto simp: image_check_def)
  moreover have "length b1 \<le> length (img_bytes img)"
    using img_magic_bytes [OF assms(1) m] by (metis append_Nil length_append le_add1 list.size(3) zero_le)
  ultimately show ?thesis by simp
qed

lemma length_img_pad:
  assumes "0 < es"
  shows "\<exists>k. length (img_pad es data) = k * es \<and> (\<forall>n. length data \<le> es * n \<longrightarrow> k \<le> n)"
proof (induction "length data" arbitrary: data rule: less_induct)
  case less
  show ?case
  proof (cases "data = []")
    case False
    then obtain k where k: "length (img_pad es (drop es data)) = k * es" "\<forall>n. length data - es \<le> es * n \<longrightarrow> k \<le> n"
      using less [of "drop es data"] assms by auto
    have "Suc k \<le> n" if "length data \<le> es * n" for n
      using that k(2) False by (cases n) (auto simp: le_diff_conv add.commute)
    moreover have "length (img_pad es data) = Suc k * es"
      unfolding img_pad_step [OF assms False] using k(1) by simp
    ultimately show ?thesis by blast
  qed (auto simp: img_pad_def intro: exI [of _ 0])
qed

lemma length_good_blocks:
  assumes "i \<le> N" "0 < es"
  shows "length (good_bytes es bad m (i * es) ((N - i) * es)) = es * length (filter (\<lambda>g. g \<notin> bad) [i..<N])"
  using assms(1)
proof (induction "N - i" arbitrary: i)
  case 0
  then show ?case by (simp add: good_bytes_def)
next
  case (Suc n)
  then have i: "i < N" by simp
  have len: "(N - i) * es = es + (N - Suc i) * es" using i by (simp add: Suc_diff_Suc [symmetric])
  have "length (good_bytes es bad m (Suc i * es) ((N - Suc i) * es)) = es * length (filter (\<lambda>g. g \<notin> bad) [Suc i..<N])"
    using Suc.hyps(1) [of "Suc i"] Suc.hyps(2) i by simp
  then show ?case
    unfolding len good_bytes_split using good_bytes_block [of "i * es" es es bad m] assms(2) i
    by (simp add: upt_conv_Cons add.commute)
qed

lemma main_write_lays:
  assumes ok: "flash_ok fd D mem bad" "f \<in> D" and geom: "blocks_geom fd N" and es: "es = unat (fd_erasesize fd)" "32 \<le> es"
    and img: "img_clean img" "fst (image_check opt_trxmagic fd firmware True [] img) = Return ret" "ret \<noteq> 0"
    and room: "length (img_bytes img) \<le> length (good_bytes es bad (mem f) 0 (N * es))"
  shows "\<exists>f' \<in> D. main_write opt_trxmagic fd True firmware force False 0 img f = Some (Return 0, f') \<and>
    mem f' = lay es (filter (\<lambda>g. g \<notin> bad) [0..<N]) (img_bytes img) (mem f)"
proof -
  obtain buf img' where chk: "image_check opt_trxmagic fd firmware True [] img = (Return ret, buf, img')"
    using img(2) by (cases "image_check opt_trxmagic fd firmware True [] img") auto
  note keep = image_check_keeps_image [OF img(1) chk img(3)]
  define f1 where "f1 = fd_memunlock fd f 0 (fd_size fd)"
  have f1: "f1 \<in> D" "mem f1 = mem f" using ok by (simp_all add: f1_def flash_ok_def)
  have room': "length (img_bytes img) \<le> es * length (filter (\<lambda>g. g \<notin> bad) [0..<N])"
    using room length_good_blocks [of 0 N es bad "mem f"] es(2) by simp
  have "length buf \<le> es" using keep(3) es(2) by simp
  from mtd_write_loop_lays [OF ok(1) geom es(1) f1(1) keep(1) this keep(2) [symmetric] refl room', of 0 0]
  obtain f2 where f2: "f2 \<in> D" "mtd_write_loop fd False 0 0 0 0 0 buf img' f1 = Some (Return 0, f2)"
      "mem f2 = lay es (filter (\<lambda>g. g \<notin> bad) [0..<N]) (img_bytes img) (mem f1)"
    by auto
  have "main_write opt_trxmagic fd True firmware force False 0 img f = Some (Return 0, f2)"
    using chk img(3) f2(2) by (simp add: main_write_def mtd_unlock_def mtd_write_def f1_def)
  then show ?thesis using f2 f1(2) by auto
qed

lemma mtd_dump_loop_good:
  assumes ok: "flash_ok fd D mem bad" "f \<in> D" and geom: "blocks_geom fd N" and es: "es = unat (fd_erasesize fd)"
  shows "0 < k \<Longrightarrow> k \<le> length (filter (\<lambda>g. g \<notin> bad) [i..<N]) \<Longrightarrow>
    mtd_dump_loop fd f (of_nat (i * es)) (int (i * es)) (int (k * es)) out =
      Some (Return 0, out @ take (k * es) (good_bytes es bad (mem f) (i * es) ((N - i) * es)))"
proof (induction "N - i" arbitrary: i k out)
  case 0
  then show ?case by simp
next
  case (Suc n)
  then have i: "i < N" by simp
  have pos: "0 < es" using ok es by (simp add: flash_ok_def word_neq_0_conv unat_gt_0)
  have bd: "i * es + es \<le> unat (fd_size fd)" "unat (fd_size fd) < 2 ^ 31"
    using block_end [OF geom i] geom es by (simp_all add: blocks_geom_def)
  have sint: "sint (fd_erasesize fd) = int es" using scast_pos(2) [of "fd_erasesize fd"] bd es by simp
  have len: "(if int (k * es) > int es then int es else int (k * es)) = int es"
  proof -
    have "1 * es \<le> k * es" using Suc.prems(1) by (intro mult_le_mono1) simp
    then consider "k * es = es" | "es < k * es" by linarith
    then show ?thesis by cases (simp_all del: of_nat_mult)
  qed
  have u: "unat (of_nat (i * es) :: u64) = i * es" "unat (of_nat es :: u64) = es"
    using bd by (intro unat_of_nat_small; simp)+
  define blk where "blk = map (mem f) [i * es..<i * es + es]"
  have rd: "fd_pread fd f (of_nat (i * es)) (word_of_int (int es)) = (int es, blk)"
    using flash_read [OF ok, of "of_nat (i * es)" "of_nat es"] bd(1) u by (simp add: blk_def)
  have "mtd_block_is_bad fd f (of_nat (i * es)) = Return (i * es div unat (fd_erasesize fd) \<in> bad)"
    using bd pos by (intro block_is_bad_at [OF ok bd(2)]) simp
  then have isbad: "mtd_block_is_bad fd f (word_of_int (int (i * es))) = Return (i \<in> bad)"
    using pos by (simp add: es [symmetric])
  have nxt: "(of_nat (i * es) :: u64) + word_of_int (int es) = of_nat (Suc i * es)" "int (i * es) + int es = int (Suc i * es)"
    by simp_all
  have blen: "take (nat (int es)) blk = blk" "length blk = es" by (simp_all add: blk_def)
  have split: "good_bytes es bad (mem f) (i * es) ((N - i) * es) =
      (if i \<in> bad then [] else blk) @ good_bytes es bad (mem f) (Suc i * es) ((N - Suc i) * es)"
  proof -
    have "(N - i) * es = es + (N - Suc i) * es" using i by (simp add: Suc_diff_Suc [symmetric])
    then show ?thesis
      using good_bytes_block [of "i * es" es es bad "mem f"] pos
      by (simp add: good_bytes_split blk_def add.commute)
  qed
  have step: "mtd_dump_loop fd f (of_nat (i * es)) (int (i * es)) (int (k * es)) out =
      (let sz1 = (if i \<in> bad then int (k * es) else int (k * es) - int es); out1 = (if i \<in> bad then out else out @ blk)
       in if sz1 > 0 then mtd_dump_loop fd f (of_nat (Suc i * es)) (int (Suc i * es)) sz1 out1 else Some (Return 0, out1))"
    using pos by (subst mtd_dump_loop.simps, simp only: sint len rd Let_def prod.case isbad outcome.case nxt blen) simp
  show ?case
  proof (cases "i \<in> bad")
    case True
    then have "k \<le> length (filter (\<lambda>g. g \<notin> bad) [Suc i..<N])" using Suc.prems(2) i by (simp add: upt_conv_Cons)
    then show ?thesis
      unfolding step split using True Suc.hyps(1) [of "Suc i" k out] Suc.hyps(2) Suc.prems(1) pos by simp
  next
    case False
    obtain k' where k: "k = Suc k'" using Suc.prems(1) by (cases k) auto
    have le: "k' \<le> length (filter (\<lambda>g. g \<notin> bad) [Suc i..<N])" using Suc.prems(2) False i k by (simp add: upt_conv_Cons)
    have sz: "int (k * es) - int es = int (k' * es)" by (simp add: k)
    show ?thesis
    proof (cases "k' = 0")
      case True
      then show ?thesis unfolding step split using False blen k by simp
    next
      case k': False
      then show ?thesis
        unfolding step split sz using False Suc.hyps(1) [of "Suc i" k' "out @ blk"] Suc.hyps(2) le pos blen k by simp
    qed
  qed
qed

lemma block_iff:
  assumes "0 < (es :: nat)"
  shows "i * es \<le> x \<and> x < i * es + es \<longleftrightarrow> x div es = i"
proof
  assume "i * es \<le> x \<and> x < i * es + es"
  then show "x div es = i" by (intro div_nat_eqI) (simp_all add: algebra_simps)
next
  assume "x div es = i"
  then have "i * es + x mod es = x" using div_mult_mod_eq [of x es] by simp
  then show "i * es \<le> x \<and> x < i * es + es" using mod_less_divisor [OF assms, of x] by (intro conjI) linarith+
qed

lemma mtd_erase_from_good:
  assumes ok: "flash_ok fd D mem bad" and geom: "blocks_geom fd N" and es: "es = unat (fd_erasesize fd)"
  shows "f \<in> D \<Longrightarrow> i \<le> N \<Longrightarrow> \<exists>f' \<in> D. mtd_erase_from fd (of_nat (i * es)) f = Some (Return 0, f') \<and>
    (\<forall>x. mem f' x = (if i \<le> x div es \<and> x div es < N \<and> x div es \<notin> bad then 0xff else mem f x))"
proof (induction "N - i" arbitrary: i f)
  case 0
  then have "i = N" by simp
  moreover have "N * es < 2 ^ 31" using geom es by (simp add: blocks_geom_def)
  then have "unat (of_nat (N * es) :: u32) = N * es" by (intro unat_of_nat_small) simp
  ultimately have "mtd_erase_from fd (of_nat (i * es)) f = Some (Return 0, f)"
    using geom es by (subst mtd_erase_from.simps) (simp add: word_less_unat blocks_geom_def)
  then show ?case using 0 \<open>i = N\<close> by auto
next
  case (Suc n)
  then have i: "i < N" by simp
  have pos: "0 < es" using ok es by (simp add: flash_ok_def word_neq_0_conv unat_gt_0)
  have bd: "i * es + es \<le> unat (fd_size fd)" "unat (fd_size fd) < 2 ^ 31"
    using block_end [OF geom i] geom es by (simp_all add: blocks_geom_def)
  then have u: "unat (of_nat (i * es) :: u32) = i * es" by (intro unat_of_nat_small) simp
  have "mtd_block_is_bad fd f (of_nat (i * es)) = Return (i * es div unat (fd_erasesize fd) \<in> bad)"
    using bd pos by (intro block_is_bad_at [OF ok Suc.prems(1) bd(2)]) simp
  then have isbad: "mtd_block_is_bad fd f (of_nat (i * es)) = Return (i \<in> bad)"
    using pos by (simp only: es [symmetric]) simp
  define f0 where "f0 = fd_memunlock fd f (of_nat (i * es)) (fd_erasesize fd)"
  have f0: "f0 \<in> D" "mem f0 = mem f" using ok Suc.prems(1) by (simp_all add: f0_def flash_ok_def)
  define f1 where "f1 = (if i \<in> bad then f else snd (fd_memerase fd f0 (of_nat (i * es)) (fd_erasesize fd)))"
  have f1: "f1 \<in> D \<and> mem f1 = (\<lambda>x. if x div es = i \<and> i \<notin> bad then 0xff else mem f x)"
  proof (cases "i \<in> bad")
    case True
    then show ?thesis using Suc.prems(1) by (simp add: f1_def)
  next
    case False
    obtain f' where f': "f' \<in> D" "fd_memerase fd f0 (of_nat (i * es)) (fd_erasesize fd) = (0, f')"
        "mem f' = put_bytes (mem f0) (unat (of_nat (i * es) :: u32)) (replicate (unat (fd_erasesize fd)) 0xff)"
      using flash_erase [OF ok f0(1), of "of_nat (i * es)" "fd_erasesize fd"] u bd(1) es good_block [OF False, of es] by auto
    have "put_bytes (mem f) (i * es) (replicate es 0xff) x = (if x div es = i then 0xff else mem f x)" for x
      using block_iff [OF pos, of i x] less_diff_conv2 [of "i * es" x es] by (auto simp: put_bytes_def add.commute)
    then show ?thesis using f' False f0(2) u by (simp add: f1_def es [symmetric] fun_eq_iff)
  qed
  have st: "mtd_erase_from fd (of_nat (i * es)) f = mtd_erase_from fd (of_nat (Suc i * es)) f1"
  proof -
    have "of_nat (i * es) < fd_size fd" using u bd(1) pos by (simp add: word_less_unat)
    moreover have "(of_nat (i * es) :: u32) + fd_erasesize fd = of_nat (Suc i * es)"
      by (simp add: es add.commute)
    ultimately show ?thesis
      by (subst mtd_erase_from.simps) (simp only: isbad outcome.case if_True f0_def [symmetric] f1_def [symmetric])
  qed
  have n: "n = N - Suc i" using Suc.hyps(2) by simp
  obtain f2 where "f2 \<in> D" "mtd_erase_from fd (of_nat (Suc i * es)) f1 = Some (Return 0, f2)"
      "\<forall>x. mem f2 x = (if Suc i \<le> x div es \<and> x div es < N \<and> x div es \<notin> bad then 0xff else mem f1 x)"
    using Suc.hyps(1) [OF n conjunct1 [OF f1] Suc_leI [OF i]] by blast
  moreover have "(Suc i \<le> b \<and> b < N \<and> b \<notin> bad \<or> b = i \<and> i \<notin> bad) = (i \<le> b \<and> b < N \<and> b \<notin> bad)" for b
    using i by (cases "b = i") auto
  ultimately show ?case using st f1 by (intro bexI [of _ f2]) (auto split: if_splits)
qed

section \<open>Properties\<close>

text \<open>A device of eight blocks of 32 bytes, the second one bad, and an image in two parts.\<close>

abbreviation (input) demo_fd :: "bytes mtd_fd" where "demo_fd \<equiv> ram_fd 256 32 1 [1]"

definition demo_img :: "img_event list" where
  "demo_img = [Img_data (replicate 20 7), Img_intr, Img_data (replicate 30 9)]"

lemma demo_device:
  "flash_ok demo_fd {f. length f = unat (256 :: u32)} ram_mem {1}" "blocks_geom demo_fd 8"
  "32 = unat (fd_erasesize demo_fd)" "(32 :: nat) \<le> 32"
  using ram_flash_ok [of 32 256 1 "[1]"] by (simp_all add: blocks_geom_def ram_fd_def)

lemma demo_accepted:
  "img_clean demo_img" "fst (image_check 0x48445230 demo_fd False True [] demo_img) = Return 1"
  by (simp add: demo_img_def) code_simp

lemma demo_room: "length (img_bytes demo_img) \<le> length (good_bytes 32 {1} m 0 (8 * 32))"
proof -
  have "length (good_bytes 32 {1} m (0 * 32) ((8 - 0) * 32)) = 32 * length (filter (\<lambda>g. g \<notin> {1 :: nat}) [0..<8])"
    by (rule length_good_blocks) simp_all
  moreover have "length (filter (\<lambda>g. g \<notin> {1 :: nat}) [0..<8]) = 7" by code_simp
  ultimately show ?thesis by (simp add: demo_img_def)
qed

text \<open>
  C34. The \<open>write\<close> command with an image that its check accepts and that fits in the good blocks
  ends with success. Read through the good blocks, the device then holds the image, padded
  with 0xff to whole blocks, and after it what it held before; bad blocks and everything
  past the device are not touched. The bytes the check consumed are not lost.
\<close>

theorem main_write_stores_image:
  assumes "flash_ok fd D mem bad" "f \<in> D" "blocks_geom fd N" "es = unat (fd_erasesize fd)" "32 \<le> es"
    and "img_clean img" "fst (image_check opt_trxmagic fd firmware True [] img) = Return ret" "ret \<noteq> 0"
    and "length (img_bytes img) \<le> length (good_bytes es bad (mem f) 0 (N * es))"
  shows "\<exists>f' \<in> D. main_write opt_trxmagic fd True firmware force False 0 img f = Some (Return 0, f') \<and>
    good_bytes es bad (mem f') 0 (N * es) =
      img_pad es (img_bytes img) @ drop (length (img_pad es (img_bytes img))) (good_bytes es bad (mem f) 0 (N * es)) \<and>
    (\<forall>x. x div es \<in> bad \<or> N * es \<le> x \<longrightarrow> mem f' x = mem f x)"
proof -
  let ?gs = "filter (\<lambda>g. g \<notin> bad) [0..<N]"
  obtain f' where f': "f' \<in> D" "main_write opt_trxmagic fd True firmware force False 0 img f = Some (Return 0, f')"
      "mem f' = lay es ?gs (img_bytes img) (mem f)"
    using main_write_lays [OF assms] by blast
  have pos: "0 < es" using assms(5) by simp
  have "length (img_bytes img) \<le> es * length ?gs"
    using assms(9) length_good_blocks [of 0 N es bad "mem f"] pos by simp
  then have "good_bytes es bad (mem f') 0 (N * es) =
      img_pad es (img_bytes img) @ drop (length (img_pad es (img_bytes img))) (good_bytes es bad (mem f) 0 (N * es))"
    using good_bytes_lay [OF pos, of 0 N bad ?gs "img_bytes img" "mem f"] by (simp add: f'(3))
  moreover have "mem f' x = mem f x" if "x div es \<in> bad \<or> N * es \<le> x" for x
  proof -
    have "N * es \<le> x \<Longrightarrow> N \<le> x div es" using pos by (simp add: less_eq_div_iff_mult_less_eq)
    then show ?thesis unfolding f'(3) using that by (intro lay_other) auto
  qed
  ultimately show ?thesis using f'(1,2) by blast
qed

theorem main_write_stores_image_witness:
  "\<exists>f'. main_write 0x48445230 demo_fd True False False False 0 demo_img (replicate 256 0) = Some (Return 0, f') \<and>
     good_bytes 32 {1} (ram_mem f') 0 (8 * 32) = img_pad 32 (img_bytes demo_img) @
       drop (length (img_pad 32 (img_bytes demo_img))) (good_bytes 32 {1} (ram_mem (replicate 256 0)) 0 (8 * 32))"
proof -
  have "replicate 256 0 \<in> {f :: bytes. length f = unat (256 :: u32)}" by simp
  from main_write_stores_image [OF demo_device(1) this demo_device(2,3,4) demo_accepted _ demo_room, of False] show ?thesis
    by auto
qed

text \<open>
  C35. Writing an accepted image and dumping as many bytes as it has with its padding gives the
  padded image back.
\<close>

theorem main_write_then_dump:
  assumes "flash_ok fd D mem bad" "f \<in> D" "blocks_geom fd N" "es = unat (fd_erasesize fd)" "32 \<le> es"
    and "img_clean img" "fst (image_check opt_trxmagic fd firmware True [] img) = Return ret" "ret \<noteq> 0"
    and "length (img_bytes img) \<le> length (good_bytes es bad (mem f) 0 (N * es))"
  shows "\<exists>f' \<in> D. main_write opt_trxmagic fd True firmware force False 0 img f = Some (Return 0, f') \<and>
    mtd_dump fd True True 0 (of_nat (length (img_pad es (img_bytes img)))) f' = Some (Return 0, img_pad es (img_bytes img))"
proof -
  let ?gs = "filter (\<lambda>g. g \<notin> bad) [0..<N]" and ?p = "img_pad es (img_bytes img)"
  obtain f' where f': "f' \<in> D" "main_write opt_trxmagic fd True firmware force False 0 img f = Some (Return 0, f')"
      "mem f' = lay es ?gs (img_bytes img) (mem f)"
    using main_write_lays [OF assms] by blast
  have pos: "0 < es" using assms(5) by simp
  have room: "length (img_bytes img) \<le> es * length ?gs"
    using assms(9) length_good_blocks [of 0 N es bad "mem f"] pos by simp
  obtain k where k: "length ?p = k * es" "k \<le> length ?gs" using length_img_pad [OF pos] room by blast
  have "4 \<le> length (img_bytes img)" by (rule image_check_long [OF assms(6-8)])
  then have k0: "0 < k" using k(1) by (cases k) (auto simp: img_pad_def)
  have "k * es \<le> N * es" using k(2) length_filter_le [of "\<lambda>g. g \<notin> bad" "[0..<N]"] by (intro mult_le_mono1) simp
  moreover have "N * es < 2 ^ 31" using assms(3,4) by (simp add: blocks_geom_def)
  ultimately have small: "k * es < 2 ^ 31" by (rule le_less_trans)
  then have u: "unat (of_nat (k * es) :: u32) = k * es" by (intro unat_of_nat_small) simp
  then have nz: "(of_nat (k * es) :: u32) \<noteq> 0" using k0 pos by (simp add: word_unat_eq_iff)
  have "sint (of_nat (k * es) :: u32) = int (unat (of_nat (k * es) :: u32))" using small by (intro scast_pos) (simp only: u)
  then have "sint (of_nat (k * es) :: u32) = int (k * es)" by (simp only: u)
  then have "mtd_dump fd True True 0 (of_nat (k * es)) f' = mtd_dump_loop fd f' (of_nat (0 * es)) (int (0 * es)) (int (k * es)) []"
    using nz by (simp add: mtd_dump_def Let_def del: of_nat_mult)
  also have "\<dots> = Some (Return 0, take (k * es) (good_bytes es bad (mem f') 0 (N * es)))"
    using mtd_dump_loop_good [OF assms(1) f'(1) assms(3,4) k0 k(2), of "[]"] by simp
  also have "good_bytes es bad (mem f') 0 (N * es) = ?p @ drop (length ?p) (good_bytes es bad (mem f) 0 (N * es))"
    using good_bytes_lay [OF pos, of 0 N bad ?gs "img_bytes img" "mem f"] room by (simp add: f'(3))
  finally have "mtd_dump fd True True 0 (of_nat (length ?p)) f' = Some (Return 0, ?p)" using k(1) by simp
  then show ?thesis using f'(1,2) by blast
qed

theorem main_write_then_dump_witness:
  "\<exists>f'. main_write 0x48445230 demo_fd True False False False 0 demo_img (replicate 256 0) = Some (Return 0, f') \<and>
     mtd_dump demo_fd True True 0 (of_nat (length (img_pad 32 (img_bytes demo_img)))) f' =
       Some (Return 0, img_pad 32 (img_bytes demo_img))"
proof -
  have "replicate 256 0 \<in> {f :: bytes. length f = unat (256 :: u32)}" by simp
  from main_write_then_dump [OF demo_device(1) this demo_device(2,3,4) demo_accepted _ demo_room, of False] show ?thesis
    by auto
qed

text \<open>
  The \<open>erase\<close> command ends with success after setting every byte of every good block to 0xff
  and leaves the bad blocks as they were.
\<close>

lemma mtd_erase_good_blocks:
  assumes "flash_ok fd D mem bad" "f \<in> D" "blocks_geom fd N" "es = unat (fd_erasesize fd)"
  shows "\<exists>f' \<in> D. mtd_erase fd True f = Some (Return 0, f') \<and>
    (\<forall>x. mem f' x = (if x < N * es \<and> x div es \<notin> bad then 0xff else mem f x))"
proof -
  have pos: "0 < es" using assms by (simp add: flash_ok_def word_neq_0_conv unat_gt_0)
  have "x div es < N \<longleftrightarrow> x < N * es" for x using pos by (simp add: div_less_iff_less_mult)
  then show ?thesis
    using mtd_erase_from_good [OF assms(1,3,4,2), of 0] by (simp add: mtd_erase_def)
qed

lemma mtd_erase_good_blocks_example:
  "\<exists>f'. mtd_erase demo_fd True (replicate 256 0) = Some (Return 0, f') \<and> ram_mem f' 0 = 0xff \<and> ram_mem f' 32 = 0"
proof -
  have "replicate 256 0 \<in> {f :: bytes. length f = unat (256 :: u32)}" by simp
  from mtd_erase_good_blocks [OF demo_device(1) this demo_device(2,3)]
  obtain f' where "mtd_erase demo_fd True (replicate 256 0) = Some (Return 0, f')"
      "\<forall>x. ram_mem f' x = (if x < 8 * 32 \<and> x div 32 \<notin> {1} then 0xff else ram_mem (replicate 256 0) x)" by blast
  moreover from this(2) [rule_format, of 0] this(2) [rule_format, of 32] have "ram_mem f' 0 = 0xff \<and> ram_mem f' 32 = 0"
    by (simp add: ram_mem_def)
  ultimately show ?thesis by blast
qed

text \<open>
  With \<open>-p\<close> the bad block test is made at the offset without \<open>part_offset\<close>, the erase and the
  write with it: here the image goes to block 1, which is bad.
\<close>

lemma mtd_write_part_offset_bad_block:
  "main_write 0x48445230 (ram_fd 16 4 1 [1]) True False False False 4 [Img_data [1, 2, 3, 4]] (replicate 16 0) =
     Some (Return 0, [0, 0, 0, 0, 1, 2, 3, 4, 0, 0, 0, 0, 0, 0, 0, 0])"
  by code_simp

end
