(* ===== verification/Mtd_Md5.thy ===== *)
theory Mtd_Md5
  imports Flash_Prelude
begin

text \<open>
  The MD5 routines of the \<open>mtd\<close> tool (\<open>md5.c\<close>): a context that is updated byte by byte, shown to
  compute, for a message passed in any pieces, the iteration of \<open>Transform\<close> over the blocks of
  the padded message.
\<close>

section \<open>md5.c\<close>

type_synonym md5_state = "u32 \<times> u32 \<times> u32 \<times> u32"

record MD5_CTX =
  md_i0 :: u32
  md_i1 :: u32
  md_buf :: md5_state
  md_in :: bytes

definition PADDING :: bytes where
  "PADDING = 0x80 # replicate 63 0"

definition ROTATE_LEFT :: "u32 \<Rightarrow> nat \<Rightarrow> u32" where
  "ROTATE_LEFT x n = push_bit n x OR drop_bit (32 - n) x"

definition md5_FF :: "u32 \<Rightarrow> u32 \<Rightarrow> u32 \<Rightarrow> u32 \<Rightarrow> u32 \<Rightarrow> nat \<Rightarrow> u32 \<Rightarrow> u32" where
  "md5_FF a b c d x s ac = ROTATE_LEFT (a + (((b AND c) OR (NOT b AND d)) + x + ac)) s + b"

definition md5_GG :: "u32 \<Rightarrow> u32 \<Rightarrow> u32 \<Rightarrow> u32 \<Rightarrow> u32 \<Rightarrow> nat \<Rightarrow> u32 \<Rightarrow> u32" where
  "md5_GG a b c d x s ac = ROTATE_LEFT (a + (((b AND d) OR (c AND NOT d)) + x + ac)) s + b"

definition md5_HH :: "u32 \<Rightarrow> u32 \<Rightarrow> u32 \<Rightarrow> u32 \<Rightarrow> u32 \<Rightarrow> nat \<Rightarrow> u32 \<Rightarrow> u32" where
  "md5_HH a b c d x s ac = ROTATE_LEFT (a + ((b XOR c XOR d) + x + ac)) s + b"

definition md5_II :: "u32 \<Rightarrow> u32 \<Rightarrow> u32 \<Rightarrow> u32 \<Rightarrow> u32 \<Rightarrow> nat \<Rightarrow> u32 \<Rightarrow> u32" where
  "md5_II a b c d x s ac = ROTATE_LEFT (a + ((c XOR (b OR NOT d)) + x + ac)) s + b"

definition md5_round1 :: "md5_state \<Rightarrow> u32 list \<Rightarrow> md5_state" where
  "md5_round1 buf inp =
     (let (a, b, c, d) = buf;
          a = md5_FF a b c d (inp ! 0) 7 3614090360;
          d = md5_FF d a b c (inp ! 1) 12 3905402710;
          c = md5_FF c d a b (inp ! 2) 17 606105819;
          b = md5_FF b c d a (inp ! 3) 22 3250441966;
          a = md5_FF a b c d (inp ! 4) 7 4118548399;
          d = md5_FF d a b c (inp ! 5) 12 1200080426;
          c = md5_FF c d a b (inp ! 6) 17 2821735955;
          b = md5_FF b c d a (inp ! 7) 22 4249261313;
          a = md5_FF a b c d (inp ! 8) 7 1770035416;
          d = md5_FF d a b c (inp ! 9) 12 2336552879;
          c = md5_FF c d a b (inp ! 10) 17 4294925233;
          b = md5_FF b c d a (inp ! 11) 22 2304563134;
          a = md5_FF a b c d (inp ! 12) 7 1804603682;
          d = md5_FF d a b c (inp ! 13) 12 4254626195;
          c = md5_FF c d a b (inp ! 14) 17 2792965006;
          b = md5_FF b c d a (inp ! 15) 22 1236535329
      in (a, b, c, d))"

definition md5_round2 :: "md5_state \<Rightarrow> u32 list \<Rightarrow> md5_state" where
  "md5_round2 buf inp =
     (let (a, b, c, d) = buf;
          a = md5_GG a b c d (inp ! 1) 5 4129170786;
          d = md5_GG d a b c (inp ! 6) 9 3225465664;
          c = md5_GG c d a b (inp ! 11) 14 643717713;
          b = md5_GG b c d a (inp ! 0) 20 3921069994;
          a = md5_GG a b c d (inp ! 5) 5 3593408605;
          d = md5_GG d a b c (inp ! 10) 9 38016083;
          c = md5_GG c d a b (inp ! 15) 14 3634488961;
          b = md5_GG b c d a (inp ! 4) 20 3889429448;
          a = md5_GG a b c d (inp ! 9) 5 568446438;
          d = md5_GG d a b c (inp ! 14) 9 3275163606;
          c = md5_GG c d a b (inp ! 3) 14 4107603335;
          b = md5_GG b c d a (inp ! 8) 20 1163531501;
          a = md5_GG a b c d (inp ! 13) 5 2850285829;
          d = md5_GG d a b c (inp ! 2) 9 4243563512;
          c = md5_GG c d a b (inp ! 7) 14 1735328473;
          b = md5_GG b c d a (inp ! 12) 20 2368359562
      in (a, b, c, d))"

definition md5_round3 :: "md5_state \<Rightarrow> u32 list \<Rightarrow> md5_state" where
  "md5_round3 buf inp =
     (let (a, b, c, d) = buf;
          a = md5_HH a b c d (inp ! 5) 4 4294588738;
          d = md5_HH d a b c (inp ! 8) 11 2272392833;
          c = md5_HH c d a b (inp ! 11) 16 1839030562;
          b = md5_HH b c d a (inp ! 14) 23 4259657740;
          a = md5_HH a b c d (inp ! 1) 4 2763975236;
          d = md5_HH d a b c (inp ! 4) 11 1272893353;
          c = md5_HH c d a b (inp ! 7) 16 4139469664;
          b = md5_HH b c d a (inp ! 10) 23 3200236656;
          a = md5_HH a b c d (inp ! 13) 4 681279174;
          d = md5_HH d a b c (inp ! 0) 11 3936430074;
          c = md5_HH c d a b (inp ! 3) 16 3572445317;
          b = md5_HH b c d a (inp ! 6) 23 76029189;
          a = md5_HH a b c d (inp ! 9) 4 3654602809;
          d = md5_HH d a b c (inp ! 12) 11 3873151461;
          c = md5_HH c d a b (inp ! 15) 16 530742520;
          b = md5_HH b c d a (inp ! 2) 23 3299628645
      in (a, b, c, d))"

definition md5_round4 :: "md5_state \<Rightarrow> u32 list \<Rightarrow> md5_state" where
  "md5_round4 buf inp =
     (let (a, b, c, d) = buf;
          a = md5_II a b c d (inp ! 0) 6 4096336452;
          d = md5_II d a b c (inp ! 7) 10 1126891415;
          c = md5_II c d a b (inp ! 14) 15 2878612391;
          b = md5_II b c d a (inp ! 5) 21 4237533241;
          a = md5_II a b c d (inp ! 12) 6 1700485571;
          d = md5_II d a b c (inp ! 3) 10 2399980690;
          c = md5_II c d a b (inp ! 10) 15 4293915773;
          b = md5_II b c d a (inp ! 1) 21 2240044497;
          a = md5_II a b c d (inp ! 8) 6 1873313359;
          d = md5_II d a b c (inp ! 15) 10 4264355552;
          c = md5_II c d a b (inp ! 6) 15 2734768916;
          b = md5_II b c d a (inp ! 13) 21 1309151649;
          a = md5_II a b c d (inp ! 4) 6 4149444226;
          d = md5_II d a b c (inp ! 11) 10 3174756917;
          c = md5_II c d a b (inp ! 2) 15 718787259;
          b = md5_II b c d a (inp ! 9) 21 3951481745
      in (a, b, c, d))"

definition Transform :: "md5_state \<Rightarrow> u32 list \<Rightarrow> md5_state" where
  "Transform buf inp =
     (let (a, b, c, d) = md5_round4 (md5_round3 (md5_round2 (md5_round1 buf inp) inp) inp) inp;
          (a0, b0, c0, d0) = buf
      in (a0 + a, b0 + b, c0 + c, d0 + d))"

text \<open>The context is on the stack: its buffer holds anything before the first update.\<close>

definition md5_iv :: md5_state where
  "md5_iv = (0x67452301, 0xefcdab89, 0x98badcfe, 0x10325476)"

definition MD5_Init :: "MD5_CTX \<Rightarrow> MD5_CTX" where
  "MD5_Init ctx = ctx\<lparr>md_i0 := 0, md_i1 := 0, md_buf := md5_iv\<rparr>"

definition md5_mdi :: "MD5_CTX \<Rightarrow> nat" where
  "md5_mdi ctx = unat (drop_bit 3 (md_i0 ctx) AND 0x3F)"

definition md5_add_char :: "u8 \<Rightarrow> nat \<times> MD5_CTX \<Rightarrow> nat \<times> MD5_CTX" where
  "md5_add_char c st =
     (let (mdi, ctx) = st;
          inp = (md_in ctx)[mdi := c]
      in if mdi + 1 = 0x40
         then (0, ctx\<lparr>md_in := inp, md_buf := Transform (md_buf ctx) (rd32s 16 inp 0)\<rparr>)
         else (mdi + 1, ctx\<lparr>md_in := inp\<rparr>))"

definition MD5_Update :: "MD5_CTX \<Rightarrow> bytes \<Rightarrow> MD5_CTX" where
  "MD5_Update ctx inBuf =
     (let inLen = of_nat (length inBuf) :: u32;
          i0 = md_i0 ctx + push_bit 3 inLen;
          i1 = (if i0 < md_i0 ctx then md_i1 ctx + 1 else md_i1 ctx) + drop_bit 29 inLen
      in snd (fold md5_add_char inBuf (md5_mdi ctx, ctx\<lparr>md_i0 := i0, md_i1 := i1\<rparr>)))"

definition md5_out :: "md5_state \<Rightarrow> bytes" where
  "md5_out s = (case s of (a, b, c, d) \<Rightarrow> le32 a @ le32 b @ le32 c @ le32 d)"

definition MD5_Final :: "MD5_CTX \<Rightarrow> bytes" where
  "MD5_Final ctx =
     (let mdi = md5_mdi ctx;
          padLen = (if mdi < 56 then 56 - mdi else 120 - mdi);
          ctx1 = MD5_Update ctx (take padLen PADDING)
      in md5_out (Transform (md_buf ctx1) (rd32s 14 (md_in ctx1) 0 @ [md_i0 ctx, md_i1 ctx])))"

section \<open>The digest of a padded message\<close>

function md5_blocks :: "md5_state \<Rightarrow> bytes \<Rightarrow> md5_state" where
  "md5_blocks s m = (if length m < 64 then s else md5_blocks (Transform s (rd32s 16 m 0)) (drop 64 m))"
  by auto

termination md5_blocks
  by (relation "measure (length \<circ> snd)") auto

declare md5_blocks.simps [simp del]

definition md5_pad :: "bytes \<Rightarrow> bytes" where
  "md5_pad m = m @ 0x80 # replicate ((119 - length m mod 64) mod 64) 0 @ le64 (of_nat (8 * length m))"

definition md5_digest :: "bytes \<Rightarrow> bytes" where
  "md5_digest m = md5_out (md5_blocks md5_iv (md5_pad m))"

lemma md5_blocks_short: "length m < 64 \<Longrightarrow> md5_blocks s m = s"
  by (simp add: md5_blocks.simps)

lemma rd32s_append: "4 * n + k \<le> length xs \<Longrightarrow> rd32s n (xs @ ys) k = rd32s n xs k"
  by (simp add: rd32s_def rd32_append_left)

lemma md5_blocks_append: "64 dvd length a \<Longrightarrow> md5_blocks s (a @ b) = md5_blocks (md5_blocks s a) b"
proof (induction s a rule: md5_blocks.induct)
  case (1 s a)
  show ?case
  proof (cases "a = []")
    case False
    then have l: "64 \<le> length a" using 1(2) by (auto dest: dvd_imp_le)
    then have "64 dvd length (drop 64 a)" using 1(2) by (simp add: dvd_diff_nat)
    then show ?thesis
      using 1(1) l rd32s_append [of 16 0 a b] by (simp add: md5_blocks.simps [of s "a @ b"] md5_blocks.simps [of s a])
  qed (simp add: md5_blocks_short)
qed

text \<open>
  The abstraction: the context stands for the message \<open>m\<close> read so far. Its whole blocks are in
  the state, the rest is in the buffer, and the counters hold the number of bits.
\<close>

definition md5_part :: "nat \<times> MD5_CTX \<Rightarrow> bytes \<Rightarrow> bool" where
  "md5_part st m \<longleftrightarrow> length (md_in (snd st)) = 64 \<and>
     (\<exists>a t. m = a @ t \<and> 64 dvd length a \<and> length t < 64 \<and> fst st = length t \<and>
        md_buf (snd st) = md5_blocks md5_iv a \<and> take (length t) (md_in (snd st)) = t)"

definition md5_count :: "MD5_CTX \<Rightarrow> nat" where
  "md5_count ctx = unat (md_i0 ctx) + 2 ^ 32 * unat (md_i1 ctx)"

definition md5_reads :: "MD5_CTX \<Rightarrow> bytes \<Rightarrow> bool" where
  "md5_reads ctx m \<longleftrightarrow> md5_part (length m mod 64, ctx) m \<and> md5_count ctx = 8 * length m mod 2 ^ 64"

lemma md5_add_char_part:
  assumes "md5_part st m"
  shows "md5_part (md5_add_char c st) (m @ [c])"
proof -
  obtain mdi ctx where st: "st = (mdi, ctx)" by fastforce
  obtain a t where m: "m = a @ t" "64 dvd length a" "length t < 64" "mdi = length t"
      "md_buf ctx = md5_blocks md5_iv a" "take (length t) (md_in ctx) = t" and l: "length (md_in ctx) = 64"
    using assms by (auto simp: md5_part_def st)
  let ?in = "(md_in ctx)[mdi := c]"
  have t1: "take (Suc (length t)) ?in = t @ [c]" using m l by (simp add: take_Suc_conv_app_nth)
  show ?thesis
  proof (cases "length t = 63")
    case False
    then show ?thesis
      using m l t1 by (simp add: md5_add_char_def st md5_part_def) (rule exI [of _ a], rule exI [of _ "t @ [c]"], simp)
  next
    case True
    then have inp: "(md_in ctx)[63 := c] = t @ [c]" using t1 l m(4) by simp
    have "md5_blocks md5_iv (a @ t @ [c]) = Transform (md_buf ctx) (rd32s 16 (t @ [c]) 0)"
      using m True by (simp add: md5_blocks_append md5_blocks.simps [of _ "t @ [c]"] md5_blocks_short)
    then show ?thesis
      using m l True inp by (simp add: md5_add_char_def st md5_part_def Let_def)
  qed
qed

lemma md5_part_mdi: "md5_part st m \<Longrightarrow> fst st = length m mod 64"
  by (auto simp: md5_part_def elim!: dvdE)

lemma md5_fold_part: "md5_part st m \<Longrightarrow> md5_part (fold md5_add_char bs st) (m @ bs)"
proof (induction bs arbitrary: st m)
  case (Cons b bs)
  from Cons.IH [OF md5_add_char_part [OF Cons.prems]] show ?case by simp
qed simp

lemma md5_fold_counters: "md_i0 (snd (fold md5_add_char bs st)) = md_i0 (snd st)" "md_i1 (snd (fold md5_add_char bs st)) = md_i1 (snd st)"
proof -
  have "md_i0 (snd (md5_add_char b st)) = md_i0 (snd st) \<and> md_i1 (snd (md5_add_char b st)) = md_i1 (snd st)" for b st
    by (simp add: md5_add_char_def Let_def split: prod.split)
  then show "md_i0 (snd (fold md5_add_char bs st)) = md_i0 (snd st)" "md_i1 (snd (fold md5_add_char bs st)) = md_i1 (snd st)"
    by (induction bs arbitrary: st) simp_all
qed

lemma md5_mdi_count: "md5_mdi ctx = md5_count ctx div 8 mod 64"
proof -
  have "(0x3F :: u32) = mask 6" by (simp add: mask_eq_exp_minus_1)
  then have "md5_mdi ctx = unat (take_bit 6 (drop_bit 3 (md_i0 ctx)))" by (simp add: md5_mdi_def take_bit_eq_mask)
  also have "\<dots> = unat (md_i0 ctx) div 8 mod 64"
    by (simp add: take_bit_eq_mod drop_bit_eq_div unat_mod unat_div)
  also have "\<dots> = md5_count ctx div 8 mod 64"
  proof -
    have "(x + 8 * (64 * k)) div 8 mod 64 = x div 8 mod 64" for x k :: nat
      by (subst div_mult_self2) simp_all
    from this [of "unat (md_i0 ctx)" "2 ^ 23 * unat (md_i1 ctx)"] show ?thesis by (simp add: md5_count_def)
  qed
  finally show ?thesis .
qed

lemma mod_2_64:
  assumes "a < (2 :: nat) ^ 32"
  shows "a + 2 ^ 32 * (b mod 2 ^ 32) = (a + 2 ^ 32 * b) mod 2 ^ 64"
proof -
  obtain x y where b: "b = x + 2 ^ 32 * y" "b mod 2 ^ 32 = x" "x < 2 ^ 32" using mod_mult_div_eq [of b "2 ^ 32"] by (metis mod_less_divisor zero_less_numeral zero_less_power)
  have "a + 2 ^ 32 * b = (a + 2 ^ 32 * x) + 2 ^ 64 * y" unfolding b(1) by (simp add: algebra_simps)
  moreover have "a + 2 ^ 32 * x < 2 ^ 64" using assms b(3) by simp
  ultimately have "(a + 2 ^ 32 * b) mod 2 ^ 64 = a + 2 ^ 32 * x" by (metis mod_mult_self2 mod_less)
  then show ?thesis by (simp only: b(2))
qed

lemma md5_count_update:
  assumes "length bs < 2 ^ 32"
  shows "md5_count (MD5_Update ctx bs) = (md5_count ctx + 8 * length bs) mod 2 ^ 64"
proof -
  define n where "n = (of_nat (length bs) :: u32)"
  define p where "p = 8 * length bs mod 2 ^ 32"
  define q where "q = length bs div 2 ^ 29"
  let ?i0 = "unat (md_i0 ctx)" and ?i1 = "unat (md_i1 ctx)"
  have n: "unat n = length bs" using assms by (simp add: n_def unat_of_nat_small)
  have p: "unat (push_bit 3 n) = p"
    by (simp add: push_bit_eq_mult unat_word_ariths n p_def mult.commute)
  have q: "unat (drop_bit 29 n) = q" by (simp add: drop_bit_eq_div unat_div n q_def)
  have "8 * length bs div 2 ^ 32 = q" using div_mult_mult1 [of 8 "length bs" "2 ^ 29"] by (simp add: q_def)
  then have pq: "8 * length bs = p + 2 ^ 32 * q" using mod_mult_div_eq [of "8 * length bs" "2 ^ 32"] by (simp only: p_def)
  have i: "?i0 < 2 ^ 32" "p < 2 ^ 32" using unat_less_2p [of "md_i0 ctx"] by (simp_all add: p_def)
  let ?c = "if ?i0 + p < 2 ^ 32 then 0 else 1 :: nat"
  have s: "unat (md_i0 ctx + push_bit 3 n) = (?i0 + p) mod 2 ^ 32" by (simp add: unat_word_ariths p)
  have s': "(?i0 + p) mod 2 ^ 32 + 2 ^ 32 * ?c = ?i0 + p"
    using i by (auto simp: mod_if not_less)
  have carry: "md_i0 ctx + push_bit 3 n < md_i0 ctx \<longleftrightarrow> \<not> ?i0 + p < 2 ^ 32"
    unfolding word_less_unat s using i s' by (auto split: if_splits)
  have i1: "unat ((if md_i0 ctx + push_bit 3 n < md_i0 ctx then md_i1 ctx + 1 else md_i1 ctx) + drop_bit 29 n) = (?i1 + ?c + q) mod 2 ^ 32"
    unfolding carry by (simp add: unat_word_ariths q mod_simps)
  have "md5_count (MD5_Update ctx bs) = (?i0 + p) mod 2 ^ 32 + 2 ^ 32 * ((?i1 + ?c + q) mod 2 ^ 32)"
    unfolding md5_count_def using s i1 by (simp add: MD5_Update_def Let_def md5_fold_counters n_def [symmetric])
  also have "\<dots> = ((?i0 + p) mod 2 ^ 32 + 2 ^ 32 * (?i1 + ?c + q)) mod 2 ^ 64"
    by (rule mod_2_64) simp
  also have "(?i0 + p) mod 2 ^ 32 + 2 ^ 32 * (?i1 + ?c + q) = md5_count ctx + 8 * length bs"
    unfolding md5_count_def pq using s' by (simp add: algebra_simps)
  finally show ?thesis .
qed

lemma md5_reads_mdi:
  assumes "md5_reads ctx m"
  shows "md5_mdi ctx = length m mod 64"
proof -
  have "8 * length m mod 2 ^ 64 = 8 * (length m mod 2 ^ 61)" using mult_mod_right [of 8 "length m" "2 ^ 61"] by simp
  then have "8 * length m mod 2 ^ 64 div 8 mod 64 = length m mod 64" by (simp add: mod_mod_cancel)
  then show ?thesis using assms by (simp add: md5_mdi_count md5_reads_def)
qed

lemma md5_update_reads:
  assumes "md5_reads ctx m" "length bs < 2 ^ 32"
  shows "md5_reads (MD5_Update ctx bs) (m @ bs)"
proof -
  note mdi = md5_reads_mdi [OF assms(1)]
  define ctx1 where "ctx1 = ctx\<lparr>md_i0 := md_i0 (MD5_Update ctx bs), md_i1 := md_i1 (MD5_Update ctx bs)\<rparr>"
  have upd: "MD5_Update ctx bs = snd (fold md5_add_char bs (md5_mdi ctx, ctx1))"
    by (simp add: MD5_Update_def Let_def ctx1_def md5_fold_counters)
  have "md5_part (md5_mdi ctx, ctx1) m" using assms(1) by (simp add: md5_reads_def md5_part_def ctx1_def mdi)
  note part = md5_fold_part [OF this, of bs]
  then have "fst (fold md5_add_char bs (md5_mdi ctx, ctx1)) = length (m @ bs) mod 64"
    by (rule md5_part_mdi)
  then have "md5_part (length (m @ bs) mod 64, MD5_Update ctx bs) (m @ bs)"
    using part upd by (metis prod.collapse)
  moreover have "md5_count (MD5_Update ctx bs) = 8 * length (m @ bs) mod 2 ^ 64"
    using md5_count_update [OF assms(2), of ctx] assms(1) by (simp add: md5_reads_def mod_simps)
  ultimately show ?thesis by (simp add: md5_reads_def)
qed

lemma md5_pieces_reads:
  "md5_reads ctx m \<Longrightarrow> \<forall>bs \<in> set pieces. length bs < 2 ^ 32 \<Longrightarrow>
   md5_reads (fold (\<lambda>bs c. MD5_Update c bs) pieces ctx) (m @ concat pieces)"
proof (induction pieces arbitrary: ctx m)
  case (Cons bs pieces)
  then have "md5_reads (MD5_Update ctx bs) (m @ bs)" by (intro md5_update_reads) simp_all
  from Cons.IH [OF this] Cons.prems(2) show ?case by simp
qed simp

lemma md5_init_reads: "length (md_in ctx) = 64 \<Longrightarrow> md5_reads (MD5_Init ctx) []"
  by (simp add: md5_reads_def md5_part_def MD5_Init_def md5_count_def md5_blocks_short)

lemma md5_pad_split:
  fixes m :: bytes
  defines "r \<equiv> length m mod 64"
  defines "pl \<equiv> if r < 56 then 56 - r else 120 - r"
  shows "md5_pad m = (m @ take pl PADDING) @ le64 (of_nat (8 * length m))" "length (m @ take pl PADDING) mod 64 = 56"
    "pl \<le> 64"
proof -
  have r: "r < 64" by (simp add: r_def)
  have pl: "pl = Suc ((119 - r) mod 64)" "pl \<le> 64" using r by (auto simp: pl_def mod_if)
  then show "pl \<le> 64" by simp
  have "take pl PADDING = 0x80 # replicate ((119 - r) mod 64) 0" using pl by (simp add: PADDING_def min_def)
  then show "md5_pad m = (m @ take pl PADDING) @ le64 (of_nat (8 * length m))" by (simp add: md5_pad_def r_def)
  have "length PADDING = 64" by (simp add: PADDING_def)
  then have "length (m @ take pl PADDING) mod 64 = (r + pl) mod 64" using pl(2) by (simp add: r_def mod_simps)
  then show "length (m @ take pl PADDING) mod 64 = 56" using r by (auto simp: pl_def)
qed

lemma md5_count_words: "le32 (md_i0 ctx) @ le32 (md_i1 ctx) = le64 (of_nat (md5_count ctx))"
proof -
  define w where "w = (of_nat (md5_count ctx) :: u64)"
  have lim: "md5_count ctx < 2 ^ 64"
    using unat_less_2p [of "md_i0 ctx"] unat_less_2p [of "md_i1 ctx"] by (simp add: md5_count_def)
  then have "unat w = md5_count ctx" unfolding w_def by (intro unat_of_nat_small) simp
  then have w: "unat w = unat (md_i0 ctx) + 2 ^ 32 * unat (md_i1 ctx)" by (simp only: md5_count_def)
  have i: "unat (md_i0 ctx) < 2 ^ 32" "unat (md_i1 ctx) < 2 ^ 32" using unat_less_2p [of "md_i0 ctx"] unat_less_2p [of "md_i1 ctx"] by simp_all
  have "unat (ucast w :: u32) = unat w mod 2 ^ 32" by (simp add: unsigned_ucast_eq take_bit_eq_mod)
  then have lo: "(ucast w :: u32) = md_i0 ctx" using i by (simp add: word_unat_eq_iff w)
  have "unat (drop_bit 32 w) = unat w div 2 ^ 32" by (simp add: drop_bit_eq_div unat_div)
  then have "unat (drop_bit 32 w) = unat (md_i1 ctx)" using i by (simp add: w)
  then have hi: "(ucast (drop_bit 32 w) :: u32) = md_i1 ctx" using i by (simp add: word_unat_eq_iff unsigned_ucast_eq take_bit_eq_mod)
  show ?thesis unfolding w_def [symmetric] le64_def lo hi ..
qed

lemma rd32s_le32s_tail: "length xs = 56 \<Longrightarrow> rd32s 16 (xs @ le32 a @ le32 b) 0 = rd32s 14 xs 0 @ [a, b]"
proof -
  assume l: "length xs = 56"
  have "[0..<16] = [0..<14] @ [14, 15 :: nat]" by (simp add: upt_rec)
  moreover have "rd32 (xs @ le32 a @ le32 b) (4 * i) = rd32 xs (4 * i)" if "i < 14" for i
    using that l by (intro rd32_append_left) simp
  moreover have "rd32 (xs @ le32 a @ le32 b) 56 = a" "rd32 (xs @ le32 a @ le32 b) 60 = b"
    using l by (simp_all add: rd32_append_right rd32_append_left)
  ultimately show ?thesis by (simp add: rd32s_def)
qed

lemma MD5_Final_reads:
  assumes "md5_reads ctx m"
  shows "MD5_Final ctx = md5_digest m"
proof -
  define r where "r = length m mod 64"
  define pl where "pl = (if r < 56 then 56 - r else 120 - r)"
  note pad = md5_pad_split [of m, folded r_def, folded pl_def]
  have mdi: "md5_mdi ctx = r" unfolding r_def by (rule md5_reads_mdi [OF assms])
  define ctx1 where "ctx1 = MD5_Update ctx (take pl PADDING)"
  have "md5_reads ctx1 (m @ take pl PADDING)"
    unfolding ctx1_def using pad(3) by (intro md5_update_reads assms) (simp add: PADDING_def)
  then obtain a t where at: "m @ take pl PADDING = a @ t" "64 dvd length a" "length t < 64"
      "length (m @ take pl PADDING) mod 64 = length t" "md_buf ctx1 = md5_blocks md5_iv a" "take (length t) (md_in ctx1) = t"
      "length (md_in ctx1) = 64"
    by (auto simp: md5_reads_def md5_part_def)
  have t: "length t = 56" using at(4) pad(2) by simp
  have cnt: "le32 (md_i0 ctx) @ le32 (md_i1 ctx) = le64 (of_nat (8 * length m))"
  proof -
    have "(of_nat (8 * length m mod 2 ^ 64) :: u64) = of_nat (8 * length m)" by (simp only: word_unat_eq_iff unat_of_nat) simp
    then show ?thesis using assms by (simp only: md5_count_words md5_reads_def)
  qed
  have "rd32s 14 (md_in ctx1) 0 = rd32s 14 t 0"
  proof -
    have "md_in ctx1 = t @ drop 56 (md_in ctx1)" using at(6) t append_take_drop_id [of 56 "md_in ctx1"] by metis
    then show ?thesis using rd32s_append [of 14 0 t "drop 56 (md_in ctx1)"] t by simp
  qed
  then have w: "rd32s 14 (md_in ctx1) 0 @ [md_i0 ctx, md_i1 ctx] = rd32s 16 (t @ le64 (of_nat (8 * length m))) 0"
    by (simp only: cnt [symmetric] rd32s_le32s_tail [OF t])
  have "md5_digest m = md5_out (md5_blocks (md5_blocks md5_iv a) (t @ le64 (of_nat (8 * length m))))"
    unfolding md5_digest_def pad(1) at(1) by (simp add: md5_blocks_append [OF at(2)])
  also have "md5_blocks (md5_blocks md5_iv a) (t @ le64 (of_nat (8 * length m))) =
      Transform (md_buf ctx1) (rd32s 16 (t @ le64 (of_nat (8 * length m))) 0)"
  proof -
    have "md5_blocks s (t @ bs) = Transform s (rd32s 16 (t @ bs) 0)" if "length bs = 8" for s bs
      using t that by (simp add: md5_blocks.simps [of _ "t @ bs"] md5_blocks_short)
    from this [OF length_le64] show ?thesis by (simp only: at(5))
  qed
  finally show ?thesis
    by (simp add: MD5_Final_def Let_def mdi pl_def [symmetric] ctx1_def [symmetric] w)
qed

lemma md5_pieces_digest:
  assumes "length (md_in ctx) = 64" "\<forall>bs \<in> set pieces. length bs < 2 ^ 32"
  shows "MD5_Final (fold (\<lambda>bs c. MD5_Update c bs) pieces (MD5_Init ctx)) = md5_digest (concat pieces)"
  using MD5_Final_reads [OF md5_pieces_reads [OF md5_init_reads [OF assms(1)] assms(2)]] by simp

section \<open>Properties\<close>

text \<open>
  C38. Whatever the context holds before, a message passed to \<open>MD5_Update\<close> in any pieces shorter
  than 4 GiB gives the digest of the padded message: the byte loop, the bit counter with its
  carry and the padding of \<open>MD5_Final\<close> implement the iteration over the message's blocks.
\<close>

theorem md5_of_pieces:
  assumes "length (md_in ctx) = 64" "\<forall>bs \<in> set pieces. length bs < 2 ^ 32"
  shows "MD5_Final (fold (\<lambda>bs c. MD5_Update c bs) pieces (MD5_Init ctx)) = md5_digest (concat pieces)"
  by (rule md5_pieces_digest [OF assms])

theorem md5_of_pieces_witness:
  "MD5_Final (MD5_Update (MD5_Update (MD5_Init \<lparr>md_i0 = 7, md_i1 = 7, md_buf = md5_iv, md_in = replicate 64 9\<rparr>) [1, 2]) [3]) =
     md5_digest [1, 2, 3]"
  using md5_of_pieces [of "\<lparr>md_i0 = 7, md_i1 = 7, md_buf = md5_iv, md_in = replicate 64 9\<rparr>" "[[1, 2], [3]]"] by simp

end
