(* ===== verification/Mtd_Fixhdr.thy ===== *)
theory Mtd_Fixhdr
  imports Mtd_Trx Mtd_Md5
begin

text \<open>
  The repair of the image headers that carry an MD5 digest: \<open>seama.c\<close>, \<open>wrg.c\<close> and \<open>wrgg.c\<close>.
  The three files are copies of one procedure that differ in the layout of the header; the
  procedure is \<open>fix_md5\<close> and \<open>mtd_fixhdr\<close> over a record of the layout, and each file an instance.
  The laws of a layout are the interface \<open>md5_layout\<close>.
\<close>

section \<open>seama.c, wrg.c, wrgg.c\<close>

text \<open>
  The fields of a header at an offset of the block buffer: \<open>mf_len\<close> is its length,
  \<open>mf_size_at\<close> and \<open>mf_digest_at\<close> are the places of the two fields that are rewritten,
  \<open>mf_store\<close> the bytes of a size, \<open>mf_meta\<close> the length of what follows the header, and
  \<open>mf_prefix\<close> the fields of the header that the digest covers.
\<close>

record md5_format =
  mf_len :: nat
  mf_magic_ok :: "bytes \<Rightarrow> nat \<Rightarrow> bool"
  mf_size :: "bytes \<Rightarrow> nat \<Rightarrow> u32"
  mf_meta :: "bytes \<Rightarrow> nat \<Rightarrow> u64"
  mf_prefix :: "bytes \<Rightarrow> nat \<Rightarrow> bytes list"
  mf_size_at :: nat
  mf_store :: "u32 \<Rightarrow> bytes"
  mf_digest_at :: nat

definition put_at :: "nat \<Rightarrow> bytes \<Rightarrow> bytes \<Rightarrow> bytes" where
  "put_at off bs blk = take off blk @ bs @ drop (off + length bs) blk"

definition sub_at :: "nat \<Rightarrow> nat \<Rightarrow> bytes \<Rightarrow> bytes" where
  "sub_at off n blk = take n (drop off blk)"

definition put_header :: "md5_format \<Rightarrow> bytes \<Rightarrow> nat \<Rightarrow> u32 \<Rightarrow> bytes \<Rightarrow> bytes" where
  "put_header fmt blk off n digest =
     put_at (off + mf_digest_at fmt) digest (put_at (off + mf_size_at fmt) (mf_store fmt n) blk)"

text \<open>
  \<open>stk\<close> is the MD5 context on the stack. An error of the update leaves the block buffer and is
  not reported further.
\<close>

definition fix_md5 ::
    "md5_format \<Rightarrow> 'f mtd_fd \<Rightarrow> bool \<Rightarrow> MD5_CTX \<Rightarrow> 'f \<Rightarrow> bytes \<Rightarrow> nat \<Rightarrow> u64 \<Rightarrow> u64 \<Rightarrow> int \<times> bytes" where
  "fix_md5 fmt fd malloc_ok stk f blk off data_offset data_size =
     (if \<not> malloc_ok then (- ENOMEM, blk)
      else
        let (res, buf) = fd_pread fd f data_offset data_size
        in if res \<noteq> int (unat data_size) then (- EIO, blk)
           else
             let digest = MD5_Final (fold (\<lambda>bs c. MD5_Update c bs)
                            (mf_prefix fmt blk off @ [take (unat data_size) buf]) (MD5_Init stk))
             in if digest = sub_at (off + mf_digest_at fmt) 16 blk then (- 1, blk)
                else (0, put_header fmt blk off (ucast data_size) digest))"

text \<open>
  \<open>erasesize0\<close> is the global \<open>erasesize\<close> before the device is opened, 0 when the command runs
  first; the block offset is computed with it.
\<close>

definition mtd_fixhdr ::
    "md5_format \<Rightarrow> 'f mtd_fd \<Rightarrow> bool \<Rightarrow> bool \<Rightarrow> bool \<Rightarrow> MD5_CTX \<Rightarrow> u32 \<Rightarrow> u64 \<Rightarrow> u64 \<Rightarrow> 'f \<Rightarrow> int outcome \<times> 'f" where
  "mtd_fixhdr fmt fd open_ok malloc1_ok malloc2_ok stk erasesize0 offset data_size f =
     (let block_offset = offset AND NOT (scast erasesize0 - 1);
          off = unat (offset - block_offset)
      in if \<not> open_ok then (Exit1, f)
         else if block_offset + eb_size fd > scast (fd_size fd) then (Exit1, f)
         else if \<not> malloc1_ok then (Exit1, f)
         else
           let (res, first_block) = fd_pread fd f block_offset (eb_size fd)
           in if res \<noteq> sint (fd_erasesize fd) then (Exit1, f)
              else if \<not> mf_magic_ok fmt first_block off then (Exit1, f)
              else if mf_size fmt first_block off = 0 then (Exit1, f)
              else
                let data_offset = of_nat off + of_nat (mf_len fmt) + mf_meta fmt first_block off;
                    size1 = (if data_size = 0 then scast (fd_size fd) - data_offset else data_size);
                    size2 = (if size1 > ucast (mf_size fmt first_block off) then ucast (mf_size fmt first_block off) else size1);
                    (err, blk) = fix_md5 fmt fd malloc2_ok stk f first_block off data_offset size2
                in if err \<noteq> 0 then (Return 0, f)
                   else
                     let (e, f1) = mtd_erase_block fd f (ucast block_offset)
                     in if e \<noteq> 0 then (Exit1, f1)
                        else
                          let (w, f2) = fd_pwrite fd f1 block_offset blk
                          in if w \<noteq> sint (fd_erasesize fd) then (Exit1, f2) else (Return 0, f2))"

definition rd16_be :: "bytes \<Rightarrow> nat \<Rightarrow> u16" where
  "rd16_be blk k = push_bit 8 (ucast (rd8 blk k)) OR ucast (rd8 blk (k + 1))"

definition seama_format :: md5_format where
  "seama_format =
     \<lparr>mf_len = 28,
      mf_magic_ok = (\<lambda>blk off. swab32 (rd32 blk off) = 0x5ea3a417),
      mf_size = (\<lambda>blk off. swab32 (rd32 blk (off + 8))),
      mf_meta = (\<lambda>blk off. ucast (rd16_be blk (off + 6))),
      mf_prefix = (\<lambda>blk off. []),
      mf_size_at = 8, mf_store = (\<lambda>n. le32 (swab32 n)), mf_digest_at = 12\<rparr>"

definition wrg_format :: md5_format where
  "wrg_format =
     \<lparr>mf_len = 96,
      mf_magic_ok = (\<lambda>blk off. rd32 blk (off + 32) = 0x20040220),
      mf_size = (\<lambda>blk off. rd32 blk (off + 40)),
      mf_meta = (\<lambda>blk off. 0),
      mf_prefix = (\<lambda>blk off. [sub_at (off + 44) 4 blk, sub_at (off + 48) 32 blk]),
      mf_size_at = 40, mf_store = le32, mf_digest_at = 80\<rparr>"

definition wrgg_format :: md5_format where
  "wrgg_format =
     \<lparr>mf_len = 160,
      mf_magic_ok = (\<lambda>blk off. rd32 blk (off + 32) = 0x20080321),
      mf_size = (\<lambda>blk off. rd32 blk (off + 104)),
      mf_meta = (\<lambda>blk off. 0),
      mf_prefix = (\<lambda>blk off. [sub_at (off + 108) 4 blk, sub_at (off + 112) 32 blk]),
      mf_size_at = 104, mf_store = le32, mf_digest_at = 144\<rparr>"

definition seama_fix_md5 :: "'f mtd_fd \<Rightarrow> bool \<Rightarrow> MD5_CTX \<Rightarrow> 'f \<Rightarrow> bytes \<Rightarrow> nat \<Rightarrow> u64 \<Rightarrow> u64 \<Rightarrow> int \<times> bytes" where
  "seama_fix_md5 = fix_md5 seama_format"

definition wrg_fix_md5 :: "'f mtd_fd \<Rightarrow> bool \<Rightarrow> MD5_CTX \<Rightarrow> 'f \<Rightarrow> bytes \<Rightarrow> nat \<Rightarrow> u64 \<Rightarrow> u64 \<Rightarrow> int \<times> bytes" where
  "wrg_fix_md5 = fix_md5 wrg_format"

definition wrgg_fix_md5 :: "'f mtd_fd \<Rightarrow> bool \<Rightarrow> MD5_CTX \<Rightarrow> 'f \<Rightarrow> bytes \<Rightarrow> nat \<Rightarrow> u64 \<Rightarrow> u64 \<Rightarrow> int \<times> bytes" where
  "wrgg_fix_md5 = fix_md5 wrgg_format"

definition mtd_fixseama ::
    "'f mtd_fd \<Rightarrow> bool \<Rightarrow> bool \<Rightarrow> bool \<Rightarrow> MD5_CTX \<Rightarrow> u32 \<Rightarrow> u64 \<Rightarrow> u64 \<Rightarrow> 'f \<Rightarrow> int outcome \<times> 'f" where
  "mtd_fixseama = mtd_fixhdr seama_format"

definition mtd_fixwrg ::
    "'f mtd_fd \<Rightarrow> bool \<Rightarrow> bool \<Rightarrow> bool \<Rightarrow> MD5_CTX \<Rightarrow> u32 \<Rightarrow> u64 \<Rightarrow> u64 \<Rightarrow> 'f \<Rightarrow> int outcome \<times> 'f" where
  "mtd_fixwrg = mtd_fixhdr wrg_format"

definition mtd_fixwrgg ::
    "'f mtd_fd \<Rightarrow> bool \<Rightarrow> bool \<Rightarrow> bool \<Rightarrow> MD5_CTX \<Rightarrow> u32 \<Rightarrow> u64 \<Rightarrow> u64 \<Rightarrow> 'f \<Rightarrow> int outcome \<times> 'f" where
  "mtd_fixwrgg = mtd_fixhdr wrgg_format"

section \<open>The interface of a header layout\<close>

lemma length_put_at [simp]: "off + length bs \<le> length blk \<Longrightarrow> length (put_at off bs blk) = length blk"
  by (simp add: put_at_def)

lemma rd8_put_at: "off + length bs \<le> length blk \<Longrightarrow> k < off \<or> off + length bs \<le> k \<Longrightarrow> rd8 (put_at off bs blk) k = rd8 blk k"
  by (auto simp: put_at_def rd8_def nth_append min_def)

lemma rd32_put_at:
  "off + length bs \<le> length blk \<Longrightarrow> k + 4 \<le> off \<or> off + length bs \<le> k \<Longrightarrow> rd32 (put_at off bs blk) k = rd32 blk k"
  by (auto simp: rd32_def rd8_put_at)

lemma sub_at_put_at:
  "off + length bs \<le> length blk \<Longrightarrow> k + n \<le> off \<or> off + length bs \<le> k \<Longrightarrow> sub_at k n (put_at off bs blk) = sub_at k n blk"
  by (auto simp: sub_at_def put_at_def intro!: nth_equalityI)

lemma sub_at_put_same: "off + length bs \<le> length blk \<Longrightarrow> sub_at off (length bs) (put_at off bs blk) = bs"
  by (simp add: sub_at_def put_at_def)

lemma rd32_put_same: "off + 4 \<le> length blk \<Longrightarrow> rd32 (put_at off (le32 w) blk) off = w"
  by (simp add: put_at_def rd32_append_right rd32_append_left)

lemma swab32_swab32 [simp]: "swab32 (swab32 w) = w"
proof -
  have "le32 (swab32 w) = rev (le32 w)" unfolding swab32_def by (subst le32_rd32) simp_all
  then have "rev (le32 (swab32 w)) = le32 w" by simp
  then show ?thesis by (simp add: swab32_def [of "swab32 w"])
qed

lemmas put_at_simps = rd8_put_at rd32_put_at sub_at_put_at rd32_put_same

locale md5_layout =
  fixes fmt :: md5_format
  assumes fields: "mf_size_at fmt + 4 \<le> mf_digest_at fmt" "mf_digest_at fmt + 16 \<le> mf_len fmt" "mf_len fmt \<le> 160"
    and length_store: "length (mf_store fmt n) = 4"
    and meta_small: "unat (mf_meta fmt blk off) < 2 ^ 16"
    and prefix_small: "bs \<in> set (mf_prefix fmt blk off) \<Longrightarrow> length bs \<le> 32"
    and put_keeps: "length d = 16 \<Longrightarrow> off + mf_len fmt \<le> length blk \<Longrightarrow>
      mf_magic_ok fmt (put_header fmt blk off n d) off = mf_magic_ok fmt blk off \<and>
      mf_meta fmt (put_header fmt blk off n d) off = mf_meta fmt blk off \<and>
      mf_prefix fmt (put_header fmt blk off n d) off = mf_prefix fmt blk off"
    and put_size: "length d = 16 \<Longrightarrow> off + mf_len fmt \<le> length blk \<Longrightarrow> mf_size fmt (put_header fmt blk off n d) off = n"
begin

lemma length_put_header:
  "length d = 16 \<Longrightarrow> off + mf_len fmt \<le> length blk \<Longrightarrow> length (put_header fmt blk off n d) = length blk"
  using fields by (simp add: put_header_def length_store)

lemma put_header_digest:
  "length d = 16 \<Longrightarrow> off + mf_len fmt \<le> length blk \<Longrightarrow> sub_at (off + mf_digest_at fmt) 16 (put_header fmt blk off n d) = d"
  using fields sub_at_put_same [of "off + mf_digest_at fmt" d "put_at (off + mf_size_at fmt) (mf_store fmt n) blk"]
  by (simp add: put_header_def length_store)

end

lemma unat_meta: "unat (ucast (w :: u16) :: u64) < 2 ^ 16"
  using unat_less_2p [of w] by simp

interpretation seama: md5_layout seama_format
  by unfold_locales (use unat_meta in \<open>auto simp: seama_format_def put_header_def put_at_simps rd16_be_def\<close>)

interpretation wrg: md5_layout wrg_format
  by unfold_locales (auto simp: wrg_format_def put_header_def put_at_simps, auto simp: sub_at_def)

interpretation wrgg: md5_layout wrgg_format
  by unfold_locales (auto simp: wrgg_format_def put_header_def put_at_simps, auto simp: sub_at_def)

section \<open>The repaired header\<close>

definition md5_site :: "md5_format \<Rightarrow> 'f mtd_fd \<Rightarrow> nat set \<Rightarrow> (nat \<Rightarrow> u8) \<Rightarrow> u64 \<Rightarrow> nat \<Rightarrow> nat \<Rightarrow> bool" where
  "md5_site fmt fd bad m data_size start n \<longleftrightarrow>
     (let es = unat (fd_erasesize fd); sz = unat (fd_size fd); blk = map m [0..<es]
      in 0 \<notin> bad \<and> sz < 2 ^ 31 \<and> es \<le> sz \<and> mf_len fmt \<le> es \<and> mf_magic_ok fmt blk 0 \<and>
         start = mf_len fmt + unat (mf_meta fmt blk 0) \<and> start + n \<le> sz \<and> 0 < n \<and>
         n = min (if data_size = 0 then sz - start else unat data_size) (unat (mf_size fmt blk 0)))"

definition md5_msg :: "md5_format \<Rightarrow> 'f mtd_fd \<Rightarrow> (nat \<Rightarrow> u8) \<Rightarrow> nat \<Rightarrow> nat \<Rightarrow> bytes" where
  "md5_msg fmt fd m start n =
     concat (mf_prefix fmt (map m [0..<unat (fd_erasesize fd)]) 0) @ map m [start..<start + n]"

definition md5_field :: "md5_format \<Rightarrow> (nat \<Rightarrow> u8) \<Rightarrow> bytes" where
  "md5_field fmt m = map m [mf_digest_at fmt..<mf_digest_at fmt + 16]"

definition md5_written :: "md5_format \<Rightarrow> (nat \<Rightarrow> u8) \<Rightarrow> nat \<Rightarrow> bytes \<Rightarrow> nat \<Rightarrow> u8" where
  "md5_written fmt m n d = put_bytes (put_bytes m (mf_size_at fmt) (mf_store fmt (of_nat n))) (mf_digest_at fmt) d"

lemma put_at_map: "off + length bs \<le> es \<Longrightarrow> put_at off bs (map m [0..<es]) = map (put_bytes m off bs) [0..<es]"
  by (intro nth_equalityI) (auto simp: put_at_def put_bytes_def nth_append)

lemma sub_at_map: "off + n \<le> es \<Longrightarrow> sub_at off n (map m [0..<es]) = map m [off..<off + n]"
  by (intro nth_equalityI) (simp_all add: sub_at_def)

lemma length_md5_digest [simp]: "length (md5_digest m) = 16"
  by (simp add: md5_digest_def md5_out_def split: prod.split)

context md5_layout
begin

lemma put_header_map:
  assumes "length d = 16" "mf_len fmt \<le> es"
  shows "put_header fmt (map m [0..<es]) 0 (of_nat n) d = map (md5_written fmt m n d) [0..<es]"
  using assms fields by (simp add: put_header_def md5_written_def put_at_map length_store)

lemma fix_md5_digest:
  assumes ok: "flash_ok fd D mem bad" "f \<in> D" and stk: "length (md_in stk) = 64"
    and es: "es = unat (fd_erasesize fd)" "mf_len fmt \<le> es"
    and data: "unat data_offset = start" "unat data_size = n" "start + n \<le> unat (fd_size fd)"
    and d: "d = md5_digest (md5_msg fmt fd (mem f) start n)"
  shows "fix_md5 fmt fd True stk f (map (mem f) [0..<es]) 0 data_offset data_size =
    (if md5_field fmt (mem f) = d then (- 1, map (mem f) [0..<es])
     else (0, map (md5_written fmt (mem f) n d) [0..<es]))"
proof -
  let ?blk = "map (mem f) [0..<es]" and ?data = "map (mem f) [start..<start + n]"
  have rd: "fd_pread fd f data_offset data_size = (int n, ?data)"
    using flash_read [OF ok, of data_offset data_size] data by simp
  have n32: "n < 2 ^ 32" using data(3) unat_less_2p [of "fd_size fd"] by simp
  have "length bs < 2 ^ 32" if "bs \<in> set (mf_prefix fmt ?blk 0 @ [?data])" for bs
    using that prefix_small [of bs ?blk 0] n32 by auto
  then have dig: "MD5_Final (fold (\<lambda>bs c. MD5_Update c bs) (mf_prefix fmt ?blk 0 @ [?data]) (MD5_Init stk)) = d"
    using md5_pieces_digest [OF stk, of "mf_prefix fmt ?blk 0 @ [?data]"] by (simp add: d md5_msg_def es(1))
  have fld: "sub_at (0 + mf_digest_at fmt) 16 ?blk = md5_field fmt (mem f)"
    using fields es(2) sub_at_map [of "mf_digest_at fmt" 16 es "mem f"] by (simp add: md5_field_def)
  have "length d = 16" by (simp add: d)
  note hdr = put_header_map [OF this es(2), of "mem f" n]
  have "unat (ucast data_size :: u32) = n" using data(2) n32 by (subst unat_u64_u32) simp_all
  then have uc: "(ucast data_size :: u32) = of_nat n" using n32 by (simp add: word_unat_eq_iff unat_of_nat_small)
  have tk: "take (unat data_size) ?data = ?data" by (simp add: data(2))
  show ?thesis
    unfolding fix_md5_def rd using dig fld hdr by (auto simp: Let_def tk uc data(2))
qed

lemma mtd_fixhdr_run:
  assumes ok: "flash_ok fd D mem bad" "f \<in> D" and stk: "length (md_in stk) = 64"
    and site: "md5_site fmt fd bad (mem f) data_size start n"
    and d: "d = md5_digest (md5_msg fmt fd (mem f) start n)"
  shows "\<exists>f' \<in> D. mtd_fixhdr fmt fd True True True stk erasesize0 0 data_size f = (Return 0, f') \<and>
    (if md5_field fmt (mem f) = d then f' = f else mem f' = md5_written fmt (mem f) n d)"
proof -
  define es where "es = unat (fd_erasesize fd)"
  define blk where "blk = map (mem f) [0..<es]"
  have s: "0 \<notin> bad" "unat (fd_size fd) < 2 ^ 31" "es \<le> unat (fd_size fd)" "mf_len fmt \<le> es" "mf_magic_ok fmt blk 0"
      "start = mf_len fmt + unat (mf_meta fmt blk 0)" "start + n \<le> unat (fd_size fd)" "0 < n"
      "n = min (if data_size = 0 then unat (fd_size fd) - start else unat data_size) (unat (mf_size fmt blk 0))"
    using site unfolding md5_site_def Let_def es_def [symmetric] blk_def [symmetric] by blast+
  have esz: "eb_size fd = ucast (fd_erasesize fd)" "sint (fd_erasesize fd) = int es" "(scast (fd_size fd) :: u64) = ucast (fd_size fd)"
    using scast_pos [of "fd_erasesize fd"] scast_pos [of "fd_size fd"] s(2,3) by (simp_all add: eb_size_def es_def)
  have rd: "fd_pread fd f 0 (eb_size fd) = (int es, blk)"
    using flash_read [OF ok, of 0 "eb_size fd"] s(3) by (simp add: esz es_def blk_def)
  define doff where "doff = of_nat (mf_len fmt) + mf_meta fmt blk 0"
  have ud: "unat doff = start"
    using fields(3) meta_small [of blk 0] unat_of_nat_small [of "mf_len fmt", where 'a = 64]
    by (simp add: doff_def s(6) unat_word_ariths)
  define size1 where "size1 = (if data_size = 0 then scast (fd_size fd) - doff else data_size)"
  define size2 where "size2 = (if size1 > ucast (mf_size fmt blk 0) then ucast (mf_size fmt blk 0) else size1)"
  have "unat (scast (fd_size fd) - doff :: u64) = unat (fd_size fd) - start"
    using s(7) by (simp add: esz(3) unat_sub_le word_le_unat ud)
  then have "unat size1 = (if data_size = 0 then unat (fd_size fd) - start else unat data_size)" by (simp add: size1_def)
  then have u2: "unat size2 = n" by (simp add: size2_def s(9) word_less_unat min_def)
  have sz0: "mf_size fmt blk 0 \<noteq> 0" using s(8,9) by (auto simp: unat_gt_0)
  note fixd = fix_md5_digest [OF ok stk es_def s(4) ud u2 s(7) d, folded blk_def]
  have nolim: "\<not> scast (fd_size fd) < 0 + eb_size fd" using s(3) by (simp add: esz word_less_unat es_def)
  have run: "mtd_fixhdr fmt fd True True True stk erasesize0 0 data_size f =
      (let (err, b) = fix_md5 fmt fd True stk f blk 0 doff size2
       in if err \<noteq> 0 then (Return 0, f)
          else let (e, f1) = mtd_erase_block fd f 0
               in if e \<noteq> 0 then (Exit1, f1)
                  else let (w, f2) = fd_pwrite fd f1 0 b in if w \<noteq> int es then (Exit1, f2) else (Return 0, f2))"
    using nolim s(5) sz0
    by (simp add: mtd_fixhdr_def rd esz(2) Let_def doff_def [symmetric] size1_def [symmetric] size2_def [symmetric]
        cong: prod.case_cong if_cong)
  show ?thesis
  proof (cases "md5_field fmt (mem f) = d")
    case True
    then show ?thesis using run fixd ok(2) by simp
  next
    case False
    let ?new = "map (md5_written fmt (mem f) n d) [0..<es]"
    have good: "good_region es bad 0 es" using s(1) by (auto simp: good_region_def)
    obtain f1 where f1: "f1 \<in> D" "mtd_erase_block fd f 0 = (0, f1)" "mem f1 = put_bytes (mem f) 0 (replicate es 0xff)"
      using flash_erase_block [OF ok, of 0] s(3) good by (auto simp: es_def)
    obtain f2 where f2: "f2 \<in> D" "fd_pwrite fd f1 0 ?new = (int es, f2)" "mem f2 = put_bytes (mem f1) 0 ?new"
      using flash_write [OF ok(1) f1(1), of 0 ?new] s(3) good by (auto simp: es_def f1(3) put_bytes_def)
    have "mem f2 x = md5_written fmt (mem f) n d x" for x
      using fields s(4) length_store d by (auto simp: f2(3) f1(3) put_bytes_def md5_written_def)
    then show ?thesis using run fixd False f1(2) f2(1,2) by auto
  qed
qed

lemma md5_site_written:
  assumes site: "md5_site fmt fd bad m data_size start n" and d: "length d = 16"
  shows "md5_site fmt fd bad (md5_written fmt m n d) data_size start n"
    "md5_msg fmt fd (md5_written fmt m n d) start n = md5_msg fmt fd m start n"
    "md5_field fmt (md5_written fmt m n d) = d"
proof -
  define es where "es = unat (fd_erasesize fd)"
  let ?blk = "map m [0..<es]" and ?new = "map (md5_written fmt m n d) [0..<es]"
  note site' = site [unfolded md5_site_def Let_def es_def [symmetric]]
  have len: "mf_len fmt \<le> es" and n32: "n < 2 ^ 32" and st: "mf_len fmt \<le> start" using site' by auto
  have new: "?new = put_header fmt ?blk 0 (of_nat n) d" by (rule put_header_map [OF d len, symmetric])
  have keep: "mf_magic_ok fmt ?new 0 = mf_magic_ok fmt ?blk 0" "mf_meta fmt ?new 0 = mf_meta fmt ?blk 0"
      "mf_prefix fmt ?new 0 = mf_prefix fmt ?blk 0" "mf_size fmt ?new 0 = of_nat n"
    unfolding new using put_keeps [OF d, of 0 ?blk] put_size [OF d, of 0 ?blk] len by simp_all
  have "unat (of_nat n :: u32) = n" using n32 by (simp add: unat_of_nat_small)
  then show "md5_site fmt fd bad (md5_written fmt m n d) data_size start n"
    using site' unfolding md5_site_def Let_def es_def [symmetric] keep by auto
  have "md5_written fmt m n d x = m x" if "start \<le> x" for x
    using that st fields d length_store by (auto simp: md5_written_def put_bytes_def)
  then show "md5_msg fmt fd (md5_written fmt m n d) start n = md5_msg fmt fd m start n"
    unfolding md5_msg_def es_def [symmetric] keep by simp
  show "md5_field fmt (md5_written fmt m n d) = d"
    using d by (intro nth_equalityI) (simp_all add: md5_field_def md5_written_def put_bytes_def)
qed

lemma mtd_fixhdr_repairs:
  assumes ok: "flash_ok fd D mem bad" "f \<in> D" and stk: "length (md_in stk) = 64"
    and site: "md5_site fmt fd bad (mem f) data_size start n"
    and d: "d = md5_digest (md5_msg fmt fd (mem f) start n)"
  shows "\<exists>f' \<in> D. mtd_fixhdr fmt fd True True True stk erasesize0 0 data_size f = (Return 0, f') \<and>
    mem f' = (if md5_field fmt (mem f) = d then mem f else md5_written fmt (mem f) n d) \<and>
    mtd_fixhdr fmt fd True True True stk erasesize0 0 data_size f' = (Return 0, f')"
proof -
  obtain f1 where f1: "f1 \<in> D" "mtd_fixhdr fmt fd True True True stk erasesize0 0 data_size f = (Return 0, f1)"
      "if md5_field fmt (mem f) = d then f1 = f else mem f1 = md5_written fmt (mem f) n d"
    using mtd_fixhdr_run [OF assms, of erasesize0] by blast
  show ?thesis
  proof (cases "md5_field fmt (mem f) = d")
    case True
    then show ?thesis using f1 by auto
  next
    case False
    then have m: "mem f1 = md5_written fmt (mem f) n d" using f1(3) by simp
    have "length d = 16" by (simp add: d)
    note w = md5_site_written [OF site this, folded m]
    have "mtd_fixhdr fmt fd True True True stk erasesize0 0 data_size f1 = (Return 0, f1)"
      using mtd_fixhdr_run [OF ok(1) f1(1) stk w(1), of d erasesize0] w(2,3) d by auto
    then show ?thesis using f1(1,2) m False by auto
  qed
qed

end

section \<open>Properties\<close>

text \<open>
  C37. For each of the three formats: on a working device whose first block is good and holds a
  header, the command ends with success. It stores the length of the covered data and the MD5
  digest of the covered header fields and data unless the digest is already there, changes no
  other byte, and a second run writes nothing.
\<close>

theorem md5_headers_repaired:
  assumes "(fix_cmd, fmt) \<in> {(mtd_fixseama, seama_format), (mtd_fixwrg, wrg_format), (mtd_fixwrgg, wrgg_format)}"
    and "flash_ok fd D mem bad" "f \<in> D" "length (md_in stk) = 64"
    and "md5_site fmt fd bad (mem f) data_size start n"
    and "d = md5_digest (md5_msg fmt fd (mem f) start n)"
  shows "\<exists>f' \<in> D. fix_cmd fd True True True stk erasesize0 0 data_size f = (Return 0, f') \<and>
    mem f' = (if md5_field fmt (mem f) = d then mem f else md5_written fmt (mem f) n d) \<and>
    fix_cmd fd True True True stk erasesize0 0 data_size f' = (Return 0, f')"
proof -
  consider "fix_cmd = mtd_fixhdr seama_format" "fmt = seama_format" | "fix_cmd = mtd_fixhdr wrg_format" "fmt = wrg_format" |
      "fix_cmd = mtd_fixhdr wrgg_format" "fmt = wrgg_format"
    using assms(1) by (auto simp: mtd_fixseama_def mtd_fixwrg_def mtd_fixwrgg_def)
  then show ?thesis
  proof cases
    case 1
    show ?thesis unfolding 1 using assms(5,6) unfolding 1 by (rule seama.mtd_fixhdr_repairs [OF assms(2-4)])
  next
    case 2
    show ?thesis unfolding 2 using assms(5,6) unfolding 2 by (rule wrg.mtd_fixhdr_repairs [OF assms(2-4)])
  next
    case 3
    show ?thesis unfolding 3 using assms(5,6) unfolding 3 by (rule wrgg.mtd_fixhdr_repairs [OF assms(2-4)])
  qed
qed

text \<open>A device of four blocks of 64 bytes with a SEAMA header for 100 bytes.\<close>

definition seama_image :: bytes where
  "seama_image = [0x5e, 0xa3, 0xa4, 0x17, 0, 0, 0, 0, 0, 0, 0, 100] @ replicate 244 0"

theorem md5_headers_repaired_witness:
  "\<exists>f'. mtd_fixseama (ram_fd 256 64 1 []) True True True \<lparr>md_i0 = 0, md_i1 = 0, md_buf = md5_iv, md_in = replicate 64 0\<rparr> 0 0 0 seama_image =
      (Return 0, f')"
proof -
  let ?fd = "ram_fd 256 64 1 []" and ?m = "ram_mem seama_image"
  have ok: "flash_ok ?fd {f. length f = unat (256 :: u32)} ram_mem {}" using ram_flash_ok [of 64 256 1 "[]"] by simp
  have f: "seama_image \<in> {f. length f = unat (256 :: u32)}" by (simp add: seama_image_def)
  have "mf_magic_ok seama_format (map ?m [0..<64]) 0" "mf_meta seama_format (map ?m [0..<64]) 0 = 0"
    "mf_size seama_format (map ?m [0..<64]) 0 = 100" by code_simp+
  moreover have "fd_erasesize ?fd = 64" "fd_size ?fd = 256" "mf_len seama_format = 28" by (simp_all add: ram_fd_def seama_format_def)
  ultimately have site: "md5_site seama_format ?fd {} ?m 0 28 100" by (simp add: md5_site_def)
  let ?stk = "\<lparr>md_i0 = 0, md_i1 = 0, md_buf = md5_iv, md_in = replicate 64 0\<rparr>"
  have "(mtd_fixseama, seama_format) \<in> {(mtd_fixseama, seama_format), (mtd_fixwrg, wrg_format), (mtd_fixwrgg, wrgg_format)}"
    "length (md_in ?stk) = 64" by simp_all
  from md5_headers_repaired [OF this(1) ok f this(2) site refl, of 0] show ?thesis by blast
qed

end
