(* ===== verification/Spec2Isabelle.thy ===== *)
theory Spec2Isabelle
  imports Bmt_Driver Nmbm_Layout Nvram Mtd_Parsers Mtd_Bootcount Mtd_Write Mtd_Fixhdr
begin

text \<open>
  A verification of the flash storage stack of ImmortalWrt for the MediaTek MT798x routers.

  \<^bold>\<open>The program.\<close> The repository builds a router firmware. Its own C code that decides where
  bytes lie on flash is in four places, and these are modelled here:

  \<^item> \<open>target/linux/generic/files/drivers/mtd/nand/mtk_bmt*.c\<close>: a translation layer between the
    MTD core and a NAND chip. It replaces the five functions of the chip, translates each
    logical block to a physical one, and remaps a block when the chip reports a failure. The
    mapping is kept by one of three back ends: BBT (a bitmap of bad blocks, the n-th good
    block is the n-th logical one), version 2 (a table of replacements from a pool of spare
    blocks) and NMBM (state and mapping tables stored twice with checksums).
  \<^item> \<open>target/linux/generic/files/drivers/mtd/mtdsplit/*.c\<close>: the parsers that split a firmware
    partition into kernel and root file system.
  \<^item> \<open>package/utils/nvram/src\<close>: the library and command line tool for the NVRAM partition of
    Broadcom devices, a hash table of name/value pairs with a CRC-protected image.
  \<^item> \<open>package/system/mtd/src\<close>: the command line tool that erases, writes and dumps an MTD
    partition, repairs image headers and keeps boot counters, as built for the MediaTek targets.

  \<^bold>\<open>How the code is represented.\<close> A C struct is a \<open>record\<close>, an integer of w bits a \<open>w word\<close>
  (a C \<open>int\<close> whose range matters is computed at 32 bits and read with \<open>sint\<close>), an error return
  a negative integer as in the source, a loop a recursive function. A loop that need not end
  is a \<open>partial_function (option)\<close> whose value is then \<open>None\<close>. Global variables and device state
  are passed explicitly. Code outside the repository is a parameter: the functions of the NAND
  chip (fields of \<open>bmt_desc\<close> over an arbitrary type of device states, so a chip may fail, wear
  out or recover between two calls), the kernel's \<open>crc32_le\<close> (the argument \<open>crc\<close> of NMBM), the
  device tree, memory allocation, the device tree library, the layout of the BCM63xx image tag,
  the read function of an MTD device, the memory behind the table buffer of version 2, which the
  driver reads because the buffer is too short for the table, and, for the \<open>mtd\<close> tool, the system
  calls on an open device.

  \<^bold>\<open>The theories.\<close>

  \<^item> \<open>Flash_Prelude\<close>: words, byte lists, error numbers, the interface \<open>state_table\<close> of a table of
    states per block.
  \<^item> \<open>Nand_Lower\<close>: \<open>mtk_bmt.h\<close>, \<open>bbt_nand_copy\<close> and \<open>mapping_block_in_range\<close>. \<open>Nand_Sim\<close>: a
    chip in memory on which theorems with hypotheses are exercised.
  \<^item> \<open>Bmt_Core\<close>: the entry points of \<open>mtk_bmt.c\<close> (read, write, erase, isbad, markbad and the
    debugfs handlers) over an arbitrary back end.
  \<^item> \<open>Bmt_Io\<close>: the interface of a back end in two locales. \<open>bmt_remapper\<close> has the law that a
    remap keeps the table consistent; from it follows that no request loop hangs on a failing chip.
    \<open>bmt_backend\<close> extends it by the law that addressable blocks translate to blocks below a limit
    as long as the table is not \<open>lost\<close>. Sequences of requests are a step relation, with the
    invariant of the reachable states.
  \<^item> \<open>Bmt_Data\<close>: reads and writes as address translations on a chip without faults.
  \<^item> \<open>Bmt_Bbt\<close>, \<open>Bmt_V2\<close>: \<open>mtk_bmt_bbt.c\<close> and \<open>mtk_bmt_v2.c\<close>, each an interpretation of
    \<open>bmt_backend\<close>; for BBT the mapping is a permutation equal to a reference definition, for
    version 2 the invariant of the tables under scan, attach, remap and the collector, and which
    part of the table the stored pages hold. The pool is modelled with the memory behind it, which
    the code reads and writes once an upload has found no place for the table (the history
    variable \<open>bb_lost\<close>); what is said of the translation holds until then.
  \<^item> \<open>Nmbm_Base\<close>, \<open>Nmbm_Table\<close>, \<open>Nmbm_Attach\<close>: \<open>mtk_bmt_nmbm.c\<close> in the order of the file:
    state bitmap and page operations, the stored tables and their update, attach and the
    operations of the back end. \<open>Nmbm_Facts\<close>: remap, checksums and its interpretation of
    \<open>bmt_backend\<close>. \<open>Nmbm_Inj\<close>: when data blocks lie on different physical blocks.
    \<open>Nmbm_Layout\<close>: the layout of the info table and what an update stores of the tables in memory.
  \<^item> \<open>Bmt_Driver\<close>: attach and detach of \<open>mtk_bmt.c\<close> and the properties of requests through
    each back end.
  \<^item> \<open>Nvram\<close>: \<open>nvram.c\<close>, \<open>crc.c\<close> and the handlers of \<open>cli.c\<close>; the hash table is an
    interpretation of the interface \<open>kv_store\<close>.
  \<^item> \<open>Mtd_Split\<close>: \<open>mtdsplit.c\<close> and fourteen parsers, with the rounding to erase blocks of the MTD
    core, whose product has 32 bits: the search for a root file system is right from a start that
    lies below 4 GiB or on a boundary. \<open>Mtd_Parsers\<close>: the parsers for H3C VFS, FIT,
    BCM63xx and WFI images; on a device with two WFI images the one of the larger boot flag is
    split and the other half is one partition.
  \<^item> \<open>Mtd_Fd\<close>: an open MTD device (\<open>mtd_fd\<close>), the law \<open>flash_ok\<close> of a device that works, and a
    device in memory that satisfies it. \<open>Mtd_Crc32\<close>: \<open>crc32.c\<close> and \<open>crc32.h\<close>, equal to the
    bitwise CRC. \<open>Mtd_Bootcount\<close>: \<open>linksys_bootcount.c\<close>, a refinement of an append-only list of
    counts, and \<open>tpl_ramips_recoveryflag.c\<close>. \<open>Mtd_Trx\<close>: \<open>trx.c\<close>; the repair of a TRX header is
    exact and idempotent. \<open>Mtd_Md5\<close>: \<open>md5.c\<close>, a refinement of the message read so far.
    \<open>Mtd_Fixhdr\<close>: \<open>seama.c\<close>, \<open>wrg.c\<close> and \<open>wrgg.c\<close> as instances of one procedure over the
    interface \<open>md5_layout\<close> of a header layout. \<open>Mtd_Write\<close>: the erase, dump and write commands of \<open>mtd.c\<close>; an accepted
    image is stored in the good blocks in their order and can be dumped again.

  \<^bold>\<open>Bounds.\<close> The retry counters of the source (ten retries per request, three tries per page in
  NMBM) are kept as they are, and the termination proofs rest on them. A natural number argument
  that bounds a recursion (\<open>bbt_nand_copy_loop\<close>, \<open>bbt_high_loop\<close>, \<open>upload_bmt\<close>,
  \<open>mtk_bmt_read_bbt\<close>) is the number of iterations the C loop can make, stated at the definition.
  Addresses of requests are bounded by the number of blocks, at most \<open>2 ^ 16\<close> because the driver
  keeps block numbers in 16 bits. A sequence of requests (\<open>req_ok\<close>) consists of erases inside the
  area and of reads and writes of less than 4 GiB inside it, with or without OOB data; one with OOB
  data has to end before the end of the area, because the loop goes on behind the data while OOB
  bytes are left. The scan loops of version 2 work on tables of \<open>table_size\<close> entries, and their
  properties assume that the blocks of the chip fit.

  \<^bold>\<open>Not modelled.\<close> Log output; locking (the driver has none); the debugfs files themselves;
  for nvram the search for the partition and the staging file; and the rest of the repository: the wireless and Ethernet drivers,
  the kernel patches, image tools and the build system. Of the \<open>mtd\<close> tool: the BCM image
  tag, JFFS2 and FIS support, \<open>trx_fixup\<close>, the \<open>verify\<close> command, and writing to several devices
  in turn.
\<close>

end
